(* ===== verification/KasmPrelude.thy ===== *)
theory KasmPrelude
  imports Main "HOL-Library.Word"
begin

text \<open>
  What the components share: names for the C integer types, the conversion of an
  int to a C short, and generic facts about lists that the library does not have in the
  form the component proofs need.
\<close>

section \<open>C integers\<close>

type_synonym byte = "8 word"

text \<open>
  Coordinates are C shorts. They are kept as \<^typ>\<open>int\<close> and wrapped where the code
  stores an int expression into a short (two's complement, 16 bits). \<open>u32\<close> is the
  conversion to unsigned int.
\<close>

definition c_short :: "int \<Rightarrow> int" where
  "c_short n = signed_take_bit 15 n"

definition c_int :: "int \<Rightarrow> int" where
  "c_int n = signed_take_bit 31 n"

definition c_ushort :: "int \<Rightarrow> int" where
  "c_ushort n = n mod 65536"

definition u32 :: "int \<Rightarrow> nat" where
  "u32 n = nat (n mod 4294967296)"

definition in_short :: "int \<Rightarrow> bool" where
  "in_short n \<longleftrightarrow> - 32768 \<le> n \<and> n \<le> 32767"

lemma c_short_id [simp]: "in_short n \<Longrightarrow> c_short n = n"
  unfolding c_short_def in_short_def by (rule signed_take_bit_int_eq_self) auto

lemma c_int_id: "\<lbrakk>- 2147483648 \<le> n; n \<le> 2147483647\<rbrakk> \<Longrightarrow> c_int n = n"
  unfolding c_int_def by (rule signed_take_bit_int_eq_self) auto

lemma u32_add: "a + n < 4294967296 \<Longrightarrow> u32 (int a + int n) = a + n"
  by (simp add: u32_def flip: of_nat_add)

lemma in_short_c_short [simp]: "in_short (c_short n)"
  using signed_take_bit_int_greater_eq_minus_exp [of 15 n]
    signed_take_bit_int_less_exp [of 15 n]
  by (simp add: c_short_def in_short_def)

section \<open>Lists\<close>

lemma takeWhile_append_all:
  "\<lbrakk>\<forall>x\<in>set xs. P x; ys \<noteq> [] \<Longrightarrow> \<not> P (hd ys)\<rbrakk> \<Longrightarrow> takeWhile P (xs @ ys) = xs"
  by (cases ys) auto

lemma dropWhile_append_all:
  "\<lbrakk>\<forall>x\<in>set xs. P x; ys \<noteq> [] \<Longrightarrow> \<not> P (hd ys)\<rbrakk> \<Longrightarrow> dropWhile P (xs @ ys) = ys"
  by (cases ys) auto

text \<open>Two lists ordered by the same strict order and with the same elements are equal.\<close>

lemma sorted_wrt_unique:
  assumes "sorted_wrt R xs" "sorted_wrt R ys" "set xs = set ys"
    and "\<And>a b. \<lbrakk>a \<in> set xs; b \<in> set xs; R a b\<rbrakk> \<Longrightarrow> \<not> R b a"
  shows "xs = ys"
  using assms
proof (induction xs arbitrary: ys)
  case Nil
  then show ?case by simp
next
  case (Cons x xs)
  from Cons.prems(3) obtain y ys' where ys: "ys = y # ys'"
    by (cases ys) auto
  have asym: "R a b \<Longrightarrow> \<not> R b a" if "a \<in> set (x # xs)" "b \<in> set (x # xs)" for a b
    using Cons.prems(4) that by blast
  have x: "\<forall>b\<in>set xs. R x b" and y: "\<forall>b\<in>set ys'. R y b"
    using Cons.prems(1,2) ys by simp_all
  have sets: "insert x (set xs) = insert y (set ys')"
    using Cons.prems(3) ys by simp
  have "x = y"
  proof (rule ccontr)
    assume "x \<noteq> y"
    have "x \<in> insert y (set ys')" "y \<in> insert x (set xs)"
      using sets by (metis insertI1)+
    with \<open>x \<noteq> y\<close> have "x \<in> set ys'" "y \<in> set xs"
      by simp_all
    with x y asym [of x y] show False by simp
  qed
  have irrefl: "\<not> R x x"
    using asym [of x x] by auto
  have "x \<notin> set xs"
    using x irrefl by blast
  moreover have "x \<notin> set ys'"
    using y irrefl \<open>x = y\<close> by blast
  ultimately have eq: "set xs = set ys'"
    using sets \<open>x = y\<close> insert_ident by metis
  have "xs = ys'"
  proof (rule Cons.IH)
    show "sorted_wrt R xs" "sorted_wrt R ys'"
      using Cons.prems(1,2) ys by simp_all
    show "set xs = set ys'" by (rule eq)
    show "\<not> R b a" if "a \<in> set xs" "b \<in> set xs" "R a b" for a b
      using asym [of a b] that by simp
  qed
  with ys \<open>x = y\<close> show ?case by simp
qed

section \<open>Codecs\<close>

text \<open>
  The contract of a printer or encoder and the parser or decoder that undoes it, on the
  values the encoder is meant for. Two such values are never encoded the same way.
\<close>

locale codec =
  fixes encode :: "'a \<Rightarrow> 'b" and decode :: "'b \<Rightarrow> 'a" and valid :: "'a \<Rightarrow> bool"
  assumes decode_encode: "valid x \<Longrightarrow> decode (encode x) = x"
begin

lemma encode_inj: "\<lbrakk>valid x; valid y; encode x = encode y\<rbrakk> \<Longrightarrow> x = y"
  using decode_encode by metis

lemma decode_surj: "valid x \<Longrightarrow> \<exists>y. decode y = x"
  using decode_encode by blast

end

end
