(* ===== verification/XRegionModel.thy ===== *)
theory XRegionModel
  imports KasmPrelude
begin

text \<open>
  The region library of \<^verbatim>\<open>src/common/Xregion/Region.c\<close>: the data types of
  \<^verbatim>\<open>Xregion.h\<close> and every routine of the file, in the order of the file. A region
  is a y-x-banded array of boxes; every damage, clip and update region of the server
  is one.

  The array \<^verbatim>\<open>rects\<close> of a region is the list of boxes written to it so far, and
  \<^verbatim>\<open>size\<close> is the number of boxes allocated. \<^verbatim>\<open>size\<close> and \<^verbatim>\<open>numRects\<close> are C
  longs that never go below zero, so they are natural numbers. Whether the allocator
  can serve a request is the parameter \<open>al\<close>, a predicate on the number of bytes
  asked for; the branches of the code for a failed allocation are those of the model.
  \<^verbatim>\<open>Region\<close> is a pointer in the code, the destination of an operation may be one of
  its sources, and several branches compare pointers, so the exported operations work on
  an explicit heap of regions.
\<close>

section \<open>Data\<close>

record BOX =
  bx1 :: int
  bx2 :: int
  by1 :: int
  by2 :: int

text \<open>
  \<open>lost\<close> counts how often the block behind \<^verbatim>\<open>rects\<close> was freed while the pointer was kept: it is
  0 for a region that owns its array, and 2 or more after a double free.
\<close>

record REGION =
  rsize :: nat
  numRects :: nat
  rects :: "BOX list"
  extents :: BOX
  lost :: nat

definition mkBox :: "int \<Rightarrow> int \<Rightarrow> int \<Rightarrow> int \<Rightarrow> BOX" where
  "mkBox x1 y1 x2 y2 = \<lparr>bx1 = x1, bx2 = x2, by1 = y1, by2 = y2\<rparr>"

text \<open>The boxes a region holds: the first \<^verbatim>\<open>numRects\<close> of the array.\<close>

definition boxes :: "REGION \<Rightarrow> BOX list" where
  "boxes r = take (numRects r) (rects r)"

text \<open>The macros EXTENTCHECK, INBOX, EMPTY\_REGION and MEMCHECK.\<close>

definition EXTENTCHECK :: "BOX \<Rightarrow> BOX \<Rightarrow> bool" where
  "EXTENTCHECK r1 r2 \<longleftrightarrow>
     bx2 r1 > bx1 r2 \<and> bx1 r1 < bx2 r2 \<and> by2 r1 > by1 r2 \<and> by1 r1 < by2 r2"

definition INBOX :: "BOX \<Rightarrow> int \<Rightarrow> int \<Rightarrow> bool" where
  "INBOX r x y \<longleftrightarrow> bx2 r > x \<and> bx1 r \<le> x \<and> by2 r > y \<and> by1 r \<le> y"

definition EMPTY_REGION :: "REGION \<Rightarrow> REGION" where
  "EMPTY_REGION r = r\<lparr>numRects := 0\<rparr>"

text \<open>
  sizeof(BOX) and sizeof(REGION) on the LP64 targets. A realloc to zero bytes frees the
  block and returns NULL. MEMCHECK takes this for a failure and returns from its routine with
  the old pointer still in the region. The result is \<open>Inl\<close> when MEMCHECK returns from the
  routine it is used in, and \<open>Inr\<close> when the routine goes on.
\<close>

definition sizeof_BOX :: nat where
  "sizeof_BOX = 8"

definition sizeof_REGION :: nat where
  "sizeof_REGION = 32"

definition Xmalloc :: "(nat \<Rightarrow> bool) \<Rightarrow> nat \<Rightarrow> bool" where
  "Xmalloc al n = al n"

definition Xrealloc :: "(nat \<Rightarrow> bool) \<Rightarrow> nat \<Rightarrow> bool" where
  "Xrealloc al n \<longleftrightarrow> n \<noteq> 0 \<and> al n"

definition MEMCHECK :: "(nat \<Rightarrow> bool) \<Rightarrow> REGION \<Rightarrow> REGION + REGION" where
  "MEMCHECK al reg =
     (if numRects reg \<ge> rsize reg - 1
      then if rsize reg = 0 then Inl (reg\<lparr>lost := Suc (lost reg)\<rparr>)
           else if Xrealloc al (2 * sizeof_BOX * rsize reg)
           then Inr (reg\<lparr>rsize := 2 * rsize reg\<rparr>)
           else Inl reg
      else Inr reg)"

text \<open>
  Every band routine adds a box the same way: MEMCHECK, which returns from the routine
  when the allocation fails, then the four stores at index \<^verbatim>\<open>numRects\<close> and the
  increment. \<open>add_box al pReg b k\<close> does this and continues with \<open>k\<close>.
\<close>

definition store_box :: "REGION \<Rightarrow> BOX \<Rightarrow> REGION" where
  "store_box r b = r\<lparr>rects := boxes r @ [b], numRects := Suc (numRects r)\<rparr>"

definition add_box :: "(nat \<Rightarrow> bool) \<Rightarrow> REGION \<Rightarrow> BOX \<Rightarrow> (REGION \<Rightarrow> REGION) \<Rightarrow> REGION" where
  "add_box al pReg b k =
     (case MEMCHECK al pReg of Inl r \<Rightarrow> r | Inr r \<Rightarrow> k (store_box r b))"

section \<open>The heap of regions\<close>

text \<open>
  \<^verbatim>\<open>cells\<close> maps the address of a live region to its contents; addresses from
  \<^verbatim>\<open>brk\<close> on have never been handed out.
\<close>

record rheap =
  cells :: "nat \<rightharpoonup> REGION"
  brk :: nat

definition deref :: "rheap \<Rightarrow> nat \<Rightarrow> REGION" where
  "deref h p = the (cells h p)"

definition put :: "rheap \<Rightarrow> nat \<Rightarrow> REGION \<Rightarrow> rheap" where
  "put h p r = h\<lparr>cells := (cells h)(p \<mapsto> r)\<rparr>"

definition nullBox :: BOX where
  "nullBox = mkBox 0 0 0 0"

definition XCreateRegion :: "(nat \<Rightarrow> bool) \<Rightarrow> rheap \<Rightarrow> (rheap \<times> nat) option" where
  "XCreateRegion al h =
     (if \<not> Xmalloc al sizeof_REGION then None
      else if \<not> Xmalloc al sizeof_BOX then None
      else Some
        (h\<lparr>cells := (cells h)
             (brk h \<mapsto> \<lparr>rsize = 1, numRects = 0, rects = [], extents = nullBox, lost = 0\<rparr>),
           brk := Suc (brk h)\<rparr>, brk h))"

definition XDestroyRegion :: "rheap \<Rightarrow> nat \<Rightarrow> rheap" where
  "XDestroyRegion h p = h\<lparr>cells := (cells h)(p := None)\<rparr>"

section \<open>Operations on one region\<close>

record XRectangle =
  rect_x :: int
  rect_y :: int
  rect_width :: int
  rect_height :: int

definition XClipBox :: "REGION \<Rightarrow> XRectangle" where
  "XClipBox r =
     \<lparr>rect_x = bx1 (extents r), rect_y = by1 (extents r),
      rect_width = c_ushort (bx2 (extents r) - bx1 (extents r)),
      rect_height = c_ushort (by2 (extents r) - by1 (extents r))\<rparr>"

fun extents_loop :: "BOX list \<Rightarrow> BOX \<Rightarrow> BOX" where
  "extents_loop [] e = e"
| "extents_loop (b # bs) e =
     (let e1 = (if bx1 b < bx1 e then e\<lparr>bx1 := bx1 b\<rparr> else e);
          e2 = (if bx2 b > bx2 e1 then e1\<lparr>bx2 := bx2 b\<rparr> else e1)
      in extents_loop bs e2)"

definition miSetExtents :: "REGION \<Rightarrow> REGION" where
  "miSetExtents pReg =
     (if numRects pReg = 0 then pReg\<lparr>extents := nullBox\<rparr>
      else let pBox = hd (boxes pReg); pBoxEnd = last (boxes pReg)
           in pReg\<lparr>extents := extents_loop (boxes pReg)
                    (mkBox (bx1 pBox) (by1 pBox) (bx2 pBoxEnd) (by2 pBoxEnd))\<rparr>)"

definition offset_box :: "int \<Rightarrow> int \<Rightarrow> BOX \<Rightarrow> BOX" where
  "offset_box x y b =
     b\<lparr>bx1 := c_short (bx1 b + x), bx2 := c_short (bx2 b + x),
       by1 := c_short (by1 b + y), by2 := c_short (by2 b + y)\<rparr>"

definition XOffsetRegion :: "REGION \<Rightarrow> int \<Rightarrow> int \<Rightarrow> REGION" where
  "XOffsetRegion pRegion x y =
     pRegion\<lparr>rects := map (offset_box x y) (boxes pRegion) @ drop (numRects pRegion) (rects pRegion),
             extents := offset_box x y (extents pRegion)\<rparr>"

section \<open>Band routines\<close>

text \<open>
  Each routine walks one band of each source, the lists \<open>r1\<close> and \<open>r2\<close> (the code's
  pointers r1, r1End, r2 and r2End), and adds boxes with the given y1 and y2 to pReg.
\<close>

fun miIntersectO ::
  "(nat \<Rightarrow> bool) \<Rightarrow> REGION \<Rightarrow> BOX list \<Rightarrow> BOX list \<Rightarrow> int \<Rightarrow> int \<Rightarrow> REGION"
where
  "miIntersectO al pReg (b1 # r1) (b2 # r2) y1 y2 =
     (let x1 = max (bx1 b1) (bx1 b2);
          x2 = min (bx2 b1) (bx2 b2);
          advance = (\<lambda>p.
            if bx2 b1 < bx2 b2 then miIntersectO al p r1 (b2 # r2) y1 y2
            else if bx2 b2 < bx2 b1 then miIntersectO al p (b1 # r1) r2 y1 y2
            else miIntersectO al p r1 r2 y1 y2)
      in if x1 < x2 then add_box al pReg (mkBox x1 y1 x2 y2) advance
         else advance pReg)"
| "miIntersectO al pReg r1 r2 y1 y2 = pReg"

fun miUnionNonO :: "(nat \<Rightarrow> bool) \<Rightarrow> REGION \<Rightarrow> BOX list \<Rightarrow> int \<Rightarrow> int \<Rightarrow> REGION" where
  "miUnionNonO al pReg [] y1 y2 = pReg"
| "miUnionNonO al pReg (b # r) y1 y2 =
     add_box al pReg (mkBox (bx1 b) y1 (bx2 b) y2) (\<lambda>p. miUnionNonO al p r y1 y2)"

definition MERGERECT ::
  "(nat \<Rightarrow> bool) \<Rightarrow> REGION \<Rightarrow> BOX \<Rightarrow> int \<Rightarrow> int \<Rightarrow> (REGION \<Rightarrow> REGION) \<Rightarrow> REGION"
where
  "MERGERECT al pReg r y1 y2 k =
     (let prev = last (boxes pReg) in
      if numRects pReg \<noteq> 0 \<and> by1 prev = y1 \<and> by2 prev = y2 \<and> bx2 prev \<ge> bx1 r
      then k (if bx2 prev < bx2 r
              then pReg\<lparr>rects := (rects pReg)[numRects pReg - 1 := prev\<lparr>bx2 := bx2 r\<rparr>]\<rparr>
              else pReg)
      else add_box al pReg (mkBox (bx1 r) y1 (bx2 r) y2) k)"

fun miUnionO ::
  "(nat \<Rightarrow> bool) \<Rightarrow> REGION \<Rightarrow> BOX list \<Rightarrow> BOX list \<Rightarrow> int \<Rightarrow> int \<Rightarrow> REGION"
where
  "miUnionO al pReg (b1 # r1) (b2 # r2) y1 y2 =
     (if bx1 b1 < bx1 b2
      then MERGERECT al pReg b1 y1 y2 (\<lambda>p. miUnionO al p r1 (b2 # r2) y1 y2)
      else MERGERECT al pReg b2 y1 y2 (\<lambda>p. miUnionO al p (b1 # r1) r2 y1 y2))"
| "miUnionO al pReg (b1 # r1) [] y1 y2 =
     MERGERECT al pReg b1 y1 y2 (\<lambda>p. miUnionO al p r1 [] y1 y2)"
| "miUnionO al pReg [] (b2 # r2) y1 y2 =
     MERGERECT al pReg b2 y1 y2 (\<lambda>p. miUnionO al p [] r2 y1 y2)"
| "miUnionO al pReg [] [] y1 y2 = pReg"

fun miSubtractNonO1 :: "(nat \<Rightarrow> bool) \<Rightarrow> REGION \<Rightarrow> BOX list \<Rightarrow> int \<Rightarrow> int \<Rightarrow> REGION" where
  "miSubtractNonO1 al pReg [] y1 y2 = pReg"
| "miSubtractNonO1 al pReg (b # r) y1 y2 =
     add_box al pReg (mkBox (bx1 b) y1 (bx2 b) y2) (\<lambda>p. miSubtractNonO1 al p r y1 y2)"

text \<open>
  The left fence \<open>x1\<close> of miSubtractO after \<^verbatim>\<open>r1++\<close>: the left edge of the next
  minuend if there is one.
\<close>

definition next_fence :: "BOX list \<Rightarrow> int \<Rightarrow> int" where
  "next_fence r1 x1 = (case r1 of [] \<Rightarrow> x1 | b # _ \<Rightarrow> bx1 b)"

function miSubtractO_loop ::
  "(nat \<Rightarrow> bool) \<Rightarrow> REGION \<Rightarrow> int \<Rightarrow> BOX list \<Rightarrow> BOX list \<Rightarrow> int \<Rightarrow> int \<Rightarrow> REGION"
where
  "miSubtractO_loop al pReg x1 (b1 # r1) (b2 # r2) y1 y2 =
     (if bx2 b2 \<le> x1 then miSubtractO_loop al pReg x1 (b1 # r1) r2 y1 y2
      else if bx1 b2 \<le> x1 then
        (if bx2 b2 \<ge> bx2 b1
         then miSubtractO_loop al pReg (next_fence r1 (bx2 b2)) r1 (b2 # r2) y1 y2
         else miSubtractO_loop al pReg (bx2 b2) (b1 # r1) r2 y1 y2)
      else if bx1 b2 < bx2 b1 then
        add_box al pReg (mkBox x1 y1 (bx1 b2) y2) (\<lambda>p.
          if bx2 b2 \<ge> bx2 b1
          then miSubtractO_loop al p (next_fence r1 (bx2 b2)) r1 (b2 # r2) y1 y2
          else miSubtractO_loop al p (bx2 b2) (b1 # r1) r2 y1 y2)
      else if bx2 b1 > x1 then
        add_box al pReg (mkBox x1 y1 (bx2 b1) y2)
          (\<lambda>p. miSubtractO_loop al p (next_fence r1 x1) r1 (b2 # r2) y1 y2)
      else miSubtractO_loop al pReg (next_fence r1 x1) r1 (b2 # r2) y1 y2)"
| "miSubtractO_loop al pReg x1 (b1 # r1) [] y1 y2 =
     add_box al pReg (mkBox x1 y1 (bx2 b1) y2)
       (\<lambda>p. miSubtractO_loop al p (next_fence r1 x1) r1 [] y1 y2)"
| "miSubtractO_loop al pReg x1 [] r2 y1 y2 = pReg"
  by pat_completeness auto
termination
  by (relation "measure (\<lambda>(al, p, x1, r1, r2, y1, y2). length r1 + length r2)") auto

definition miSubtractO ::
  "(nat \<Rightarrow> bool) \<Rightarrow> REGION \<Rightarrow> BOX list \<Rightarrow> BOX list \<Rightarrow> int \<Rightarrow> int \<Rightarrow> REGION"
where
  "miSubtractO al pReg r1 r2 y1 y2 = miSubtractO_loop al pReg (bx1 (hd r1)) r1 r2 y1 y2"

section \<open>The generic region operator\<close>

text \<open>
  miRegionCopy, with the pointer comparison done by the caller's addresses. When the
  realloc fails the array is freed, \<^verbatim>\<open>size\<close> is zero and \<^verbatim>\<open>numRects\<close> is left as it
  was.
\<close>

definition miRegionCopy :: "(nat \<Rightarrow> bool) \<Rightarrow> rheap \<Rightarrow> nat \<Rightarrow> nat \<Rightarrow> rheap" where
  "miRegionCopy al h dstrgn rgn =
     (if dstrgn \<noteq> rgn then
        let d = deref h dstrgn; s = deref h rgn in
        if rsize d < numRects s \<and> \<not> Xrealloc al (numRects s * sizeof_BOX)
        then put h dstrgn (d\<lparr>rects := [], rsize := 0\<rparr>)
        else put h dstrgn
          (d\<lparr>rsize := (if rsize d < numRects s then numRects s else rsize d),
             numRects := numRects s,
             extents := extents s,
             rects := boxes s\<rparr>)
      else h)"

text \<open>
  miCoalesce. \<open>last_band_start\<close> is the backward scan for the start of the last band
  when more than one band was added.
\<close>

fun last_band_start :: "BOX list \<Rightarrow> nat \<Rightarrow> nat" where
  "last_band_start rs 0 = 0"
| "last_band_start rs (Suc e) =
     (if by1 (rs ! e) = by1 (rs ! Suc e) then last_band_start rs e else Suc e)"

definition same_place :: "BOX \<Rightarrow> BOX \<Rightarrow> bool" where
  "same_place p c \<longleftrightarrow> bx1 p = bx1 c \<and> bx2 p = bx2 c"

definition miCoalesce :: "REGION \<Rightarrow> nat \<Rightarrow> nat \<Rightarrow> REGION \<times> nat" where
  "miCoalesce pReg prevStart curStart =
     (let rs = boxes pReg;
          prevNumRects = curStart - prevStart;
          bandY1 = by1 (rs ! curStart);
          cur = takeWhile (\<lambda>b. by1 b = bandY1) (drop curStart rs);
          rest = dropWhile (\<lambda>b. by1 b = bandY1) (drop curStart rs);
          curNumRects = length cur;
          prev = take prevNumRects (drop prevStart rs);
          curStart' = (if rest \<noteq> [] then last_band_start rs (numRects pReg - 1) else curStart)
      in if curNumRects = prevNumRects \<and> curNumRects \<noteq> 0
            \<and> by2 (hd prev) = by1 (hd cur)
            \<and> list_all2 same_place prev cur
         then (pReg\<lparr>numRects := numRects pReg - curNumRects,
                     rects := take prevStart rs
                       @ map2 (\<lambda>p c. p\<lparr>by2 := by2 c\<rparr>) prev cur @ rest\<rparr>,
               if rest = [] then prevStart else curStart')
         else (pReg, curStart'))"

definition coalesce_new :: "REGION \<Rightarrow> nat \<Rightarrow> nat \<Rightarrow> REGION \<times> nat" where
  "coalesce_new newReg prevBand curBand =
     (if numRects newReg \<noteq> curBand then miCoalesce newReg prevBand curBand
      else (newReg, prevBand))"

text \<open>The boxes of the first band of a non-empty list of boxes, and the ones after it.\<close>

definition band :: "BOX list \<Rightarrow> BOX list" where
  "band r = takeWhile (\<lambda>b. by1 b = by1 (hd r)) r"

definition after_band :: "BOX list \<Rightarrow> BOX list" where
  "after_band r = dropWhile (\<lambda>b. by1 b = by1 (hd r)) r"

lemma length_after_band: "r \<noteq> [] \<Longrightarrow> length (after_band r) < length r"
  by (cases r) (auto simp: after_band_def le_imp_less_Suc length_dropWhile_le)

lemma length_after_band_le: "length (after_band r) \<le> length r"
  by (simp add: after_band_def length_dropWhile_le)

type_synonym overlap_proc = "REGION \<Rightarrow> BOX list \<Rightarrow> BOX list \<Rightarrow> int \<Rightarrow> int \<Rightarrow> REGION"
type_synonym nonoverlap_proc = "REGION \<Rightarrow> BOX list \<Rightarrow> int \<Rightarrow> int \<Rightarrow> REGION"

definition call_nonoverlap ::
  "nonoverlap_proc option \<Rightarrow> REGION \<Rightarrow> BOX list \<Rightarrow> int \<Rightarrow> int \<Rightarrow> REGION"
where
  "call_nonoverlap f newReg r ytop ybot =
     (if ytop \<noteq> ybot then (case f of None \<Rightarrow> newReg | Some g \<Rightarrow> g newReg r ytop ybot)
      else newReg)"

text \<open>
  The body of the main loop, up to the two tests that advance r1 and r2: the band that
  only one region covers, then the band both cover, each followed by a coalescing
  attempt. It returns the new region, prevBand and ybot.
\<close>

definition region_op_body ::
  "overlap_proc \<Rightarrow> nonoverlap_proc option \<Rightarrow> nonoverlap_proc option
   \<Rightarrow> BOX list \<Rightarrow> BOX list \<Rightarrow> int \<Rightarrow> nat \<Rightarrow> REGION \<Rightarrow> REGION \<times> nat \<times> int"
where
  "region_op_body overlapFunc nonOverlap1Func nonOverlap2Func r1 r2 ybot prevBand newReg =
     (let b1 = hd r1; b2 = hd r2;
          (new1, ytop) =
            (if by1 b1 < by1 b2 then
               (call_nonoverlap nonOverlap1Func newReg (band r1)
                  (max (by1 b1) ybot) (min (by2 b1) (by1 b2)), by1 b2)
             else if by1 b2 < by1 b1 then
               (call_nonoverlap nonOverlap2Func newReg (band r2)
                  (max (by1 b2) ybot) (min (by2 b2) (by1 b1)), by1 b1)
             else (newReg, by1 b1));
          (new2, prev2) = coalesce_new new1 prevBand (numRects newReg);
          ybot' = min (by2 b1) (by2 b2);
          new3 = (if ybot' > ytop then overlapFunc new2 (band r1) (band r2) ytop ybot' else new2);
          (new4, prev4) = coalesce_new new3 prev2 (numRects new2)
      in (new4, prev4, ybot'))"

definition advance :: "BOX list \<Rightarrow> int \<Rightarrow> BOX list" where
  "advance r ybot = (if by2 (hd r) = ybot then after_band r else r)"

text \<open>
  The loop ends when one region has no box left. The callers of miRegionOp pass two
  regions that are not empty, so the code's do-while runs at least once.
\<close>

function region_op_loop ::
  "overlap_proc \<Rightarrow> nonoverlap_proc option \<Rightarrow> nonoverlap_proc option
   \<Rightarrow> BOX list \<Rightarrow> BOX list \<Rightarrow> int \<Rightarrow> nat \<Rightarrow> REGION
   \<Rightarrow> BOX list \<times> BOX list \<times> int \<times> nat \<times> REGION"
where
  "region_op_loop overlapFunc non1 non2 r1 r2 ybot prevBand newReg =
     (if r1 = [] \<or> r2 = [] then (r1, r2, ybot, prevBand, newReg)
      else let (newReg', prevBand', ybot') =
                 region_op_body overlapFunc non1 non2 r1 r2 ybot prevBand newReg
           in region_op_loop overlapFunc non1 non2
                (advance r1 (min (by2 (hd r1)) (by2 (hd r2))))
                (advance r2 (min (by2 (hd r1)) (by2 (hd r2))))
                ybot' prevBand' newReg')"
  by pat_completeness auto
termination
proof (relation "measure (\<lambda>(ov, n1, n2, r1, r2, yb, pb, new). length r1 + length r2)", goal_cases)
  case 1
  then show ?case by simp
next
  case (2 ov n1 n2 r1 r2 yb pb new)
  then show ?case
    using length_after_band [of r1] length_after_band [of r2]
      length_after_band_le [of r1] length_after_band_le [of r2]
    by (auto simp: advance_def min_def)
qed

declare region_op_loop.simps [simp del]

text \<open>The loop over the bands of the region that is not exhausted.\<close>

function leftover :: "nonoverlap_proc \<Rightarrow> REGION \<Rightarrow> BOX list \<Rightarrow> int \<Rightarrow> REGION" where
  "leftover g newReg r ybot =
     (if r = [] then newReg
      else leftover g (g newReg (band r) (max (by1 (hd r)) ybot) (by2 (hd r)))
             (after_band r) ybot)"
  by pat_completeness auto
termination
  by (relation "measure (\<lambda>(g, new, r, yb). length r)") (auto simp: length_after_band)

declare leftover.simps [simp del]

definition region_op_tail ::
  "nonoverlap_proc option \<Rightarrow> nonoverlap_proc option
   \<Rightarrow> BOX list \<Rightarrow> BOX list \<Rightarrow> int \<Rightarrow> nat \<Rightarrow> REGION \<Rightarrow> REGION"
where
  "region_op_tail non1 non2 r1 r2 ybot prevBand newReg =
     (let new1 =
        (if r1 \<noteq> [] then (case non1 of None \<Rightarrow> newReg | Some g \<Rightarrow> leftover g newReg r1 ybot)
         else if r2 \<noteq> [] then (case non2 of None \<Rightarrow> newReg | Some g \<Rightarrow> leftover g newReg r2 ybot)
         else newReg)
      in fst (coalesce_new new1 prevBand (numRects newReg)))"

text \<open>The cleanup: the array is shrunk when at most half of it is used.\<close>

definition shrink_rects :: "(nat \<Rightarrow> bool) \<Rightarrow> REGION \<Rightarrow> REGION" where
  "shrink_rects al newReg =
     (if numRects newReg < rsize newReg div 2 then
        if numRects newReg \<noteq> 0 then
          (if Xrealloc al (sizeof_BOX * numRects newReg)
           then newReg\<lparr>rsize := numRects newReg\<rparr> else newReg)
        else newReg\<lparr>rsize := 1, rects := []\<rparr>
      else newReg)"

text \<open>
  miRegionOp. The pointers r1, r1End, r2 and r2End are taken before the destination is
  emptied; the new size is computed after it, from the numRects of the sources at that
  point.
\<close>

definition miRegionOp ::
  "(nat \<Rightarrow> bool) \<Rightarrow> rheap \<Rightarrow> nat \<Rightarrow> nat \<Rightarrow> nat
   \<Rightarrow> overlap_proc \<Rightarrow> nonoverlap_proc option \<Rightarrow> nonoverlap_proc option \<Rightarrow> rheap"
where
  "miRegionOp al h newReg reg1 reg2 overlapFunc non1 non2 =
     (let r1 = boxes (deref h reg1);
          r2 = boxes (deref h reg2);
          h1 = put h newReg (EMPTY_REGION (deref h newReg));
          sz = max (numRects (deref h1 reg1)) (numRects (deref h1 reg2)) * 2
      in if \<not> Xmalloc al (sizeof_BOX * sz)
         then put h1 newReg ((deref h1 newReg)\<lparr>rsize := 0, rects := [], lost := 0\<rparr>)
         else
           let ybot = (if by1 (extents (deref h1 reg1)) < by1 (extents (deref h1 reg2))
                       then by1 (extents (deref h1 reg1)) else by1 (extents (deref h1 reg2)));
               new0 = (deref h1 newReg)\<lparr>rsize := sz, rects := [], lost := 0\<rparr>;
               (r1', r2', ybot', prevBand, new1) =
                 region_op_loop overlapFunc non1 non2 r1 r2 ybot 0 new0
           in put h1 newReg
                (shrink_rects al (region_op_tail non1 non2 r1' r2' ybot' prevBand new1)))"

section \<open>The exported operations\<close>

definition XIntersectRegion :: "(nat \<Rightarrow> bool) \<Rightarrow> rheap \<Rightarrow> nat \<Rightarrow> nat \<Rightarrow> nat \<Rightarrow> rheap" where
  "XIntersectRegion al h reg1 reg2 newReg =
     (let h1 =
        (if numRects (deref h reg1) = 0 \<or> numRects (deref h reg2) = 0
            \<or> \<not> EXTENTCHECK (extents (deref h reg1)) (extents (deref h reg2))
         then put h newReg ((deref h newReg)\<lparr>numRects := 0\<rparr>)
         else miRegionOp al h newReg reg1 reg2 (miIntersectO al) None None)
      in put h1 newReg (miSetExtents (deref h1 newReg)))"

definition subsumes :: "REGION \<Rightarrow> REGION \<Rightarrow> bool" where
  "subsumes r1 r2 \<longleftrightarrow>
     numRects r1 = 1
     \<and> bx1 (extents r1) \<le> bx1 (extents r2) \<and> by1 (extents r1) \<le> by1 (extents r2)
     \<and> bx2 (extents r1) \<ge> bx2 (extents r2) \<and> by2 (extents r1) \<ge> by2 (extents r2)"

definition XUnionRegion :: "(nat \<Rightarrow> bool) \<Rightarrow> rheap \<Rightarrow> nat \<Rightarrow> nat \<Rightarrow> nat \<Rightarrow> rheap" where
  "XUnionRegion al h reg1 reg2 newReg =
     (if reg1 = reg2 \<or> numRects (deref h reg1) = 0
      then (if newReg \<noteq> reg2 then miRegionCopy al h newReg reg2 else h)
      else if numRects (deref h reg2) = 0
      then (if newReg \<noteq> reg1 then miRegionCopy al h newReg reg1 else h)
      else if subsumes (deref h reg1) (deref h reg2)
      then (if newReg \<noteq> reg1 then miRegionCopy al h newReg reg1 else h)
      else if subsumes (deref h reg2) (deref h reg1)
      then (if newReg \<noteq> reg2 then miRegionCopy al h newReg reg2 else h)
      else
        let h1 = miRegionOp al h newReg reg1 reg2 (miUnionO al)
                   (Some (miUnionNonO al)) (Some (miUnionNonO al));
            e1 = extents (deref h1 reg1);
            e2 = extents (deref h1 reg2)
        in put h1 newReg ((deref h1 newReg)\<lparr>extents :=
             mkBox (min (bx1 e1) (bx1 e2)) (min (by1 e1) (by1 e2))
                   (max (bx2 e1) (bx2 e2)) (max (by2 e1) (by2 e2))\<rparr>))"

definition XSubtractRegion :: "(nat \<Rightarrow> bool) \<Rightarrow> rheap \<Rightarrow> nat \<Rightarrow> nat \<Rightarrow> nat \<Rightarrow> rheap" where
  "XSubtractRegion al h regM regS regD =
     (if numRects (deref h regM) = 0 \<or> numRects (deref h regS) = 0
         \<or> \<not> EXTENTCHECK (extents (deref h regM)) (extents (deref h regS))
      then miRegionCopy al h regD regM
      else let h1 = miRegionOp al h regD regM regS (miSubtractO al)
                      (Some (miSubtractNonO1 al)) None
           in put h1 regD (miSetExtents (deref h1 regD)))"

definition XXorRegion :: "(nat \<Rightarrow> bool) \<Rightarrow> rheap \<Rightarrow> nat \<Rightarrow> nat \<Rightarrow> nat \<Rightarrow> rheap" where
  "XXorRegion al h sra srb dr =
     (case XCreateRegion al h of
        None \<Rightarrow> h
      | Some (h1, tra) \<Rightarrow>
          (case XCreateRegion al h1 of
             None \<Rightarrow> XDestroyRegion h1 tra
           | Some (h2, trb) \<Rightarrow>
               let h3 = XSubtractRegion al h2 sra srb tra;
                   h4 = XSubtractRegion al h3 srb sra trb;
                   h5 = XUnionRegion al h4 tra trb dr
               in XDestroyRegion (XDestroyRegion h5 tra) trb))"

text \<open>
  The rectangle's region lives on the stack; it gets an address that is not in use for
  the time of the call.
\<close>

definition XUnionRectWithRegion ::
  "(nat \<Rightarrow> bool) \<Rightarrow> rheap \<Rightarrow> XRectangle \<Rightarrow> nat \<Rightarrow> nat \<Rightarrow> rheap"
where
  "XUnionRectWithRegion al h rect source dest =
     (if rect_width rect = 0 \<or> rect_height rect = 0 then h
      else
        let e = mkBox (rect_x rect) (rect_y rect)
                  (c_short (rect_x rect + rect_width rect))
                  (c_short (rect_y rect + rect_height rect));
            region = brk h;
            h1 = put h region \<lparr>rsize = 1, numRects = 1, rects = [e], extents = e, lost = 0\<rparr>
        in XDestroyRegion (XUnionRegion al h1 region source dest) region)"

definition XEmptyRegion :: "REGION \<Rightarrow> bool" where
  "XEmptyRegion r \<longleftrightarrow> numRects r = 0"

definition same_box :: "BOX \<Rightarrow> BOX \<Rightarrow> bool" where
  "same_box a b \<longleftrightarrow> bx1 a = bx1 b \<and> bx2 a = bx2 b \<and> by1 a = by1 b \<and> by2 a = by2 b"

definition XEqualRegion :: "REGION \<Rightarrow> REGION \<Rightarrow> bool" where
  "XEqualRegion r1 r2 =
     (if numRects r1 \<noteq> numRects r2 then False
      else if numRects r1 = 0 then True
      else if bx1 (extents r1) \<noteq> bx1 (extents r2) then False
      else if bx2 (extents r1) \<noteq> bx2 (extents r2) then False
      else if by1 (extents r1) \<noteq> by1 (extents r2) then False
      else if by2 (extents r1) \<noteq> by2 (extents r2) then False
      else list_all2 same_box (boxes r1) (boxes r2))"

definition XPointInRegion :: "REGION \<Rightarrow> int \<Rightarrow> int \<Rightarrow> bool" where
  "XPointInRegion pRegion x y =
     (if numRects pRegion = 0 then False
      else if \<not> INBOX (extents pRegion) x y then False
      else list_ex (\<lambda>b. INBOX b x y) (boxes pRegion))"

datatype rect_in = RectangleOut | RectangleIn | RectanglePart

text \<open>The loop of XRectInRegion. It returns partIn and ry at the point it is left.\<close>

fun rect_in_loop ::
  "BOX \<Rightarrow> BOX list \<Rightarrow> int \<Rightarrow> int \<Rightarrow> bool \<Rightarrow> bool \<Rightarrow> bool \<times> int"
where
  "rect_in_loop prect [] rx ry partIn partOut = (partIn, ry)"
| "rect_in_loop prect (pbox # bs) rx ry partIn partOut =
     (if by2 pbox \<le> ry then rect_in_loop prect bs rx ry partIn partOut
      else if by1 pbox > ry \<and> (partIn \<or> by1 pbox \<ge> by2 prect) then (partIn, ry)
      else
        let partOut1 = (partOut \<or> by1 pbox > ry);
            ry1 = (if by1 pbox > ry then by1 pbox else ry)
        in if bx2 pbox \<le> rx then rect_in_loop prect bs rx ry1 partIn partOut1
           else if bx1 pbox > rx \<and> partIn then (partIn, ry1)
           else
             let partOut2 = (partOut1 \<or> bx1 pbox > rx);
                 partIn1 = (partIn \<or> bx1 pbox < bx2 prect)
             in if bx1 pbox < bx2 prect \<and> partOut2 then (partIn1, ry1)
                else if bx2 pbox \<ge> bx2 prect then
                  (if by2 pbox \<ge> by2 prect then (partIn1, by2 pbox)
                   else rect_in_loop prect bs (bx1 prect) (by2 pbox) partIn1 partOut2)
                else (partIn1, ry1))"

definition XRectInRegion :: "REGION \<Rightarrow> int \<Rightarrow> int \<Rightarrow> int \<Rightarrow> int \<Rightarrow> rect_in" where
  "XRectInRegion region rx ry rwidth rheight =
     (let prect = mkBox (c_short rx) (c_short ry)
                    (c_short (rwidth + rx)) (c_short (rheight + ry))
      in if numRects region = 0 \<or> \<not> EXTENTCHECK (extents region) prect then RectangleOut
         else let (partIn, ry') = rect_in_loop prect (boxes region) rx ry False False
              in if partIn then (if ry' < by2 prect then RectanglePart else RectangleIn)
                 else RectangleOut)"

end
