(* ===== verification/XRegionBands.thy ===== *)
theory XRegionBands
  imports XRegionModel
begin

text \<open>
  What a list of boxes denotes, and the canonical form that the comment at the head of
  \<^verbatim>\<open>Region.c\<close> describes: y-x-banded (\<open>banded\<close>), boxes of a band that do not touch,
  and no two bands that could be merged (\<open>coalesced\<close>). The main result is that the
  canonical form of a set of points is unique, first for one band and then for a whole
  region.
\<close>

section \<open>Denotation\<close>

text \<open>The x coordinates a list of boxes covers, on one scanline and regardless of it.\<close>

definition row :: "BOX list \<Rightarrow> int \<Rightarrow> int set" where
  "row bs y = {x. \<exists>b\<in>set bs. by1 b \<le> y \<and> y < by2 b \<and> bx1 b \<le> x \<and> x < bx2 b}"

definition xspan :: "BOX list \<Rightarrow> int set" where
  "xspan bs = {x. \<exists>b\<in>set bs. bx1 b \<le> x \<and> x < bx2 b}"

definition points :: "REGION \<Rightarrow> (int \<times> int) set" where
  "points r = {(x, y). x \<in> row (boxes r) y}"

lemma row_Nil [simp]: "row [] y = {}"
  by (simp add: row_def)

lemma row_append [simp]: "row (as @ bs) y = row as y \<union> row bs y"
  by (auto simp: row_def)

lemma xspan_Nil [simp]: "xspan [] = {}"
  by (simp add: xspan_def)

lemma xspan_append [simp]: "xspan (as @ bs) = xspan as \<union> xspan bs"
  by (auto simp: xspan_def)

lemma xspan_Cons: "xspan (b # bs) = {bx1 b..<bx2 b} \<union> xspan bs"
  by (auto simp: xspan_def)

lemma points_eq_iff: "points r = points s \<longleftrightarrow> row (boxes r) = row (boxes s)"
  by (auto simp: points_def set_eq_iff fun_eq_iff)

lemma row_below: "\<forall>b\<in>set bs. y < by1 b \<Longrightarrow> row bs y = {}"
  by (auto simp: row_def)

lemma row_above: "\<forall>b\<in>set bs. by2 b \<le> y \<Longrightarrow> row bs y = {}"
  by (auto simp: row_def)

section \<open>The canonical form\<close>

definition proper_box :: "BOX \<Rightarrow> bool" where
  "proper_box b \<longleftrightarrow> bx1 b < bx2 b \<and> by1 b < by2 b"

definition before :: "BOX \<Rightarrow> BOX \<Rightarrow> bool" where
  "before b c \<longleftrightarrow>
     by1 b = by1 c \<and> by2 b = by2 c \<and> bx2 b < bx1 c \<or> by2 b \<le> by1 c"

definition banded :: "BOX list \<Rightarrow> bool" where
  "banded bs \<longleftrightarrow> sorted_wrt before bs \<and> (\<forall>b\<in>set bs. proper_box b)"

text \<open>A band at \<open>y1\<close>, \<open>y2\<close>: all its boxes have these y coordinates.\<close>

definition band_at :: "int \<Rightarrow> int \<Rightarrow> BOX list \<Rightarrow> bool" where
  "band_at y1 y2 bs \<longleftrightarrow> banded bs \<and> (\<forall>b\<in>set bs. by1 b = y1 \<and> by2 b = y2)"

text \<open>
  No two bands can be merged: at the top of every band the scanline differs from the
  one above it. (Bands that do not touch differ trivially.)
\<close>

definition coalesced :: "BOX list \<Rightarrow> bool" where
  "coalesced bs \<longleftrightarrow> (\<forall>b\<in>set bs. row bs (by1 b - 1) \<noteq> row bs (by1 b))"

lemma banded_Nil [simp]: "banded []"
  by (simp add: banded_def)

lemma coalesced_Nil [simp]: "coalesced []"
  by (simp add: coalesced_def)

lemma banded_Cons:
  "banded (b # bs) \<longleftrightarrow> proper_box b \<and> (\<forall>c\<in>set bs. before b c) \<and> banded bs"
  by (auto simp: banded_def)

lemma banded_append:
  "banded (as @ bs) \<longleftrightarrow> banded as \<and> banded bs \<and> (\<forall>a\<in>set as. \<forall>b\<in>set bs. before a b)"
  by (auto simp: banded_def sorted_wrt_append)

lemma banded_proper: "banded bs \<Longrightarrow> b \<in> set bs \<Longrightarrow> proper_box b"
  by (simp add: banded_def)

lemma before_asym: "proper_box a \<Longrightarrow> proper_box b \<Longrightarrow> before a b \<Longrightarrow> \<not> before b a"
  unfolding before_def proper_box_def by arith

text \<open>Two boxes of a banded list are ordered, or the same.\<close>

lemma banded_cases:
  "\<lbrakk>banded bs; a \<in> set bs; b \<in> set bs\<rbrakk> \<Longrightarrow> a = b \<or> before a b \<or> before b a"
  by (induction bs) (auto simp: banded_Cons)

lemma band_at_Nil [simp]: "band_at y1 y2 []"
  by (simp add: band_at_def)

lemma band_at_append:
  "band_at y1 y2 (as @ bs) \<longleftrightarrow>
     band_at y1 y2 as \<and> band_at y1 y2 bs \<and> (\<forall>a\<in>set as. \<forall>b\<in>set bs. before a b)"
  by (auto simp: band_at_def banded_append)

lemma row_band_at:
  "band_at y1 y2 bs \<Longrightarrow> row bs y = (if y1 \<le> y \<and> y < y2 then xspan bs else {})"
  by (auto simp: band_at_def row_def xspan_def)

lemma xspan_nonempty: "\<lbrakk>banded bs; bs \<noteq> []\<rbrakk> \<Longrightarrow> xspan bs \<noteq> {}"
  by (cases bs) (auto simp: banded_Cons proper_box_def xspan_Cons)

lemma banded_append_band:
  "\<lbrakk>banded as; band_at y1 y2 cs; \<forall>a\<in>set as. by2 a \<le> y1\<rbrakk> \<Longrightarrow> banded (as @ cs)"
  by (auto simp: banded_append band_at_def before_def)

section \<open>Uniqueness in one band\<close>

text \<open>
  In a band, the pair of edges of a box is a maximal interval of the set the band covers;
  so the boxes of the band can be read off that set.
\<close>

definition maximal_interval :: "int set \<Rightarrow> int \<Rightarrow> int \<Rightarrow> bool" where
  "maximal_interval S a b \<longleftrightarrow> a < b \<and> {a..<b} \<subseteq> S \<and> a - 1 \<notin> S \<and> b \<notin> S"

lemma maximal_interval_unique:
  assumes "maximal_interval S a b" "maximal_interval S c d" "a \<le> x" "x < b" "c \<le> x" "x < d"
  shows "a = c \<and> b = d"
proof -
  have "\<not> a < c"
  proof
    assume "a < c"
    with assms have "c - 1 \<in> {a..<b}" by auto
    with assms(1,2) show False unfolding maximal_interval_def by blast
  qed
  moreover have "\<not> c < a"
  proof
    assume "c < a"
    with assms have "a - 1 \<in> {c..<d}" by auto
    with assms(1,2) show False unfolding maximal_interval_def by blast
  qed
  moreover have "\<not> b < d"
  proof
    assume "b < d"
    with assms have "b \<in> {c..<d}" by auto
    with assms(1,2) show False unfolding maximal_interval_def by blast
  qed
  moreover have "\<not> d < b"
  proof
    assume "d < b"
    with assms have "d \<in> {a..<b}" by auto
    with assms(1,2) show False unfolding maximal_interval_def by blast
  qed
  ultimately show ?thesis by simp
qed

lemma band_box_maximal:
  assumes "band_at y1 y2 bs" "b \<in> set bs"
  shows "maximal_interval (xspan bs) (bx1 b) (bx2 b)"
proof -
  have pb: "proper_box b" using assms by (auto simp: band_at_def banded_proper)
  have no_touch: "\<not> (bx1 c \<le> bx2 b \<and> bx1 b \<le> bx2 c)" if "c \<in> set bs" "c \<noteq> b" for c
  proof -
    have "before b c \<or> before c b"
      using banded_cases [of bs b c] assms that by (auto simp: band_at_def)
    moreover have "proper_box c" "by1 c = by1 b" "by2 c = by2 b"
      using assms that by (auto simp: band_at_def banded_proper)
    ultimately show ?thesis
      using pb by (auto simp: before_def proper_box_def)
  qed
  have "bx1 b - 1 \<notin> xspan bs" "bx2 b \<notin> xspan bs"
    using no_touch pb by (fastforce simp: xspan_def proper_box_def)+
  with pb assms(2) show ?thesis
    by (auto simp: maximal_interval_def proper_box_def xspan_def)
qed

lemma maximal_interval_box:
  assumes "band_at y1 y2 bs" "maximal_interval (xspan bs) a b"
  obtains c where "c \<in> set bs" "bx1 c = a" "bx2 c = b"
proof -
  from assms(2) have "a \<in> xspan bs" by (auto simp: maximal_interval_def)
  then obtain c where c: "c \<in> set bs" "bx1 c \<le> a" "a < bx2 c"
    by (auto simp: xspan_def)
  have "bx1 c = a \<and> bx2 c = b"
    using maximal_interval_unique [OF band_box_maximal [OF assms(1) c(1)] assms(2), of a] c assms(2)
    by (auto simp: maximal_interval_def)
  with c that show ?thesis by blast
qed

lemma BOX_eqI:
  "\<lbrakk>bx1 a = bx1 b; bx2 a = bx2 b; by1 a = by1 b; by2 a = by2 b\<rbrakk> \<Longrightarrow> (a :: BOX) = b"
  by simp

lemma band_at_unique:
  assumes "band_at y1 y2 as" "band_at y1 y2 bs" "xspan as = xspan bs"
  shows "as = bs"
proof (rule sorted_wrt_unique [where R = before])
  show "sorted_wrt before as" "sorted_wrt before bs"
    using assms by (simp_all add: band_at_def banded_def)
  have sub: "set us \<subseteq> set vs"
    if us: "band_at y1 y2 us" and vs: "band_at y1 y2 vs" and eq: "xspan us = xspan vs" for us vs
  proof
    fix b assume b: "b \<in> set us"
    then have "maximal_interval (xspan vs) (bx1 b) (bx2 b)"
      using band_box_maximal [OF us] eq by simp
    then obtain c where c: "c \<in> set vs" "bx1 c = bx1 b" "bx2 c = bx2 b"
      using maximal_interval_box [OF vs] by metis
    with b us vs have "c = b"
      by (intro BOX_eqI) (auto simp: band_at_def)
    with c show "b \<in> set vs" by simp
  qed
  show "set as = set bs"
    using sub [OF assms] sub [OF assms(2,1) assms(3) [symmetric]] by simp
  show "\<not> before b a" if "a \<in> set as" "b \<in> set as" "before a b" for a b
    using that assms(1) before_asym by (metis band_at_def banded_proper)
qed

section \<open>Uniqueness of a region\<close>

lemma banded_filter: "banded bs \<Longrightarrow> banded (filter P bs)"
  by (auto simp: banded_def intro: sorted_wrt_filter)

text \<open>Boxes that share a scanline are of one band.\<close>

lemma banded_same_band:
  assumes "banded bs" "b \<in> set bs" "c \<in> set bs"
    "by1 b \<le> y" "y < by2 b" "by1 c \<le> y" "y < by2 c"
  shows "by1 c = by1 b \<and> by2 c = by2 b"
  using banded_cases [OF assms(1,2,3)] assms(4-7) unfolding before_def by fastforce

lemma banded_by1_by2:
  assumes "banded bs" "b \<in> set bs" "c \<in> set bs" "by1 c = by1 b"
  shows "by2 c = by2 b"
  using banded_same_band [OF assms(1-3), of "by1 b"] banded_proper [OF assms(1,2)]
    banded_proper [OF assms(1,3)] assms(4)
  by (simp add: proper_box_def)

definition band_of :: "BOX list \<Rightarrow> BOX \<Rightarrow> BOX list" where
  "band_of bs b = filter (\<lambda>c. by1 c = by1 b) bs"

lemma band_of_band_at:
  assumes "banded bs" "b \<in> set bs"
  shows "band_at (by1 b) (by2 b) (band_of bs b)"
  unfolding band_at_def band_of_def
  using banded_by1_by2 [OF assms] banded_filter [OF assms(1)] by simp

lemma row_in_band:
  assumes "banded bs" "b \<in> set bs" "by1 b \<le> y" "y < by2 b"
  shows "row bs y = xspan (band_of bs b)"
proof
  show "row bs y \<subseteq> xspan (band_of bs b)"
    using banded_same_band [OF assms(1,2)] assms(3,4)
    by (auto simp: row_def xspan_def band_of_def)
  show "xspan (band_of bs b) \<subseteq> row bs y"
  proof
    fix x assume "x \<in> xspan (band_of bs b)"
    then obtain c where c: "c \<in> set bs" "by1 c = by1 b" "bx1 c \<le> x" "x < bx2 c"
      by (auto simp: xspan_def band_of_def)
    moreover have "by2 c = by2 b" using banded_by1_by2 [OF assms(1,2) c(1,2)] .
    ultimately show "x \<in> row bs y"
      using assms(3,4) unfolding row_def by (intro CollectI bexI [of _ c]) simp_all
  qed
qed

lemma row_const_in_band:
  assumes "banded bs" "b \<in> set bs" "by1 b \<le> y" "y < by2 b" "by1 b \<le> z" "z < by2 b"
  shows "row bs y = row bs z"
  using assms by (simp add: row_in_band)

lemma row_box_maximal:
  assumes "banded bs" "b \<in> set bs" "by1 b \<le> y" "y < by2 b"
  shows "maximal_interval (row bs y) (bx1 b) (bx2 b)"
  using band_box_maximal [OF band_of_band_at [OF assms(1,2)], of b] assms row_in_band [OF assms]
  by (auto simp: band_of_def)

text \<open>Where a band ends and the scanline does not change, coalescing was missed.\<close>

lemma coalesced_row_bottom:
  assumes "banded bs" "coalesced bs" "b \<in> set bs"
  shows "row bs (by2 b) \<noteq> row bs (by2 b - 1)"
proof
  assume eq: "row bs (by2 b) = row bs (by2 b - 1)"
  have pb: "proper_box b" using assms by (simp add: banded_proper)
  have "bx1 b \<in> row bs (by2 b - 1)"
    using assms(3) pb by (auto simp: row_def proper_box_def)
  with eq obtain d where d: "d \<in> set bs" "by1 d \<le> by2 b" "by2 b < by2 d"
    by (auto simp: row_def)
  have "b \<noteq> d" using d by auto
  with banded_cases [OF assms(1,3) d(1)] d(2,3) pb have "by1 d = by2 b"
    unfolding before_def proper_box_def by arith
  with assms(2) d(1) eq show False
    by (auto simp: coalesced_def)
qed

lemma canonical_subset:
  assumes "banded bs" "coalesced bs" "banded cs" "coalesced cs" "row bs = row cs" "b \<in> set bs"
  shows "b \<in> set cs"
proof -
  have pb: "proper_box b" using assms by (simp add: banded_proper)
  have "bx1 b \<in> row bs (by1 b)"
    using assms(6) pb by (auto simp: row_def proper_box_def)
  with assms(5) obtain c where c: "c \<in> set cs" "by1 c \<le> by1 b" "by1 b < by2 c"
      "bx1 c \<le> bx1 b" "bx1 b < bx2 c"
    by (auto simp: row_def)
  have in_b: "by1 b \<le> by1 b" "by1 b < by2 b" using pb by (simp_all add: proper_box_def)
  have x: "bx1 b = bx1 c \<and> bx2 b = bx2 c"
    using maximal_interval_unique [OF row_box_maximal [OF assms(1,6) in_b]
        row_box_maximal [OF assms(3) c(1-3), folded assms(5)], of "bx1 b"] c pb
    by (simp add: proper_box_def)
  have y1: "by1 c = by1 b"
  proof (rule ccontr)
    assume "by1 c \<noteq> by1 b"
    with c have "row cs (by1 b - 1) = row cs (by1 b)"
      by (intro row_const_in_band [OF assms(3) c(1)]) auto
    with assms(2,5,6) show False by (auto simp: coalesced_def)
  qed
  have y2: "by2 c = by2 b"
  proof (rule ccontr)
    assume "by2 c \<noteq> by2 b"
    then consider "by2 b < by2 c" | "by2 c < by2 b" by linarith
    then show False
    proof cases
      case 1
      then have "row cs (by2 b) = row cs (by2 b - 1)"
        using c y1 in_b by (intro row_const_in_band [OF assms(3) c(1)]) auto
      with coalesced_row_bottom [OF assms(1,2,6)] assms(5) show False by simp
    next
      case 2
      then have "row bs (by2 c) = row bs (by2 c - 1)"
        using c y1 in_b by (intro row_const_in_band [OF assms(1,6)]) auto
      with coalesced_row_bottom [OF assms(3,4) c(1)] assms(5) show False by simp
    qed
  qed
  have "c = b" using x y1 y2 by (intro BOX_eqI) simp_all
  with c show ?thesis by simp
qed

lemma canonical_unique:
  assumes "banded bs" "coalesced bs" "banded cs" "coalesced cs" "row bs = row cs"
  shows "bs = cs"
proof (rule sorted_wrt_unique [where R = before])
  show "sorted_wrt before bs" "sorted_wrt before cs"
    using assms by (simp_all add: banded_def)
  show "set bs = set cs"
    using canonical_subset [OF assms] canonical_subset [OF assms(3,4,1,2) assms(5) [symmetric]]
    by blast
  show "\<not> before b a" if "a \<in> set bs" "b \<in> set bs" "before a b" for a b
    using that assms(1) before_asym banded_proper by metis
qed

end
