(* ===== verification/XRegionSweep.thy ===== *)
theory XRegionSweep
  imports XRegionBands
begin

text \<open>
  The band routines of \<^verbatim>\<open>Region.c\<close> (miIntersectO, miUnionNonO, miUnionO,
  miSubtractNonO1, miSubtractO): each appends to the destination a well-formed band that
  covers the intersection, union or difference of the x coordinates of its source bands,
  never writes past the allocated array, and leaves the rest of the region alone.
\<close>

section \<open>Room in the array\<close>

text \<open>
  The destination of a band routine: the array holds exactly \<^verbatim>\<open>numRects\<close> boxes and is
  allocated for at least that many. This is the precondition under which every store
  is inside the array.
\<close>

definition room :: "REGION \<Rightarrow> bool" where
  "room r \<longleftrightarrow> numRects r = length (rects r) \<and> 1 \<le> rsize r \<and> numRects r \<le> rsize r"

definition extends :: "REGION \<Rightarrow> REGION \<Rightarrow> BOX list \<Rightarrow> bool" where
  "extends r r' cs \<longleftrightarrow> room r' \<and> boxes r' = boxes r @ cs \<and> extents r' = extents r"

lemma room_boxes: "room r \<Longrightarrow> boxes r = rects r"
  by (simp add: room_def boxes_def)

lemma extends_refl: "room r \<Longrightarrow> extends r r []"
  by (simp add: extends_def)

lemma extends_trans: "\<lbrakk>extends r r' as; extends r' r'' bs\<rbrakk> \<Longrightarrow> extends r r'' (as @ bs)"
  by (simp add: extends_def)

lemma extends_numRects: "\<lbrakk>room r; extends r r' cs\<rbrakk> \<Longrightarrow> numRects r' = numRects r + length cs"
  by (auto simp: extends_def room_def boxes_def)

text \<open>After MEMCHECK there is a free slot at index numRects: the store is in bounds.\<close>

lemma MEMCHECK_free_slot:
  assumes "room r" "MEMCHECK al r = Inr r'"
  shows "numRects r' < rsize r' \<and> rects r' = rects r \<and> numRects r' = numRects r"
  using assms by (auto simp: MEMCHECK_def room_def split: if_splits)

lemma MEMCHECK_Some:
  assumes "room r" "\<forall>n. al n"
  obtains r' where "MEMCHECK al r = Inr r'" "extends r (store_box r' b) [b]"
proof -
  from assms have "Xrealloc al (2 * sizeof_BOX * rsize r)"
    by (simp add: Xrealloc_def sizeof_BOX_def room_def)
  then have "\<exists>r'. MEMCHECK al r = Inr r' \<and> extents r' = extents r"
    using assms(1) by (simp add: MEMCHECK_def room_def)
  then obtain r' where r': "MEMCHECK al r = Inr r'" "extents r' = extents r"
    by blast
  with MEMCHECK_free_slot [OF assms(1) r'(1)] assms(1) have "extends r (store_box r' b) [b]"
    by (auto simp: extends_def store_box_def room_def boxes_def)
  with r' that show ?thesis by blast
qed

lemma add_box_extends:
  assumes "room r" "\<forall>n. al n"
  obtains r' where "add_box al r b k = k r'" "room r'" "extends r r' [b]"
proof -
  from assms obtain r' where "MEMCHECK al r = Inr r'" "extends r (store_box r' b) [b]"
    by (rule MEMCHECK_Some)
  with that show ?thesis
    by (auto simp: add_box_def extends_def)
qed

section \<open>Bands and their x coordinates\<close>

lemma band_at_Cons:
  "band_at y1 y2 (b # r) \<longleftrightarrow>
     bx1 b < bx2 b \<and> y1 < y2 \<and> by1 b = y1 \<and> by2 b = y2 \<and> (\<forall>x\<in>xspan r. bx2 b < x)
     \<and> band_at y1 y2 r" (is "?L \<longleftrightarrow> ?R")
proof
  assume L: ?L
  then have b: "proper_box b" "\<forall>c\<in>set r. before b c" "by1 b = y1" "by2 b = y2"
      and r: "band_at y1 y2 r"
    by (auto simp: band_at_def banded_Cons)
  have "bx2 b < bx1 c" if "c \<in> set r" for c
    using b r that unfolding band_at_def before_def proper_box_def by fastforce
  with b r show ?R by (fastforce simp: xspan_def proper_box_def)
next
  assume R: ?R
  have "before b c" if "c \<in> set r" for c
  proof -
    from R that have c: "by1 c = y1" "by2 c = y2" "proper_box c"
      by (auto simp: band_at_def banded_proper)
    with that have "bx1 c \<in> xspan r" by (auto simp: xspan_def proper_box_def)
    with R c show ?thesis by (auto simp: before_def)
  qed
  with R show ?L by (auto simp: band_at_def banded_Cons proper_box_def)
qed

lemma band_at_snoc:
  "band_at y1 y2 (ds @ [c]) \<longleftrightarrow>
     band_at y1 y2 ds \<and> bx1 c < bx2 c \<and> y1 < y2 \<and> by1 c = y1 \<and> by2 c = y2
     \<and> (\<forall>d\<in>set ds. bx2 d < bx1 c)"
  unfolding band_at_append band_at_Cons
  by (auto simp: band_at_def before_def)

lemma band_at_x: "\<lbrakk>band_at y1 y2 bs; b \<in> set bs\<rbrakk> \<Longrightarrow> bx1 b < bx2 b"
  by (auto simp: band_at_def dest: banded_proper simp: proper_box_def)

lemma bx1_in_xspan: "\<lbrakk>b \<in> set bs; bx1 b < bx2 b\<rbrakk> \<Longrightarrow> bx1 b \<in> xspan bs"
  by (auto simp: xspan_def)

definition at_y :: "int \<Rightarrow> int \<Rightarrow> BOX \<Rightarrow> BOX" where
  "at_y y1 y2 b = mkBox (bx1 b) y1 (bx2 b) y2"

lemma at_y_simps [simp]:
  "bx1 (at_y y1 y2 b) = bx1 b" "bx2 (at_y y1 y2 b) = bx2 b"
  "by1 (at_y y1 y2 b) = y1" "by2 (at_y y1 y2 b) = y2"
  by (simp_all add: at_y_def mkBox_def)

lemma mkBox_simps [simp]:
  "bx1 (mkBox a b c d) = a" "bx2 (mkBox a b c d) = c"
  "by1 (mkBox a b c d) = b" "by2 (mkBox a b c d) = d"
  by (simp_all add: mkBox_def)

lemma xspan_map_at_y [simp]: "xspan (map (at_y y1 y2) bs) = xspan bs"
  by (auto simp: xspan_def)

lemma band_at_map_at_y: "\<lbrakk>band_at z1 z2 bs; y1 < y2\<rbrakk> \<Longrightarrow> band_at y1 y2 (map (at_y y1 y2) bs)"
  by (induction bs) (auto simp: band_at_Cons)

section \<open>Non-overlapping bands\<close>

lemma miUnionNonO_extends:
  assumes "room p" "\<forall>n. al n"
  shows "extends p (miUnionNonO al p r y1 y2) (map (at_y y1 y2) r)"
  using assms(1)
proof (induction r arbitrary: p)
  case Nil
  then show ?case by (simp add: extends_refl)
next
  case (Cons b r)
  obtain p' where p': "add_box al p (at_y y1 y2 b) (\<lambda>p. miUnionNonO al p r y1 y2)
      = miUnionNonO al p' r y1 y2" "room p'" "extends p p' [at_y y1 y2 b]"
    using add_box_extends [OF Cons.prems assms(2)] by blast
  from extends_trans [OF p'(3) Cons.IH [OF p'(2)]] p'(1) show ?case
    by (simp add: at_y_def)
qed

lemma miSubtractNonO1_eq: "miSubtractNonO1 = miUnionNonO"
proof (intro ext)
  fix al p r y1 y2
  show "miSubtractNonO1 al p r y1 y2 = miUnionNonO al p r y1 y2"
    by (induction r arbitrary: p) simp_all
qed

section \<open>Intersection of two bands\<close>

text \<open>
  One step of the intersection: what is left after the two leading boxes lies strictly
  to the right of their overlap.
\<close>

definition inter_rest :: "BOX \<Rightarrow> BOX list \<Rightarrow> BOX \<Rightarrow> BOX list \<Rightarrow> int set" where
  "inter_rest b1 r1 b2 r2 =
     (if bx2 b1 < bx2 b2 then xspan r1 \<inter> xspan (b2 # r2)
      else if bx2 b2 < bx2 b1 then xspan (b1 # r1) \<inter> xspan r2
      else xspan r1 \<inter> xspan r2)"

lemma inter_rest_split:
  assumes "band_at z1 z2 (b1 # r1)" "band_at w1 w2 (b2 # r2)"
  shows "xspan (b1 # r1) \<inter> xspan (b2 # r2) =
           {max (bx1 b1) (bx1 b2)..<min (bx2 b1) (bx2 b2)} \<union> inter_rest b1 r1 b2 r2"
    and "\<forall>x\<in>inter_rest b1 r1 b2 r2. min (bx2 b1) (bx2 b2) < x"
proof -
  have 1: "\<forall>x\<in>xspan r1. bx2 b1 < x" and 2: "\<forall>x\<in>xspan r2. bx2 b2 < x"
    using assms by (simp_all add: band_at_Cons)
  from 1 2 show "\<forall>x\<in>inter_rest b1 r1 b2 r2. min (bx2 b1) (bx2 b2) < x"
    by (auto simp: inter_rest_def)
  show "xspan (b1 # r1) \<inter> xspan (b2 # r2) =
      {max (bx1 b1) (bx1 b2)..<min (bx2 b1) (bx2 b2)} \<union> inter_rest b1 r1 b2 r2"
  proof (rule set_eqI)
    fix x
    have "x \<in> xspan r1 \<Longrightarrow> bx2 b1 < x" "x \<in> xspan r2 \<Longrightarrow> bx2 b2 < x"
      using 1 2 by simp_all
    then show "x \<in> xspan (b1 # r1) \<inter> xspan (b2 # r2) \<longleftrightarrow>
        x \<in> {max (bx1 b1) (bx1 b2)..<min (bx2 b1) (bx2 b2)} \<union> inter_rest b1 r1 b2 r2"
      by (auto simp: inter_rest_def xspan_Cons)
  qed
qed

lemma band_at_ConsI:
  "\<lbrakk>a < b; y1 < y2; \<forall>x\<in>xspan cs. b < x; band_at y1 y2 cs\<rbrakk> \<Longrightarrow> band_at y1 y2 (mkBox a y1 b y2 # cs)"
  by (simp add: band_at_Cons)

lemma miIntersectO_extends:
  assumes "room p" "\<forall>n. al n" "band_at z1 z2 r1" "band_at w1 w2 r2" "y1 < y2"
  shows "\<exists>cs. extends p (miIntersectO al p r1 r2 y1 y2) cs \<and> band_at y1 y2 cs
           \<and> xspan cs = xspan r1 \<inter> xspan r2"
  using assms
proof (induction al p r1 r2 y1 y2 rule: miIntersectO.induct)
  case (1 al p b1 r1 b2 r2 y1 y2)
  let ?x1 = "max (bx1 b1) (bx1 b2)" and ?x2 = "min (bx2 b1) (bx2 b2)"
  let ?adv = "\<lambda>p. if bx2 b1 < bx2 b2 then miIntersectO al p r1 (b2 # r2) y1 y2
            else if bx2 b2 < bx2 b1 then miIntersectO al p (b1 # r1) r2 y1 y2
            else miIntersectO al p r1 r2 y1 y2"
  have tails: "band_at z1 z2 r1" "band_at w1 w2 r2"
    using "1.prems"(3,4) by (simp_all add: band_at_Cons)
  have adv: "\<exists>cs. extends p (?adv p) cs \<and> band_at y1 y2 cs \<and> xspan cs = inter_rest b1 r1 b2 r2"
    if "room p" for p
    using "1.IH"(1) [OF refl refl _ that "1.prems"(2) tails(1) "1.prems"(4,5)]
      "1.IH"(2) [OF refl refl _ _ that "1.prems"(2,3) tails(2) "1.prems"(5)]
      "1.IH"(3) [OF refl refl _ _ that "1.prems"(2) tails "1.prems"(5)]
    by (simp add: inter_rest_def)
  show ?case
  proof (cases "?x1 < ?x2")
    case True
    obtain p' where p': "add_box al p (mkBox ?x1 y1 ?x2 y2) ?adv = ?adv p'" "room p'"
        "extends p p' [mkBox ?x1 y1 ?x2 y2]"
      using add_box_extends [OF "1.prems"(1,2)] by blast
    obtain cs where cs: "extends p' (?adv p') cs" "band_at y1 y2 cs"
        "xspan cs = inter_rest b1 r1 b2 r2"
      using adv [OF p'(2)] by blast
    have "extends p (?adv p') (mkBox ?x1 y1 ?x2 y2 # cs)"
      using extends_trans [OF p'(3) cs(1)] by simp
    moreover have "band_at y1 y2 (mkBox ?x1 y1 ?x2 y2 # cs)"
      using True "1.prems"(5) cs inter_rest_split(2) [OF "1.prems"(3,4)] by (intro band_at_ConsI) simp_all
    moreover have "xspan (mkBox ?x1 y1 ?x2 y2 # cs) = xspan (b1 # r1) \<inter> xspan (b2 # r2)"
      using inter_rest_split(1) [OF "1.prems"(3,4)] cs(3) by (simp add: xspan_Cons)
    ultimately show ?thesis
      using True p'(1) by (auto simp: Let_def)
  next
    case False
    then have eq: "miIntersectO al p (b1 # r1) (b2 # r2) y1 y2 = ?adv p"
      by (simp only: miIntersectO.simps Let_def if_False)
    have "{?x1..<?x2} = {}"
      using False by (simp only: atLeastLessThan_empty_iff simp_thms)
    then have "xspan (b1 # r1) \<inter> xspan (b2 # r2) = inter_rest b1 r1 b2 r2"
      using inter_rest_split(1) [OF "1.prems"(3,4)] by (simp only: Un_empty_left)
    with adv [OF "1.prems"(1)] show ?thesis
      by (simp only: eq)
  qed
qed (auto intro: extends_refl)

section \<open>Union of two bands\<close>

text \<open>
  MERGERECT, where the band that is being built is \<open>cs\<close> and \<open>as\<close> is what was in the
  region before: the box extends the last one of the band or starts a new one.
\<close>

lemma MERGERECT_extends:
  assumes "room p" "\<forall>n. al n" "boxes p = as @ cs" "band_at y1 y2 cs" "\<forall>a\<in>set as. by2 a \<le> y1"
    and "y1 < y2" "bx1 r < bx2 r" "\<forall>c\<in>set cs. bx1 c \<le> bx1 r"
  obtains p' cs' where "MERGERECT al p r y1 y2 k = k p'" "room p'" "extents p' = extents p"
    "boxes p' = as @ cs'" "band_at y1 y2 cs'" "xspan cs' = xspan cs \<union> {bx1 r..<bx2 r}"
    "\<forall>c\<in>set cs'. bx1 c \<le> bx1 r"
proof -
  let ?prev = "last (boxes p)"
  let ?merge = "numRects p \<noteq> 0 \<and> by1 ?prev = y1 \<and> by2 ?prev = y2 \<and> bx2 ?prev \<ge> bx1 r"
  show thesis
  proof (cases ?merge)
    case True
    have "cs \<noteq> []"
    proof
      assume "cs = []"
      with True assms(1,3) have "?prev \<in> set as"
        by (auto simp: room_def boxes_def)
      with True assms(5,6) show False by auto
    qed
    then obtain ds c where cs: "cs = ds @ [c]" by (metis append_butlast_last_id)
    then have prev: "?prev = c" using assms(3) by simp
    define p' where "p' = (if bx2 c < bx2 r
        then p\<lparr>rects := (rects p)[numRects p - 1 := c\<lparr>bx2 := bx2 r\<rparr>]\<rparr> else p)"
    define c' where "c' = c\<lparr>bx2 := max (bx2 c) (bx2 r)\<rparr>"
    have "numRects p - 1 = length (as @ ds)"
      using assms(1,3) cs by (simp add: room_def boxes_def)
    then have "rects p' = as @ ds @ [c']"
      using assms(1,3) cs list_update_length [of "as @ ds" c "[]" c']
      by (auto simp: p'_def c'_def room_boxes max_def)
    moreover have "numRects p' = numRects p" "rsize p' = rsize p" "extents p' = extents p"
      by (simp_all add: p'_def)
    ultimately have p': "room p'" "boxes p' = as @ ds @ [c']" "extents p' = extents p"
      using assms(1,3) cs by (auto simp: room_def boxes_def)
    have ds: "band_at y1 y2 ds" "by1 c = y1" "by2 c = y2" "bx1 c < bx2 c" "\<forall>d\<in>set ds. bx2 d < bx1 c"
      using assms(4) cs by (simp_all add: band_at_snoc)
    show thesis
    proof (rule that)
      show "MERGERECT al p r y1 y2 k = k p'"
        using True prev by (simp add: MERGERECT_def p'_def)
      show "boxes p' = as @ (ds @ [c'])" using p' by simp
      show "band_at y1 y2 (ds @ [c'])"
        using ds assms(6) by (auto simp: band_at_snoc c'_def)
      show "xspan (ds @ [c']) = xspan cs \<union> {bx1 r..<bx2 r}"
        using True prev assms(8) cs by (auto simp: xspan_Cons c'_def)
      show "\<forall>c\<in>set (ds @ [c']). bx1 c \<le> bx1 r"
        using assms(8) cs by (auto simp: c'_def)
    qed (use p' in simp_all)
  next
    case False
    obtain p' where p': "add_box al p (mkBox (bx1 r) y1 (bx2 r) y2) k = k p'" "room p'"
        "extends p p' [mkBox (bx1 r) y1 (bx2 r) y2]"
      using add_box_extends [OF assms(1,2)] by blast
    have sep: "bx2 d < bx1 r" if "d \<in> set cs" for d
    proof -
      from that obtain ds c where cs: "cs = ds @ [c]"
        by (metis append_butlast_last_id empty_iff empty_set)
      with assms(1,3,4) False have "bx2 c < bx1 r"
        by (auto simp: band_at_snoc room_def boxes_def)
      moreover from assms(4) cs have "\<forall>d\<in>set ds. bx2 d < bx1 c" "bx1 c < bx2 c"
        by (auto simp: band_at_snoc)
      ultimately show ?thesis using that cs by fastforce
    qed
    show thesis
    proof (rule that)
      show "MERGERECT al p r y1 y2 k = k p'"
        using False p'(1) unfolding MERGERECT_def Let_def by (simp only: if_False)
      show "room p'" "extents p' = extents p"
        using p' by (simp_all add: extends_def)
      show "boxes p' = as @ (cs @ [mkBox (bx1 r) y1 (bx2 r) y2])"
        using p'(3) assms(3) by (simp add: extends_def)
      show "band_at y1 y2 (cs @ [mkBox (bx1 r) y1 (bx2 r) y2])"
        using assms(4,6,7) sep by (simp add: band_at_snoc)
      show "xspan (cs @ [mkBox (bx1 r) y1 (bx2 r) y2]) = xspan cs \<union> {bx1 r..<bx2 r}"
        by (simp add: xspan_Cons)
      show "\<forall>c\<in>set (cs @ [mkBox (bx1 r) y1 (bx2 r) y2]). bx1 c \<le> bx1 r"
        using assms(8) by simp
    qed
  qed
qed

lemma miUnionO_builds:
  assumes "room p" "\<forall>n. al n" "boxes p = as @ cs" "band_at y1 y2 cs" "\<forall>a\<in>set as. by2 a \<le> y1"
    and "y1 < y2" "band_at z1 z2 r1" "band_at w1 w2 r2"
    and "\<forall>c\<in>set cs. \<forall>x\<in>xspan r1 \<union> xspan r2. bx1 c \<le> x"
  shows "\<exists>cs'. room (miUnionO al p r1 r2 y1 y2)
           \<and> extents (miUnionO al p r1 r2 y1 y2) = extents p
           \<and> boxes (miUnionO al p r1 r2 y1 y2) = as @ cs'
           \<and> band_at y1 y2 cs' \<and> xspan cs' = xspan cs \<union> xspan r1 \<union> xspan r2"
  using assms
proof (induction "length r1 + length r2" arbitrary: p r1 r2 cs rule: less_induct)
  case less
  have step: ?case
    if r: "r1 = b # r1' \<and> r2' = r2 \<or> r2 = b # r2' \<and> r1' = r1"
      and eq: "miUnionO al p r1 r2 y1 y2 = MERGERECT al p b y1 y2 (\<lambda>p. miUnionO al p r1' r2' y1 y2)"
      and left: "\<forall>x\<in>xspan r1' \<union> xspan r2'. bx1 b \<le> x"
    for b r1' r2'
  proof -
    have b: "bx1 b < bx2 b" and tails: "band_at z1 z2 r1'" "band_at w1 w2 r2'"
      using r less.prems(7,8) by (auto simp: band_at_Cons)
    then have "bx1 b \<in> xspan r1 \<union> xspan r2"
      using r by (auto simp: xspan_Cons)
    then have ord: "\<forall>c\<in>set cs. bx1 c \<le> bx1 b" using less.prems(9) by blast
    obtain p' cs' where m: "MERGERECT al p b y1 y2 (\<lambda>p. miUnionO al p r1' r2' y1 y2)
          = miUnionO al p' r1' r2' y1 y2"
        "room p'" "extents p' = extents p" "boxes p' = as @ cs'" "band_at y1 y2 cs'"
        "xspan cs' = xspan cs \<union> {bx1 b..<bx2 b}" "\<forall>c\<in>set cs'. bx1 c \<le> bx1 b"
      by (rule MERGERECT_extends [OF less.prems(1-6) b ord])
    have "\<forall>c\<in>set cs'. \<forall>x\<in>xspan r1' \<union> xspan r2'. bx1 c \<le> x"
      using m(7) left by force
    moreover have "length r1' + length r2' < length r1 + length r2"
      using r by auto
    ultimately obtain cs'' where c: "room (miUnionO al p' r1' r2' y1 y2)"
        "extents (miUnionO al p' r1' r2' y1 y2) = extents p'"
        "boxes (miUnionO al p' r1' r2' y1 y2) = as @ cs''"
        "band_at y1 y2 cs''" "xspan cs'' = xspan cs' \<union> xspan r1' \<union> xspan r2'"
      using less.hyps [OF _ m(2) less.prems(2) m(4,5) less.prems(5,6) tails] by blast
    moreover have "xspan cs'' = xspan cs \<union> xspan r1 \<union> xspan r2"
      using c(5) m(6) r by (auto simp: xspan_Cons)
    ultimately show ?thesis
      using eq m(1,3) by auto
  qed
  show ?case
  proof (cases r1)
    case Nil
    show ?thesis
    proof (cases r2)
      case Nil
      with \<open>r1 = []\<close> less.prems show ?thesis by auto
    next
      case (Cons b2 r2')
      with \<open>r1 = []\<close> less.prems(8) show ?thesis
        by (intro step [where b = b2]) (auto simp: band_at_Cons)
    qed
  next
    case (Cons b1 r1')
    show ?thesis
    proof (cases r2)
      case Nil
      with Cons less.prems(7) show ?thesis
        by (intro step [where b = b1]) (auto simp: band_at_Cons)
    next
      case (Cons b2 r2')
      show ?thesis
      proof (cases "bx1 b1 < bx1 b2")
        case True
        with Cons \<open>r1 = b1 # r1'\<close> less.prems(7,8) show ?thesis
          by (intro step [where b = b1 and r1' = r1' and r2' = r2])
            (fastforce simp: band_at_Cons xspan_Cons)+
      next
        case False
        with Cons \<open>r1 = b1 # r1'\<close> less.prems(7,8) show ?thesis
          by (intro step [where b = b2 and r1' = r1 and r2' = r2'])
            (fastforce simp: band_at_Cons xspan_Cons)+
      qed
    qed
  qed
qed

lemma miUnionO_extends:
  assumes "room p" "\<forall>n. al n" "\<forall>a\<in>set (boxes p). by2 a \<le> y1" "y1 < y2"
    and "band_at z1 z2 r1" "band_at w1 w2 r2"
  shows "\<exists>cs. extends p (miUnionO al p r1 r2 y1 y2) cs \<and> band_at y1 y2 cs
           \<and> xspan cs = xspan r1 \<union> xspan r2"
  using miUnionO_builds [OF assms(1,2) _ _ assms(3,4,5,6), of "[]"] by (auto simp: extends_def)

section \<open>Difference of two bands\<close>

text \<open>The minuend that is left: the current box from the fence \<open>x1\<close> on, and the rest.\<close>

definition minuend :: "int \<Rightarrow> BOX list \<Rightarrow> int set" where
  "minuend x1 r1 = (case r1 of [] \<Rightarrow> {} | b # r \<Rightarrow> {x1..<bx2 b} \<union> xspan r)"

definition fence_ok :: "int \<Rightarrow> BOX list \<Rightarrow> bool" where
  "fence_ok x1 r1 \<longleftrightarrow> (case r1 of [] \<Rightarrow> True | b # _ \<Rightarrow> bx1 b \<le> x1 \<and> x1 < bx2 b)"

lemma minuend_next_fence [simp]: "minuend (next_fence r x) r = xspan r"
  by (cases r) (auto simp: minuend_def next_fence_def xspan_Cons)

lemma fence_ok_next_fence [simp]: "band_at z1 z2 r \<Longrightarrow> fence_ok (next_fence r x) r"
  by (cases r) (auto simp: fence_ok_def next_fence_def band_at_Cons)

text \<open>
  What a step of the loop has to establish: the boxes added so far are \<open>cs\<close>, they cover
  \<open>S\<close>, and they form a band.
\<close>

definition builds_band :: "REGION \<Rightarrow> REGION \<Rightarrow> int \<Rightarrow> int \<Rightarrow> int set \<Rightarrow> bool" where
  "builds_band p p' y1 y2 S \<longleftrightarrow> (\<exists>cs. extends p p' cs \<and> band_at y1 y2 cs \<and> xspan cs = S)"

lemma builds_band_empty: "room p \<Longrightarrow> builds_band p p y1 y2 {}"
  unfolding builds_band_def by (intro exI [of _ "[]"]) (simp add: extends_refl)

lemma builds_band_add_box:
  assumes "room p" "\<forall>n. al n" "a < b" "y1 < y2" "\<forall>x\<in>S. b < x"
    and "\<And>p'. room p' \<Longrightarrow> builds_band p' (k p') y1 y2 S"
  shows "builds_band p (add_box al p (mkBox a y1 b y2) k) y1 y2 ({a..<b} \<union> S)"
proof -
  obtain p' where p': "add_box al p (mkBox a y1 b y2) k = k p'" "room p'"
      "extends p p' [mkBox a y1 b y2]"
    using add_box_extends [OF assms(1,2)] by blast
  from assms(6) [OF p'(2)] obtain cs where cs: "extends p' (k p') cs" "band_at y1 y2 cs"
      "xspan cs = S"
    by (auto simp: builds_band_def)
  have "extends p (k p') (mkBox a y1 b y2 # cs)"
    using extends_trans [OF p'(3) cs(1)] by simp
  moreover have "band_at y1 y2 (mkBox a y1 b y2 # cs)"
    using assms(3-5) cs by (intro band_at_ConsI) simp_all
  ultimately show ?thesis
    unfolding builds_band_def p'(1) using cs(3)
    by (intro exI [of _ "mkBox a y1 b y2 # cs"]) (simp add: xspan_Cons)
qed

lemma miSubtractO_loop_builds:
  assumes "room p" "\<forall>n. al n" "band_at z1 z2 r1" "band_at w1 w2 r2" "fence_ok x1 r1" "y1 < y2"
  shows "builds_band p (miSubtractO_loop al p x1 r1 r2 y1 y2) y1 y2 (minuend x1 r1 - xspan r2)"
  using assms
proof (induction "length r1 + length r2" arbitrary: p x1 r1 r2 rule: less_induct)
  case less
  note al = less.prems(2) and y = less.prems(6)
  show ?case
  proof (cases r1)
    case Nil
    with less.prems(1) show ?thesis by (simp add: minuend_def builds_band_empty)
  next
    case (Cons b1 r1')
    have b1: "bx1 b1 \<le> x1" "x1 < bx2 b1" "band_at z1 z2 r1'" "\<forall>x\<in>xspan r1'. bx2 b1 < x"
      using less.prems(3,5) Cons by (simp_all add: fence_ok_def band_at_Cons)
    have next1: "builds_band q (miSubtractO_loop al q (next_fence r1' v) r1' r2 y1 y2) y1 y2
        (xspan r1' - xspan r2)" if "room q" for q v
      using less.hyps [OF _ that al b1(3) less.prems(4) _ y, of "next_fence r1' v"] b1(3) Cons
      by simp
    show ?thesis
    proof (cases r2)
      case Nil
      have "builds_band p (add_box al p (mkBox x1 y1 (bx2 b1) y2)
          (\<lambda>p. miSubtractO_loop al p (next_fence r1' x1) r1' [] y1 y2)) y1 y2
          ({x1..<bx2 b1} \<union> (xspan r1' - xspan r2))"
        using next1 Nil b1 by (intro builds_band_add_box [OF less.prems(1) al _ y]) auto
      with Cons Nil show ?thesis by (simp add: minuend_def)
    next
      case (Cons b2 r2')
      note r = \<open>r1 = b1 # r1'\<close> Cons
      have b2: "bx1 b2 < bx2 b2" "band_at w1 w2 r2'" "\<forall>x\<in>xspan r2'. bx2 b2 < x"
        using less.prems(4) r by (simp_all add: band_at_Cons)
      have next2: "builds_band q (miSubtractO_loop al q v r1 r2' y1 y2) y1 y2
          (minuend v r1 - xspan r2')" if "room q" "bx1 b1 \<le> v" "v < bx2 b1" for q v
        using less.hyps [OF _ that(1) al less.prems(3) b2(2) _ y, of v] that r
        by (simp add: fence_ok_def)
      let ?S = "minuend x1 r1 - xspan r2"
      consider (missed) "bx2 b2 \<le> x1"
        | (left_used) "bx1 b2 \<le> x1" "x1 < bx2 b2" "bx2 b1 \<le> bx2 b2"
        | (left) "bx1 b2 \<le> x1" "x1 < bx2 b2" "bx2 b2 < bx2 b1"
        | (mid_used) "x1 < bx1 b2" "bx1 b2 < bx2 b1" "bx2 b1 \<le> bx2 b2"
        | (mid) "x1 < bx1 b2" "bx1 b2 < bx2 b1" "bx2 b2 < bx2 b1"
        | (beyond) "bx2 b1 \<le> bx1 b2"
        by linarith
      then show ?thesis
      proof cases
        case missed
        then have "?S = minuend x1 r1 - xspan r2'"
          using b1 r by (auto simp: minuend_def xspan_Cons)
        with next2 [OF less.prems(1), of x1] missed b1 r show ?thesis by simp
      next
        case left_used
        then have "?S = xspan r1' - xspan r2"
          using b1 r by (auto simp: minuend_def xspan_Cons)
        with next1 [OF less.prems(1)] left_used r show ?thesis by simp
      next
        case left
        then have "?S = minuend (bx2 b2) r1 - xspan r2'"
          using b1 r by (auto simp: minuend_def xspan_Cons)
        with next2 [OF less.prems(1), of "bx2 b2"] left b1 r show ?thesis by simp
      next
        case mid_used
        then have "?S = {x1..<bx1 b2} \<union> (xspan r1' - xspan r2)"
          using b1 b2 r by (auto simp: minuend_def xspan_Cons)
        moreover have "builds_band p (add_box al p (mkBox x1 y1 (bx1 b2) y2)
            (\<lambda>p. miSubtractO_loop al p (next_fence r1' (bx2 b2)) r1' r2 y1 y2)) y1 y2
            ({x1..<bx1 b2} \<union> (xspan r1' - xspan r2))"
          using next1 b1 mid_used
          by (intro builds_band_add_box [OF less.prems(1) al _ y]) fastforce+
        ultimately show ?thesis using mid_used b2 r by simp
      next
        case mid
        then have "?S = {x1..<bx1 b2} \<union> (minuend (bx2 b2) r1 - xspan r2')"
          using b1 b2 r by (auto simp: minuend_def xspan_Cons)
        moreover have "builds_band p (add_box al p (mkBox x1 y1 (bx1 b2) y2)
            (\<lambda>p. miSubtractO_loop al p (bx2 b2) r1 r2' y1 y2)) y1 y2
            ({x1..<bx1 b2} \<union> (minuend (bx2 b2) r1 - xspan r2'))"
        proof (rule builds_band_add_box [OF less.prems(1) al _ y])
          show "x1 < bx1 b2" by (rule mid)
          show "\<forall>x\<in>minuend (bx2 b2) r1 - xspan r2'. bx1 b2 < x"
            using mid b1 b2 r by (auto simp: minuend_def)
        qed (use next2 mid b1 b2 in simp)
        ultimately show ?thesis using mid b2 r by simp
      next
        case beyond
        then have "?S = {x1..<bx2 b1} \<union> (xspan r1' - xspan r2)"
          using b1 b2 r by (auto simp: minuend_def xspan_Cons)
        moreover have "builds_band p (add_box al p (mkBox x1 y1 (bx2 b1) y2)
            (\<lambda>p. miSubtractO_loop al p (next_fence r1' x1) r1' r2 y1 y2)) y1 y2
            ({x1..<bx2 b1} \<union> (xspan r1' - xspan r2))"
          using next1 b1 by (intro builds_band_add_box [OF less.prems(1) al _ y]) auto
        ultimately show ?thesis using beyond b1 b2 r by simp
      qed
    qed
  qed
qed

lemma miSubtractO_extends:
  assumes "room p" "\<forall>n. al n" "band_at z1 z2 r1" "r1 \<noteq> []" "band_at w1 w2 r2" "y1 < y2"
  shows "\<exists>cs. extends p (miSubtractO al p r1 r2 y1 y2) cs \<and> band_at y1 y2 cs
           \<and> xspan cs = xspan r1 - xspan r2"
proof -
  have fence: "bx1 (hd r1) = next_fence r1 0"
    using assms(4) by (cases r1) (simp_all add: next_fence_def)
  have "builds_band p (miSubtractO_loop al p (next_fence r1 0) r1 r2 y1 y2) y1 y2
      (minuend (next_fence r1 0) r1 - xspan r2)"
    using assms by (intro miSubtractO_loop_builds) simp_all
  then show ?thesis
    by (simp add: miSubtractO_def fence builds_band_def)
qed

end
