(* ===== verification/XRegionOp.thy ===== *)
theory XRegionOp
  imports XRegionSweep
begin

text \<open>
  miCoalesce and miRegionOp. The contract between miRegionOp and the band routines it
  is given is the locale \<open>band_operator\<close>: a boolean operator \<open>f\<close>, an overlap routine
  that computes it on a band both regions cover, and, for the bands only one region
  covers, either a routine that keeps them or a null pointer when \<open>f\<close> drops them. In
  the locale, miRegionOp computes \<open>f\<close> on the points of the two regions and returns
  the canonical form. The three instances of the code are interpreted in
  \<^verbatim>\<open>XRegionCorrect\<close>.
\<close>

section \<open>The first band of a banded list\<close>

lemma band_after_band: "band r @ after_band r = r"
  by (simp add: band_def after_band_def)

lemma band_nonempty: "r \<noteq> [] \<Longrightarrow> band r \<noteq> []"
  by (cases r) (simp_all add: band_def)

lemma banded_band: "banded r \<Longrightarrow> banded (band r)"
  and banded_after_band: "banded r \<Longrightarrow> banded (after_band r)"
  using banded_append [of "band r" "after_band r"] by (simp_all add: band_after_band)

lemma set_band: "b \<in> set (band r) \<Longrightarrow> b \<in> set r \<and> by1 b = by1 (hd r)"
  by (auto simp: band_def dest: set_takeWhileD)

lemma set_after_band: "b \<in> set (after_band r) \<Longrightarrow> b \<in> set r"
  by (auto simp: after_band_def dest: set_dropWhileD)

lemma band_at_band:
  assumes "banded r" "r \<noteq> []"
  shows "band_at (by1 (hd r)) (by2 (hd r)) (band r)"
  unfolding band_at_def
  using banded_band [OF assms(1)] set_band [of _ r] banded_by1_by2 [OF assms(1), of "hd r"] assms(2)
  by (metis hd_in_set)

lemma after_band_below:
  assumes "banded r" "r \<noteq> []" "d \<in> set (after_band r)"
  shows "by2 (hd r) \<le> by1 d"
proof -
  let ?h = "hd r" and ?e = "hd (after_band r)"
  have ne: "after_band r \<noteq> []" using assms(3) by auto
  then have e: "by1 ?e \<noteq> by1 ?h" "?e \<in> set (after_band r)"
    using hd_dropWhile [of "\<lambda>b. by1 b = by1 ?h" r] by (auto simp: after_band_def)
  have h: "?h \<in> set (band r)" using assms(2) by (cases r) (auto simp: band_def)
  have bef: "before ?h c" if "c \<in> set (after_band r)" for c
    using assms(1) banded_append [of "band r" "after_band r"] h that by (simp add: band_after_band)
  have ph: "proper_box ?h" "proper_box ?e"
    using assms(1,2) e(2) set_after_band [of ?e r] by (auto intro: banded_proper)
  from bef [OF e(2)] e(1) have he: "by2 ?h \<le> by1 ?e" by (auto simp: before_def)
  have "d = ?e \<or> before ?e d"
    using banded_after_band [OF assms(1)] ne assms(3)
    by (cases "after_band r") (auto simp: banded_Cons)
  with bef [OF assms(3)] he ph show ?thesis
    unfolding before_def proper_box_def by (metis leD le_less_linear less_le_trans order_less_trans)
qed

lemma row_head:
  assumes "banded r" "r \<noteq> []" "y < by2 (hd r)"
  shows "row r y = (if by1 (hd r) \<le> y then xspan (band r) else {})"
proof -
  have "row (after_band r) y = {}"
    using after_band_below [OF assms(1,2)] assms(3) by (intro row_below) fastforce
  moreover have "row r y = row (band r) y \<union> row (after_band r) y"
    by (metis band_after_band row_append)
  ultimately show ?thesis
    using row_band_at [OF band_at_band [OF assms(1,2)], of y] assms(3) by simp
qed

lemma row_after_band:
  assumes "banded r" "r \<noteq> []" "by2 (hd r) \<le> y"
  shows "row (after_band r) y = row r y"
proof -
  have "row (band r) y = {}"
    using row_band_at [OF band_at_band [OF assms(1,2)], of y] assms(3) by simp
  then show ?thesis
    by (metis band_after_band row_append sup_bot_left)
qed

section \<open>Merging a band into the last one\<close>

text \<open>The effect of miCoalesce on the boxes, when the band \<open>C\<close> follows the boxes \<open>bs\<close>.\<close>

definition mergeable :: "BOX list \<Rightarrow> nat \<Rightarrow> BOX list \<Rightarrow> bool" where
  "mergeable bs pb C \<longleftrightarrow>
     length C = length bs - pb \<and> C \<noteq> [] \<and> by2 (hd (drop pb bs)) = by1 (hd C)
     \<and> list_all2 same_place (drop pb bs) C"

definition merge_band :: "BOX list \<Rightarrow> nat \<Rightarrow> BOX list \<Rightarrow> BOX list" where
  "merge_band bs pb C =
     (if mergeable bs pb C
      then take pb bs @ map2 (\<lambda>p c. p\<lparr>by2 := by2 c\<rparr>) (drop pb bs) C
      else bs @ C)"

lemma miCoalesce_merge_band:
  assumes "room N" "boxes N = bs @ C @ D" "C \<noteq> []" "\<forall>c\<in>set C. by1 c = t"
    and "\<forall>d\<in>set D. by1 d \<noteq> t" "pb \<le> length bs"
  shows "boxes (fst (miCoalesce N pb (length bs))) = merge_band bs pb C @ D"
    and "room (fst (miCoalesce N pb (length bs)))"
    and "extents (fst (miCoalesce N pb (length bs))) = extents N"
    and "D = [] \<Longrightarrow>
      snd (miCoalesce N pb (length bs)) = (if mergeable bs pb C then pb else length bs)"
proof -
  have t: "by1 ((bs @ C @ D) ! length bs) = t"
    using assms(3,4) by (cases C) (auto simp: nth_append)
  have cur: "takeWhile (\<lambda>b. by1 b = t) (C @ D) = C" "dropWhile (\<lambda>b. by1 b = t) (C @ D) = D"
    using takeWhile_append_all [OF assms(4), of D] dropWhile_append_all [OF assms(4), of D] assms(5)
    by simp_all
  have prev: "take (length bs - pb) (drop pb (bs @ C @ D)) = drop pb bs"
    using assms(6) by simp
  have tk: "take pb (bs @ C @ D) = take pb bs" using assms(6) by simp
  have num: "numRects N = length bs + length C + length D" "rects N = bs @ C @ D"
    using assms(1,2) by (simp_all add: room_boxes room_def)
  have eq: "miCoalesce N pb (length bs) =
     (if mergeable bs pb C
      then (N\<lparr>numRects := numRects N - length C,
              rects := take pb bs @ map2 (\<lambda>p c. p\<lparr>by2 := by2 c\<rparr>) (drop pb bs) C @ D\<rparr>,
            if D = [] then pb
            else if D \<noteq> [] then last_band_start (bs @ C @ D) (numRects N - 1) else length bs)
      else (N, if D \<noteq> [] then last_band_start (bs @ C @ D) (numRects N - 1) else length bs))"
    unfolding miCoalesce_def Let_def assms(2) t prev tk
    by (simp add: cur mergeable_def)
  show "boxes (fst (miCoalesce N pb (length bs))) = merge_band bs pb C @ D"
    using assms(1,2,6) num
    by (auto simp: eq merge_band_def boxes_def mergeable_def)
  show "room (fst (miCoalesce N pb (length bs)))"
    using assms(1,2,6) num by (auto simp: eq room_def mergeable_def)
  show "extents (fst (miCoalesce N pb (length bs))) = extents N"
    by (simp add: eq)
  show "D = [] \<Longrightarrow>
      snd (miCoalesce N pb (length bs)) = (if mergeable bs pb C then pb else length bs)"
    by (simp add: eq)
qed

text \<open>
  The state miRegionOp keeps: a destination in canonical form that ends at or above
  \<open>yb\<close>, and the index of its last band.
\<close>

definition last_band :: "BOX list \<Rightarrow> nat \<Rightarrow> bool" where
  "last_band bs pb \<longleftrightarrow>
     bs = [] \<and> pb = 0 \<or>
     (\<exists>pre B u1 u2. bs = pre @ B \<and> B \<noteq> [] \<and> length pre = pb \<and> band_at u1 u2 B
        \<and> (\<forall>a\<in>set pre. by2 a \<le> u1))"

definition canonical :: "BOX list \<Rightarrow> bool" where
  "canonical bs \<longleftrightarrow> banded bs \<and> coalesced bs"

definition growing :: "BOX list \<Rightarrow> nat \<Rightarrow> int \<Rightarrow> bool" where
  "growing bs pb yb \<longleftrightarrow> canonical bs \<and> last_band bs pb \<and> (\<forall>b\<in>set bs. by2 b \<le> yb)"

lemma growing_Nil [simp]: "growing [] 0 yb"
  by (simp add: growing_def canonical_def last_band_def)

lemma growing_mono: "\<lbrakk>growing bs pb yb; yb \<le> yb'\<rbrakk> \<Longrightarrow> growing bs pb yb'"
  by (fastforce simp: growing_def)

lemma coalesced_transfer:
  assumes "coalesced bs" "\<And>y. y < y1 \<Longrightarrow> row bs' y = row bs y"
    and "c \<in> set bs" "by1 c = by1 b" "by1 b < y1"
  shows "row bs' (by1 b - 1) \<noteq> row bs' (by1 b)"
  using assms by (auto simp: coalesced_def)

lemma same_place_at_y: "same_place a b \<longleftrightarrow> at_y 0 1 a = at_y 0 1 b"
  by (auto simp: same_place_def at_y_def mkBox_def)

lemma same_place_xspan: "list_all2 same_place as bs \<Longrightarrow> xspan as = xspan bs"
  by (induction rule: list_all2_induct) (auto simp: xspan_Cons same_place_def)

lemma xspan_same_place:
  assumes "band_at u1 u2 as" "band_at v1 v2 bs" "xspan as = xspan bs"
  shows "list_all2 same_place as bs"
proof -
  have "map (at_y 0 1) as = map (at_y 0 1) bs"
    using assms band_at_map_at_y [of _ _ _ 0 1] by (intro band_at_unique [of 0 1]) auto
  then have "list_all2 (=) (map (at_y 0 1) as) (map (at_y 0 1) bs)"
    by (simp add: list.rel_eq)
  then show ?thesis
    by (simp add: list_all2_map1 list_all2_map2 same_place_at_y [abs_def])
qed

text \<open>When the bands line up the last band is stretched; the scanlines do not change.\<close>

lemma merged_band:
  assumes "band_at u1 u2 B" "band_at u2 y2 C" "list_all2 same_place B C"
  shows "map2 (\<lambda>p c. p\<lparr>by2 := by2 c\<rparr>) B C = map (at_y u1 y2) B"
  using assms(3,1,2)
proof (induction rule: list_all2_induct)
  case (Cons b B c C)
  then have "b\<lparr>by2 := by2 c\<rparr> = at_y u1 y2 b"
    by (intro BOX_eqI) (simp_all add: band_at_Cons)
  with Cons show ?case by (simp add: band_at_Cons)
qed simp

lemma merged_row:
  assumes "band_at u1 u2 B" "band_at u2 y2 C" "list_all2 same_place B C" "B \<noteq> []"
  shows "row (map (at_y u1 y2) B) y = row (B @ C) y"
proof -
  have "u1 < u2" "u2 < y2"
    using assms by (cases B; cases C; auto simp: band_at_Cons)+
  moreover have "band_at u1 y2 (map (at_y u1 y2) B)"
    using assms(1) calculation by (intro band_at_map_at_y) simp_all
  ultimately show ?thesis
    using row_band_at [OF assms(1), of y] row_band_at [OF assms(2), of y]
      row_band_at [of u1 y2 "map (at_y u1 y2) B" y] same_place_xspan [OF assms(3)]
    by auto
qed

lemma row_append_below:
  "\<lbrakk>band_at y1 y2 C; y < y1\<rbrakk> \<Longrightarrow> row (bs @ C) y = row bs y"
  by (simp add: row_band_at)

lemma row_last_band:
  assumes "bs = pre @ B" "band_at u1 u2 B" "\<forall>a\<in>set pre. by2 a \<le> u1" "u1 \<le> y"
  shows "row bs y = (if y < u2 then xspan B else {})"
  using row_above [of pre y] row_band_at [OF assms(2), of y] assms by fastforce

lemma not_mergeable_row:
  assumes "bs = pre @ B" "B \<noteq> []" "length pre = pb" "band_at u1 u2 B"
    "\<forall>a\<in>set pre. by2 a \<le> u1" "band_at y1 y2 C" "C \<noteq> []" "u2 \<le> y1"
    and "\<not> mergeable bs pb C"
  shows "row bs (y1 - 1) \<noteq> xspan C"
proof
  assume eq: "row bs (y1 - 1) = xspan C"
  have u: "u1 < u2" using assms(2,4) by (cases B) (auto simp: band_at_Cons)
  have C: "banded C" using assms(6) by (simp add: band_at_def)
  then have "xspan C \<noteq> {}" using assms(7) by (rule xspan_nonempty)
  with eq row_last_band [OF assms(1,4,5), of "y1 - 1"] u assms(8)
  have "u2 = y1" "xspan B = xspan C" by (auto split: if_splits)
  moreover have sp: "list_all2 same_place B C"
    using xspan_same_place [OF assms(4,6)] calculation by simp
  moreover have "by2 (hd B) = y1" "by1 (hd C) = y1"
    using assms(2,4,6,7) calculation by (cases B; cases C; auto simp: band_at_Cons)+
  moreover have "length C = length B" using sp by (simp add: list_all2_lengthD)
  ultimately show False
    using assms(1,3,7,9) by (simp add: mergeable_def)
qed

lemma row_merge_band:
  assumes "last_band bs pb" "band_at y1 y2 C"
  shows "row (merge_band bs pb C) y = row (bs @ C) y"
proof (cases "mergeable bs pb C")
  case True
  with assms(1) obtain pre B u1 u2 where B: "bs = pre @ B" "B \<noteq> []" "length pre = pb"
      "band_at u1 u2 B" "\<forall>a\<in>set pre. by2 a \<le> u1"
    by (auto simp: last_band_def mergeable_def)
  with True have m: "list_all2 same_place B C" "by2 (hd B) = by1 (hd C)" "C \<noteq> []"
    by (simp_all add: mergeable_def)
  with B assms(2) have "u2 = y1" by (cases B; cases C; auto simp: band_at_Cons)
  with merged_row [OF B(4) _ m(1) B(2)] merged_band [OF B(4) _ m(1)] assms(2) B True show ?thesis
    by (simp add: merge_band_def)
qed (simp add: merge_band_def)

lemma growing_merge_band:
  assumes "growing bs pb yb" "band_at y1 y2 C" "C \<noteq> []" "yb \<le> y1"
  shows "growing (merge_band bs pb C) (if mergeable bs pb C then pb else length bs) y2"
proof -
  have can: "banded bs" "coalesced bs" and lb: "last_band bs pb" and yb: "\<forall>b\<in>set bs. by2 b \<le> y1"
    using assms(1,4) by (auto simp: growing_def canonical_def)
  have y: "y1 < y2" using assms(2,3) by (cases C) (auto simp: band_at_Cons)
  have top: "by1 b < y1" if "b \<in> set bs" for b
    using banded_proper [OF can(1) that] yb that by (auto simp: proper_box_def)
  have rows: "row (merge_band bs pb C) y = row bs y" if "y < y1" for y
    using row_merge_band [OF lb assms(2)] row_append_below [OF assms(2) that] by metis
  have old: "row (merge_band bs pb C) (by1 b - 1) \<noteq> row (merge_band bs pb C) (by1 b)"
    if "c \<in> set bs" "by1 c = by1 b" for b c
    using coalesced_transfer [of bs y1 "merge_band bs pb C", OF can(2) rows that] top [OF that(1)] that(2)
    by simp
  show ?thesis
  proof (cases "mergeable bs pb C")
    case True
    with lb obtain pre B u1 u2 where B: "bs = pre @ B" "B \<noteq> []" "length pre = pb"
        "band_at u1 u2 B" "\<forall>a\<in>set pre. by2 a \<le> u1"
      by (auto simp: last_band_def mergeable_def)
    with True have m: "list_all2 same_place B C" "by2 (hd B) = by1 (hd C)"
      by (simp_all add: mergeable_def)
    with B assms(2,3) have u: "u2 = y1" by (cases B; cases C; auto simp: band_at_Cons)
    let ?B = "map (at_y u1 y2) B"
    have eq: "merge_band bs pb C = pre @ ?B"
      using merged_band [OF B(4) _ m(1)] assms(2) u B True by (simp add: merge_band_def)
    have "u1 < y2" using B(2,4) y u by (cases B) (auto simp: band_at_Cons)
    then have B': "band_at u1 y2 ?B" using B(4) by (rule band_at_map_at_y [rotated])
    have pre_y2: "by2 b \<le> y2" if "b \<in> set pre" for b
      using yb [THEN bspec, of b] y B(1) that by simp
    have "banded (pre @ ?B)"
      using can(1) B(1) B(5) B' by (intro banded_append_band) (simp_all add: banded_append)
    moreover have "coalesced (pre @ ?B)"
    proof (unfold coalesced_def, intro ballI)
      fix b assume "b \<in> set (pre @ ?B)"
      then have "b \<in> set pre \<or> by1 b = u1" by auto
      moreover have "hd B \<in> set B" "by1 (hd B) = u1"
        using B(2,4) by (simp_all add: band_at_def)
      ultimately obtain c where "c \<in> set bs" "by1 c = by1 b"
        unfolding B(1) by (metis Un_iff set_append)
      then show "row (pre @ ?B) (by1 b - 1) \<noteq> row (pre @ ?B) (by1 b)"
        using old unfolding eq by blast
    qed
    moreover have "\<forall>b\<in>set (pre @ ?B). by2 b \<le> y2" using pre_y2 by auto
    moreover have "last_band (pre @ ?B) pb"
      unfolding last_band_def using B(2,3,5) B' by blast
    ultimately show ?thesis using True eq by (simp add: growing_def canonical_def)
  next
    case False
    then have eq: "merge_band bs pb C = bs @ C" by (simp add: merge_band_def)
    have new: "row (bs @ C) (y1 - 1) \<noteq> row (bs @ C) y1"
    proof -
      have "row bs y1 = {}" using yb by (rule row_above)
      then have "row (bs @ C) y1 = xspan C" using row_band_at [OF assms(2), of y1] y by simp
      moreover have "row bs (y1 - 1) \<noteq> xspan C"
      proof (cases "bs = []")
        case True
        then show ?thesis using xspan_nonempty [of C] assms(2,3) by (auto simp: band_at_def)
      next
        case ne: False
        with lb obtain pre B u1 u2 where B: "bs = pre @ B" "B \<noteq> []" "length pre = pb"
            "band_at u1 u2 B" "\<forall>a\<in>set pre. by2 a \<le> u1"
          by (auto simp: last_band_def)
        moreover have "u2 \<le> y1" using B(1,2,4) yb by (cases B) (auto simp: band_at_Cons)
        ultimately show ?thesis using not_mergeable_row [OF _ _ _ _ _ assms(2,3) _ False] by blast
      qed
      ultimately show ?thesis using row_append_below [OF assms(2), of "y1 - 1"] by simp
    qed
    have "banded (bs @ C)" using can(1) assms(2) yb by (rule banded_append_band)
    moreover have "coalesced (bs @ C)"
    proof (unfold coalesced_def, intro ballI)
      fix b assume "b \<in> set (bs @ C)"
      then consider "b \<in> set bs" | "by1 b = y1" using assms(2) by (auto simp: band_at_def)
      then show "row (bs @ C) (by1 b - 1) \<noteq> row (bs @ C) (by1 b)"
        using old [of b b] new unfolding eq by cases simp_all
    qed
    moreover have "\<forall>b\<in>set (bs @ C). by2 b \<le> y2" using yb y assms(2) by (fastforce simp: band_at_def)
    moreover have "last_band (bs @ C) (length bs)"
      unfolding last_band_def using assms(2,3) yb by blast
    ultimately show ?thesis using False eq by (simp add: growing_def canonical_def)
  qed
qed

text \<open>coalesce\_new after a band routine has added the band \<open>C\<close>, which may be empty.\<close>

lemma coalesce_new_band:
  assumes "room N" "growing (boxes N) pb yb" "extends N N' C" "band_at y1 y2 C" "yb \<le> y1" "y1 \<le> y2"
  obtains N2 pb2 where "coalesce_new N' pb (numRects N) = (N2, pb2)" "room N2"
    "growing (boxes N2) pb2 y2" "extents N2 = extents N"
    "\<And>y. row (boxes N2) y = row (boxes N) y \<union> row C y"
proof (cases "C = []")
  case True
  with assms(1,3) have N': "numRects N' = numRects N" "boxes N' = boxes N" "room N'"
      "extents N' = extents N"
    using extends_numRects [OF assms(1,3)] by (simp_all add: extends_def)
  with that [of N' pb] assms(2,5,6) True show thesis
    by (simp add: coalesce_new_def growing_mono)
next
  case False
  have N': "room N'" "boxes N' = boxes N @ C @ []" "extents N' = extents N"
      "numRects N' \<noteq> numRects N"
    using extends_numRects [OF assms(1,3)] assms(3) False by (simp_all add: extends_def)
  have len: "length (boxes N) = numRects N" using assms(1) by (simp add: room_def boxes_def)
  have lb: "last_band (boxes N) pb" "pb \<le> length (boxes N)"
    using assms(2) by (auto simp: growing_def last_band_def)
  have "\<forall>c\<in>set C. by1 c = y1" using assms(4) by (simp add: band_at_def)
  note mc = miCoalesce_merge_band [OF N'(1,2) False this _ lb(2)]
  let ?R = "miCoalesce N' pb (numRects N)"
  show thesis
  proof (rule that [of "fst ?R" "snd ?R"])
    show "coalesce_new N' pb (numRects N) = (fst ?R, snd ?R)"
      using N'(4) by (simp add: coalesce_new_def)
    show "room (fst ?R)" "extents (fst ?R) = extents N"
      using mc(2,3) N'(3) by (simp_all add: len)
    have b: "boxes (fst ?R) = merge_band (boxes N) pb C" using mc(1) by (simp add: len)
    show "growing (boxes (fst ?R)) (snd ?R) y2"
      using growing_merge_band [OF assms(2,4) False assms(5)] mc(4) by (simp add: b len)
    show "row (boxes (fst ?R)) y = row (boxes N) y \<union> row C y" for y
      using row_merge_band [OF lb(1) assms(4)] by (simp add: b)
  qed
qed

section \<open>The contract of the band routines\<close>

definition nonoverlap_ok :: "nonoverlap_proc option \<Rightarrow> bool \<Rightarrow> bool" where
  "nonoverlap_ok fo keep \<longleftrightarrow>
     (case fo of
        None \<Rightarrow> \<not> keep
      | Some g \<Rightarrow> keep \<and> (\<forall>p r y1 y2. room p \<longrightarrow> extends p (g p r y1 y2) (map (at_y y1 y2) r)))"

lemma call_nonoverlap_extends:
  assumes "nonoverlap_ok fo keep" "room p" "band_at z1 z2 r" "y1 \<le> y2"
  obtains C where "extends p (call_nonoverlap fo p r y1 y2) C" "band_at y1 y2 C"
    "\<And>y. row C y = (if y1 \<le> y \<and> y < y2 \<and> keep then xspan r else {})"
proof (cases "y1 < y2 \<and> keep")
  case True
  then have b: "band_at y1 y2 (map (at_y y1 y2) r)" using assms(3) by (simp add: band_at_map_at_y)
  show thesis
  proof (rule that [OF _ b])
    show "extends p (call_nonoverlap fo p r y1 y2) (map (at_y y1 y2) r)"
      using assms(1,2) True
      by (cases fo) (auto simp: call_nonoverlap_def nonoverlap_ok_def)
    show "row (map (at_y y1 y2) r) y = (if y1 \<le> y \<and> y < y2 \<and> keep then xspan r else {})" for y
      using row_band_at [OF b, of y] True by simp
  qed
next
  case False
  with assms(1,4) have "call_nonoverlap fo p r y1 y2 = p"
    by (auto simp: call_nonoverlap_def nonoverlap_ok_def split: option.splits)
  moreover have "\<forall>y. row [] y = (if y1 \<le> y \<and> y < y2 \<and> keep then xspan r else {})"
    using False by auto
  ultimately show thesis
    using that [of "[]"] extends_refl [OF assms(2)] by simp
qed

text \<open>What is left of a source: banded, and coalesced apart from its first band.\<close>

definition source_rest :: "BOX list \<Rightarrow> int \<Rightarrow> bool" where
  "source_rest r yb \<longleftrightarrow>
     banded r \<and> (\<forall>b\<in>set r. yb < by2 b)
     \<and> (\<forall>b\<in>set r. by1 (hd r) < by1 b \<longrightarrow> row r (by1 b - 1) \<noteq> row r (by1 b))"

lemma source_rest_advance:
  assumes "source_rest r yb" "r \<noteq> []" "yb' \<le> by2 (hd r)"
  shows "source_rest (advance r yb') yb'"
    and "\<And>y. yb' \<le> y \<Longrightarrow> row (advance r yb') y = row r y"
    and "by2 (hd r) = yb' \<Longrightarrow> advance r yb' \<noteq> [] \<Longrightarrow> yb' \<le> by1 (hd (advance r yb'))"
proof -
  have r: "banded r" using assms(1) by (simp add: source_rest_def)
  have below: "by2 (hd r) \<le> by1 d" if "d \<in> set (after_band r)" for d
    using after_band_below [OF r assms(2) that] .
  show rows: "row (advance r yb') y = row r y" if "yb' \<le> y" for y
    using row_after_band [OF r assms(2), of y] that by (simp add: advance_def)
  show "by2 (hd r) = yb' \<Longrightarrow> advance r yb' \<noteq> [] \<Longrightarrow> yb' \<le> by1 (hd (advance r yb'))"
    using below [of "hd (after_band r)"] by (simp add: advance_def)
  show "source_rest (advance r yb') yb'"
  proof (cases "by2 (hd r) = yb'")
    case True
    then have adv: "advance r yb' = after_band r" by (simp add: advance_def)
    show ?thesis unfolding source_rest_def adv
    proof (intro conjI ballI impI)
      show "banded (after_band r)" using r by (rule banded_after_band)
      fix b assume b: "b \<in> set (after_band r)"
      then have br: "b \<in> set r" by (rule set_after_band)
      with below [OF b] True banded_proper [OF r br] show "yb' < by2 b"
        by (simp add: proper_box_def)
      assume "by1 (hd (after_band r)) < by1 b"
      moreover have "hd (after_band r) \<in> set (after_band r)" using b by (cases "after_band r") auto
      ultimately have "yb' < by1 b" using below [of "hd (after_band r)"] True by simp
      moreover have "by1 (hd r) < by1 b"
        using calculation True banded_proper [OF r, of "hd r"] assms(2)
        by (auto simp: proper_box_def)
      moreover have "row r (by1 b - 1) \<noteq> row r (by1 b)"
        using assms(1) br calculation by (simp add: source_rest_def)
      ultimately show "row (after_band r) (by1 b - 1) \<noteq> row (after_band r) (by1 b)"
        using rows [of "by1 b - 1"] rows [of "by1 b"] by (simp add: adv)
    qed
  next
    case False
    then have adv: "advance r yb' = r" by (simp add: advance_def)
    have "yb' < by2 b" if "b \<in> set r" for b
    proof (cases "b \<in> set (after_band r)")
      case True
      with below [OF True] banded_proper [OF r that] assms(3) show ?thesis
        by (simp add: proper_box_def)
    next
      case nin: False
      then have "b \<in> set (band r)" using that by (metis Un_iff band_after_band set_append)
      then have "by2 b = by2 (hd r)" using band_at_band [OF r assms(2)] by (simp add: band_at_def)
      with False assms(3) show ?thesis by simp
    qed
    with assms(1) show ?thesis by (simp add: adv source_rest_def)
  qed
qed

text \<open>The boolean operator on sets of x coordinates.\<close>

definition combine :: "(bool \<Rightarrow> bool \<Rightarrow> bool) \<Rightarrow> int set \<Rightarrow> int set \<Rightarrow> int set" where
  "combine f A B = {x. f (x \<in> A) (x \<in> B)}"

lemma combine_empty:
  assumes "\<not> f False False"
  shows "combine f A {} = (if f True False then A else {})"
    and "combine f {} B = (if f False True then B else {})"
  using assms by (auto simp: combine_def) (metis (full_types))+

text \<open>A band covered by one region, then coalescing.\<close>

lemma one_sided_band:
  assumes "nonoverlap_ok fo keep" "room N" "growing (boxes N) pb yb" "band_at z1 z2 B"
    "yb \<le> y1" "y1 \<le> y2"
  obtains N2 pb2 where
    "coalesce_new (call_nonoverlap fo N B y1 y2) pb (numRects N) = (N2, pb2)" "room N2"
    "growing (boxes N2) pb2 y2" "extents N2 = extents N"
    "\<And>y. row (boxes N2) y = row (boxes N) y \<union> (if y1 \<le> y \<and> y < y2 \<and> keep then xspan B else {})"
proof -
  obtain C where C: "extends N (call_nonoverlap fo N B y1 y2) C" "band_at y1 y2 C"
      "\<And>y. row C y = (if y1 \<le> y \<and> y < y2 \<and> keep then xspan B else {})"
    using call_nonoverlap_extends [OF assms(1,2,4,6)] by blast
  obtain N2 pb2 where N2: "coalesce_new (call_nonoverlap fo N B y1 y2) pb (numRects N) = (N2, pb2)"
      "room N2" "growing (boxes N2) pb2 y2" "extents N2 = extents N"
      "\<And>y. row (boxes N2) y = row (boxes N) y \<union> row C y"
    by (rule coalesce_new_band [OF assms(2,3) C(1,2) assms(5,6)]) blast
  show thesis
    by (rule that [OF N2(1-4)]) (simp add: N2(5) C(3))
qed

locale band_operator =
  fixes ovl :: overlap_proc
    and non1 non2 :: "nonoverlap_proc option"
    and f :: "bool \<Rightarrow> bool \<Rightarrow> bool"
  assumes f_outside: "\<not> f False False"
    and overlap_ok: "\<lbrakk>room p; \<forall>a\<in>set (boxes p). by2 a \<le> y1; y1 < y2;
        band_at z1 z2 B1; B1 \<noteq> []; band_at w1 w2 B2; B2 \<noteq> []\<rbrakk>
      \<Longrightarrow> \<exists>C. extends p (ovl p B1 B2 y1 y2) C \<and> band_at y1 y2 C
             \<and> xspan C = combine f (xspan B1) (xspan B2)"
    and non1_ok: "nonoverlap_ok non1 (f True False)"
    and non2_ok: "nonoverlap_ok non2 (f False True)"
begin

text \<open>The first half of the loop body: the part above the overlap.\<close>

lemma upper_part:
  assumes "room N" "growing (boxes N) pb yb" "source_rest r1 yb" "source_rest r2 yb"
    and "r1 \<noteq> []" "r2 \<noteq> []" "yb \<le> by1 (hd r1) \<or> yb \<le> by1 (hd r2)"
    and "yb' = min (by2 (hd r1)) (by2 (hd r2))"
  obtains new1 ytop N2 pb2 where
    "(if by1 (hd r1) < by1 (hd r2) then
         (call_nonoverlap non1 N (band r1)
            (max (by1 (hd r1)) yb) (min (by2 (hd r1)) (by1 (hd r2))), by1 (hd r2))
       else if by1 (hd r2) < by1 (hd r1) then
         (call_nonoverlap non2 N (band r2)
            (max (by1 (hd r2)) yb) (min (by2 (hd r2)) (by1 (hd r1))), by1 (hd r1))
       else (N, by1 (hd r1))) = (new1, ytop)"
    "coalesce_new new1 pb (numRects N) = (N2, pb2)" "room N2"
    "growing (boxes N2) pb2 (min ytop yb')" "extents N2 = extents N"
    "ytop = max (by1 (hd r1)) (by1 (hd r2))" "yb \<le> ytop"
    "\<And>y. row (boxes N2) y = row (boxes N) y \<union>
       (if yb \<le> y \<and> y < min ytop yb' then combine f (row r1 y) (row r2 y) else {})"
proof -
  let ?b1 = "hd r1" and ?b2 = "hd r2"
  have b: "banded r1" "banded r2" using assms(3,4) by (simp_all add: source_rest_def)
  have p: "by1 ?b1 < by2 ?b1" "by1 ?b2 < by2 ?b2"
    using banded_proper [OF b(1), of ?b1] banded_proper [OF b(2), of ?b2] assms(5,6)
    by (simp_all add: proper_box_def)
  have q: "yb < by2 ?b1" "yb < by2 ?b2" using assms(3-6) by (simp_all add: source_rest_def)
  note rows = row_head [OF b(1) assms(5)] row_head [OF b(2) assms(6)]
  consider (first) "by1 ?b1 < by1 ?b2" | (second) "by1 ?b2 < by1 ?b1" | (same) "by1 ?b1 = by1 ?b2"
    by linarith
  then show thesis
  proof cases
    case first
    let ?t = "max (by1 ?b1) yb" and ?u = "min (by2 ?b1) (by1 ?b2)"
    have u: "min (by1 ?b2) yb' = ?u" "yb \<le> ?t" "?t \<le> ?u" using first p q assms(7,8) by auto
    obtain N2 pb2 where N2: "coalesce_new (call_nonoverlap non1 N (band r1) ?t ?u) pb (numRects N)
          = (N2, pb2)" "room N2" "growing (boxes N2) pb2 ?u" "extents N2 = extents N"
        "\<And>y. row (boxes N2) y = row (boxes N) y \<union>
           (if ?t \<le> y \<and> y < ?u \<and> f True False then xspan (band r1) else {})"
      using one_sided_band [OF non1_ok assms(1,2) band_at_band [OF b(1) assms(5)] u(2,3)] by blast
    show thesis
    proof (rule that [OF _ N2(1,2)])
      show "row (boxes N2) y = row (boxes N) y \<union>
          (if yb \<le> y \<and> y < min (by1 ?b2) yb' then combine f (row r1 y) (row r2 y) else {})" for y
        using first p unfolding N2(5) u(1)
        by (auto simp: rows combine_empty [of f, OF f_outside])
    qed (use first u N2 assms(7) in auto)
  next
    case second
    let ?t = "max (by1 ?b2) yb" and ?u = "min (by2 ?b2) (by1 ?b1)"
    have u: "min (by1 ?b1) yb' = ?u" "yb \<le> ?t" "?t \<le> ?u" using second p q assms(7,8) by auto
    obtain N2 pb2 where N2: "coalesce_new (call_nonoverlap non2 N (band r2) ?t ?u) pb (numRects N)
          = (N2, pb2)" "room N2" "growing (boxes N2) pb2 ?u" "extents N2 = extents N"
        "\<And>y. row (boxes N2) y = row (boxes N) y \<union>
           (if ?t \<le> y \<and> y < ?u \<and> f False True then xspan (band r2) else {})"
      using one_sided_band [OF non2_ok assms(1,2) band_at_band [OF b(2) assms(6)] u(2,3)] by blast
    show thesis
    proof (rule that [OF _ N2(1,2)])
      show "row (boxes N2) y = row (boxes N) y \<union>
          (if yb \<le> y \<and> y < min (by1 ?b1) yb' then combine f (row r1 y) (row r2 y) else {})" for y
        using second p unfolding N2(5) u(1)
        by (auto simp: rows combine_empty [of f, OF f_outside])
    qed (use second u N2 assms(7) in auto)
  next
    case same
    show thesis
    proof (rule that [of N "by1 ?b1" N pb])
      show "coalesce_new N pb (numRects N) = (N, pb)" by (simp add: coalesce_new_def)
      show "growing (boxes N) pb (min (by1 ?b1) yb')"
        using growing_mono [OF assms(2)] same p q assms(7,8) by auto
      show "row (boxes N) y = row (boxes N) y \<union>
          (if yb \<le> y \<and> y < min (by1 ?b1) yb' then combine f (row r1 y) (row r2 y) else {})" for y
        using same p by (auto simp: rows combine_empty [of f, OF f_outside])
    qed (use same assms(1,7) in auto)
  qed
qed

lemma body_correct:
  assumes "room N" "growing (boxes N) pb yb" "source_rest r1 yb" "source_rest r2 yb"
    and "r1 \<noteq> []" "r2 \<noteq> []" "yb \<le> by1 (hd r1) \<or> yb \<le> by1 (hd r2)"
    and "yb' = min (by2 (hd r1)) (by2 (hd r2))"
  obtains N' pb' where "region_op_body ovl non1 non2 r1 r2 yb pb N = (N', pb', yb')" "room N'"
    "growing (boxes N') pb' yb'" "extents N' = extents N"
    "\<And>y. row (boxes N') y = row (boxes N) y \<union>
       (if yb \<le> y \<and> y < yb' then combine f (row r1 y) (row r2 y) else {})"
proof -
  obtain new1 ytop N2 pb2 where U:
    "(if by1 (hd r1) < by1 (hd r2) then
         (call_nonoverlap non1 N (band r1)
            (max (by1 (hd r1)) yb) (min (by2 (hd r1)) (by1 (hd r2))), by1 (hd r2))
       else if by1 (hd r2) < by1 (hd r1) then
         (call_nonoverlap non2 N (band r2)
            (max (by1 (hd r2)) yb) (min (by2 (hd r2)) (by1 (hd r1))), by1 (hd r1))
       else (N, by1 (hd r1))) = (new1, ytop)"
    "coalesce_new new1 pb (numRects N) = (N2, pb2)" "room N2"
    "growing (boxes N2) pb2 (min ytop yb')" "extents N2 = extents N"
    "ytop = max (by1 (hd r1)) (by1 (hd r2))" "yb \<le> ytop"
    "\<And>y. row (boxes N2) y = row (boxes N) y \<union>
       (if yb \<le> y \<and> y < min ytop yb' then combine f (row r1 y) (row r2 y) else {})"
    by (rule upper_part [OF assms]) blast
  have b: "banded r1" "banded r2" using assms(3,4) by (simp_all add: source_rest_def)
  note bands = band_at_band [OF b(1) assms(5)] band_nonempty [OF assms(5)]
    band_at_band [OF b(2) assms(6)] band_nonempty [OF assms(6)]
  note rows = row_head [OF b(1) assms(5)] row_head [OF b(2) assms(6)]
  show thesis
  proof (cases "yb' > ytop")
    case True
    then have g: "growing (boxes N2) pb2 ytop" using U(4) by simp
    then have "\<forall>a\<in>set (boxes N2). by2 a \<le> ytop" by (simp add: growing_def)
    then obtain C where C: "extends N2 (ovl N2 (band r1) (band r2) ytop yb') C"
        "band_at ytop yb' C" "xspan C = combine f (xspan (band r1)) (xspan (band r2))"
      using overlap_ok [OF U(3) _ True bands] by blast
    obtain N4 pb4 where N4: "coalesce_new (ovl N2 (band r1) (band r2) ytop yb') pb2 (numRects N2)
          = (N4, pb4)" "room N4" "growing (boxes N4) pb4 yb'" "extents N4 = extents N2"
        "\<And>y. row (boxes N4) y = row (boxes N2) y \<union> row C y"
      using coalesce_new_band [OF U(3) g C(1,2)] True by (metis less_imp_le order_refl)
    show thesis
    proof (rule that)
      show "region_op_body ovl non1 non2 r1 r2 yb pb N = (N4, pb4, yb')"
        unfolding region_op_body_def Let_def U(1) assms(8) [symmetric]
        using U(2) N4(1) True by simp
      show "extents N4 = extents N" using N4(4) U(5) by simp
      show "row (boxes N4) y = row (boxes N) y \<union>
          (if yb \<le> y \<and> y < yb' then combine f (row r1 y) (row r2 y) else {})" for y
      proof (cases "ytop \<le> y \<and> y < yb'")
        case yes: True
        then have "row r1 y = xspan (band r1)" "row r2 y = xspan (band r2)"
          using rows U(6) assms(8) by simp_all
        with yes U(7) show ?thesis by (simp add: N4(5) U(8) row_band_at [OF C(2)] C(3))
      next
        case no: False
        with True show ?thesis by (auto simp: N4(5) U(8) row_band_at [OF C(2)])
      qed
    qed (use N4 in simp_all)
  next
    case False
    then have m: "min ytop yb' = yb'" by simp
    show thesis
    proof (rule that)
      show "region_op_body ovl non1 non2 r1 r2 yb pb N = (N2, pb2, yb')"
        unfolding region_op_body_def Let_def U(1) assms(8) [symmetric]
        using U(2) False coalesce_new_def [of N2 pb2 "numRects N2"] by simp
      show "row (boxes N2) y = row (boxes N) y \<union>
          (if yb \<le> y \<and> y < yb' then combine f (row r1 y) (row r2 y) else {})" for y
        using U(8) [of y] m by simp
    qed (use U m in simp_all)
  qed
qed

text \<open>
  The main loop: when it ends one source is exhausted, and the destination holds the
  result above \<open>yb'\<close>.
\<close>

lemma loop_correct:
  assumes "room N" "growing (boxes N) pb yb" "source_rest r1 yb" "source_rest r2 yb"
    and "r1 \<noteq> [] \<Longrightarrow> r2 \<noteq> [] \<Longrightarrow> yb \<le> by1 (hd r1) \<or> yb \<le> by1 (hd r2)"
  shows "\<exists>r1' r2' yb' pb' N'. region_op_loop ovl non1 non2 r1 r2 yb pb N = (r1', r2', yb', pb', N')
    \<and> (r1' = [] \<or> r2' = []) \<and> room N' \<and> growing (boxes N') pb' yb' \<and> extents N' = extents N
    \<and> yb \<le> yb' \<and> source_rest r1' yb' \<and> source_rest r2' yb'
    \<and> (\<forall>y\<ge>yb'. row r1' y = row r1 y \<and> row r2' y = row r2 y)
    \<and> (\<forall>y. row (boxes N') y = row (boxes N) y \<union>
         (if yb \<le> y \<and> y < yb' then combine f (row r1 y) (row r2 y) else {}))"
  using assms
proof (induction "length r1 + length r2" arbitrary: r1 r2 yb pb N rule: less_induct)
  case less
  show ?case
  proof (cases "r1 = [] \<or> r2 = []")
    case True
    then have "region_op_loop ovl non1 non2 r1 r2 yb pb N = (r1, r2, yb, pb, N)"
      by (subst region_op_loop.simps) simp
    with True less.prems show ?thesis by auto
  next
    case False
    then have ne: "r1 \<noteq> []" "r2 \<noteq> []" by simp_all
    define yb1 where "yb1 = min (by2 (hd r1)) (by2 (hd r2))"
    let ?s1 = "advance r1 yb1" and ?s2 = "advance r2 yb1"
    obtain N1 pb1 where B: "region_op_body ovl non1 non2 r1 r2 yb pb N = (N1, pb1, yb1)" "room N1"
        "growing (boxes N1) pb1 yb1" "extents N1 = extents N"
        "\<And>y. row (boxes N1) y = row (boxes N) y \<union>
           (if yb \<le> y \<and> y < yb1 then combine f (row r1 y) (row r2 y) else {})"
      using body_correct [OF less.prems(1-4) ne less.prems(5) [OF ne] yb1_def] by blast
    have le: "yb1 \<le> by2 (hd r1)" "yb1 \<le> by2 (hd r2)" by (simp_all add: yb1_def)
    note s1 = source_rest_advance [OF less.prems(3) ne(1) le(1)]
      and s2 = source_rest_advance [OF less.prems(4) ne(2) le(2)]
    have step: "region_op_loop ovl non1 non2 r1 r2 yb pb N
        = region_op_loop ovl non1 non2 ?s1 ?s2 yb1 pb1 N1"
      by (subst region_op_loop.simps) (simp add: B(1) ne yb1_def [symmetric])
    have yb: "yb < yb1" using less.prems(3,4) ne by (simp add: source_rest_def yb1_def)
    have meas: "length ?s1 + length ?s2 < length r1 + length r2"
      using length_after_band [OF ne(1)] length_after_band [OF ne(2)]
      by (auto simp: advance_def yb1_def min_def)
    have heads: "?s1 \<noteq> [] \<Longrightarrow> ?s2 \<noteq> [] \<Longrightarrow> yb1 \<le> by1 (hd ?s1) \<or> yb1 \<le> by1 (hd ?s2)"
      using s1(3) s2(3) by (metis min_def yb1_def)
    obtain r1' r2' yb' pb' N' where IH:
      "region_op_loop ovl non1 non2 ?s1 ?s2 yb1 pb1 N1 = (r1', r2', yb', pb', N')"
      "r1' = [] \<or> r2' = []" "room N'" "growing (boxes N') pb' yb'" "extents N' = extents N1"
      "yb1 \<le> yb'" "source_rest r1' yb'" "source_rest r2' yb'"
      "\<forall>y\<ge>yb'. row r1' y = row ?s1 y \<and> row r2' y = row ?s2 y"
      "\<forall>y. row (boxes N') y = row (boxes N1) y \<union>
         (if yb1 \<le> y \<and> y < yb' then combine f (row ?s1 y) (row ?s2 y) else {})"
      using less.hyps [OF meas B(2,3) s1(1) s2(1) heads] by blast
    have rows: "row (boxes N') y = row (boxes N) y \<union>
        (if yb \<le> y \<and> y < yb' then combine f (row r1 y) (row r2 y) else {})" for y
      using IH(6,10) yb s1(2) [of y] s2(2) [of y] by (auto simp: B(5))
    have "\<forall>y\<ge>yb'. row r1' y = row r1 y \<and> row r2' y = row r2 y"
      using IH(6,9) s1(2) s2(2) by auto
    with rows IH(1-8) yb B(4) show ?thesis unfolding step by auto
  qed
qed

end

section \<open>The bands left over\<close>

text \<open>A box of the source with its top clipped at \<open>yb\<close>.\<close>

definition clip :: "int \<Rightarrow> BOX \<Rightarrow> BOX" where
  "clip yb b = at_y (max (by1 b) yb) (by2 b) b"

lemma clip_simps [simp]:
  "bx1 (clip yb b) = bx1 b" "bx2 (clip yb b) = bx2 b"
  "by1 (clip yb b) = max (by1 b) yb" "by2 (clip yb b) = by2 b"
  by (simp_all add: clip_def)

lemma clip_id: "yb \<le> by1 b \<Longrightarrow> clip yb b = b"
  by (intro BOX_eqI) simp_all

lemma map_clip_band:
  assumes "banded r" "r \<noteq> []"
  shows "map (at_y (max (by1 (hd r)) yb) (by2 (hd r))) (band r) = map (clip yb) (band r)"
  using band_at_band [OF assms] by (auto simp: band_at_def clip_def)

lemma leftover_extends:
  assumes g: "\<And>p r y1 y2. room p \<Longrightarrow> extends p (g p r y1 y2) (map (at_y y1 y2) r)"
    and "room N" "banded r"
  shows "extends N (leftover g N r yb) (map (clip yb) r)"
  using assms(2-3)
proof (induction "length r" arbitrary: N r rule: less_induct)
  case less
  show ?case
  proof (cases "r = []")
    case True
    with less.prems(1) show ?thesis by (subst leftover.simps) (simp add: extends_refl)
  next
    case False
    let ?N1 = "g N (band r) (max (by1 (hd r)) yb) (by2 (hd r))"
    have N1: "extends N ?N1 (map (clip yb) (band r))"
      using g [OF less.prems(1)] by (metis map_clip_band [OF less.prems(2) False])
    then have "room ?N1" by (simp add: extends_def)
    then have "extends ?N1 (leftover g ?N1 (after_band r) yb) (map (clip yb) (after_band r))"
      using less.hyps [OF length_after_band [OF False]] banded_after_band [OF less.prems(2)] by blast
    moreover have "leftover g N r yb = leftover g ?N1 (after_band r) yb"
      using False by (subst leftover.simps) simp
    ultimately show ?thesis
      using extends_trans [OF N1] by (metis band_after_band map_append)
  qed
qed

text \<open>
  Coalescing after the left-over bands: only the first of them can merge, and the others
  were coalesced in the source.
\<close>

lemma leftover_coalesced:
  assumes "room N" "growing (boxes N) pb yb" "source_rest r yb" "r \<noteq> []"
    and "extends N N' (map (clip yb) r)"
  shows "room (fst (coalesce_new N' pb (numRects N)))"
    and "canonical (boxes (fst (coalesce_new N' pb (numRects N))))"
    and "extents (fst (coalesce_new N' pb (numRects N))) = extents N"
    and "row (boxes (fst (coalesce_new N' pb (numRects N)))) y =
           row (boxes N) y \<union> (if yb \<le> y then row r y else {})"
proof -
  let ?h = "hd r" and ?bs = "boxes N"
  let ?C = "map (clip yb) (band r)" and ?D = "after_band r" and ?t = "max (by1 (hd r)) yb"
  let ?R = "fst (coalesce_new N' pb (numRects N))"
  have r: "banded r" and q: "yb < by2 ?h" using assms(3,4) by (simp_all add: source_rest_def)
  have p: "by1 ?h < by2 ?h" using banded_proper [OF r, of ?h] assms(4) by (simp add: proper_box_def)
  have D: "by2 ?h \<le> by1 d" if "d \<in> set ?D" for d using after_band_below [OF r assms(4) that] .
  have "map (clip yb) ?D = ?D"
  proof (rule map_idI)
    fix d assume "d \<in> set ?D"
    with D [of d] q show "clip yb d = d" by (simp add: clip_id)
  qed
  then have cs: "map (clip yb) r = ?C @ ?D" by (metis band_after_band map_append)
  have C: "band_at ?t (by2 ?h) ?C" "?C \<noteq> []"
    using band_at_map_at_y [OF band_at_band [OF r assms(4)], of ?t "by2 ?h"] p q
      map_clip_band [OF r assms(4), of yb] band_nonempty [OF assms(4)] by auto
  have N': "room N'" "boxes N' = ?bs @ ?C @ ?D" "extents N' = extents N" "numRects N' \<noteq> numRects N"
    using assms(5) extends_numRects [OF assms(1,5)] cs band_nonempty [OF assms(4)]
    by (simp_all add: extends_def)
  have len: "length ?bs = numRects N" using assms(1) by (simp add: room_def boxes_def)
  have lb: "last_band ?bs pb" "pb \<le> length ?bs"
    using assms(2) by (auto simp: growing_def last_band_def)
  have C1: "\<forall>c\<in>set ?C. by1 c = ?t"
    using C(1) unfolding band_at_def by blast
  have D1: "\<forall>d\<in>set ?D. by1 d \<noteq> ?t"
  proof
    fix d assume "d \<in> set ?D"
    with D [of d] p q show "by1 d \<noteq> ?t" by simp
  qed
  note mc = miCoalesce_merge_band [OF N'(1,2) C(2) C1 D1 lb(2), unfolded len]
  have R: "?R = fst (miCoalesce N' pb (numRects N))" using N'(4) by (simp add: coalesce_new_def)
  let ?M = "merge_band ?bs pb ?C"
  have bR: "boxes ?R = ?M @ ?D" using mc(1) by (simp add: R)
  show "room ?R" "extents ?R = extents N" using mc(2,3) N'(3) by (simp_all add: R)
  have g: "growing ?M (if mergeable ?bs pb ?C then pb else length ?bs) (by2 ?h)"
    using growing_merge_band [OF assms(2) C] by simp
  have rC: "row ?C y = (if ?t \<le> y \<and> y < by2 ?h then xspan (band r) else {})" for y
    using row_band_at [OF C(1), of y] map_clip_band [OF r assms(4), of yb]
    by (metis xspan_map_at_y)
  have rr: "row ?C y \<union> row ?D y = (if yb \<le> y then row r y else {})" for y
  proof (cases "y < by2 ?h")
    case True
    then have "row ?D y = {}" using D by (intro row_below) fastforce
    with True rC [of y] row_head [OF r assms(4) True] show ?thesis by auto
  next
    case False
    with rC [of y] row_after_band [OF r assms(4), of y] q show ?thesis by simp
  qed
  have rows: "row (boxes ?R) y = row ?bs y \<union> (if yb \<le> y then row r y else {})" for y
    using rr [of y] row_merge_band [OF lb(1) C(1), of y] by (simp add: bR Un_assoc)
  then show "row (boxes ?R) y = row ?bs y \<union> (if yb \<le> y then row r y else {})" .
  have "banded (?M @ ?D)"
    using g banded_after_band [OF r] D
    by (fastforce simp: growing_def canonical_def banded_append before_def)
  moreover have "coalesced (?M @ ?D)"
  proof (unfold coalesced_def, intro ballI)
    fix b assume "b \<in> set (?M @ ?D)"
    then consider "b \<in> set ?M" | "b \<in> set ?D" by auto
    then show "row (?M @ ?D) (by1 b - 1) \<noteq> row (?M @ ?D) (by1 b)"
    proof cases
      case 1
      from g have M: "banded ?M" "coalesced ?M" "\<forall>b\<in>set ?M. by2 b \<le> by2 ?h"
        by (simp_all add: growing_def canonical_def)
      with 1 banded_proper [OF M(1) 1] have "coalesced ?M" "by1 b < by2 ?h"
        by (auto simp: proper_box_def)
      moreover have "row (?M @ ?D) y = row ?M y" if "y < by2 ?h" for y
        using row_below [of ?D y] D that by fastforce
      ultimately show ?thesis
        using coalesced_transfer [of ?M "by2 ?h" "?M @ ?D" b b] 1 by blast
    next
      case 2
      have low: "by2 ?h \<le> by1 b" using D [OF 2] .
      have "row ?bs y = {}" if "yb \<le> y" for y
        using assms(2) that by (intro row_above) (auto simp: growing_def)
      then have "row (?M @ ?D) y = row r y" if "yb \<le> y" for y
        using rows [of y] that by (simp add: bR)
      moreover have "row r (by1 b - 1) \<noteq> row r (by1 b)"
        using assms(3) set_after_band [OF 2] low p by (simp add: source_rest_def)
      ultimately show ?thesis using low q by simp
    qed
  qed
  ultimately show "canonical (boxes ?R)" by (simp add: bR canonical_def)
qed

section \<open>miRegionOp\<close>

definition region_op ::
  "overlap_proc \<Rightarrow> nonoverlap_proc option \<Rightarrow> nonoverlap_proc option
   \<Rightarrow> BOX list \<Rightarrow> BOX list \<Rightarrow> int \<Rightarrow> REGION \<Rightarrow> REGION"
where
  "region_op ovl non1 non2 r1 r2 ybot new0 =
     (let (r1', r2', ybot', prevBand, new1) = region_op_loop ovl non1 non2 r1 r2 ybot 0 new0
      in region_op_tail non1 non2 r1' r2' ybot' prevBand new1)"

lemma canonical_source_rest:
  assumes "canonical r" "\<forall>b\<in>set r. yb \<le> by1 b"
  shows "source_rest r yb"
  using assms banded_proper [of r]
  by (fastforce simp: canonical_def coalesced_def source_rest_def proper_box_def)

lemma banded_hd_least: "\<lbrakk>banded r; b \<in> set r\<rbrakk> \<Longrightarrow> by1 (hd r) \<le> by1 b"
  by (cases r) (auto simp: banded_Cons before_def proper_box_def)

context band_operator
begin

lemma tail_correct:
  assumes "room N" "growing (boxes N) pb yb" "source_rest r1 yb" "source_rest r2 yb"
    and "r1 = [] \<or> r2 = []"
  shows "room (region_op_tail non1 non2 r1 r2 yb pb N)
    \<and> canonical (boxes (region_op_tail non1 non2 r1 r2 yb pb N))
    \<and> extents (region_op_tail non1 non2 r1 r2 yb pb N) = extents N
    \<and> (\<forall>y. row (boxes (region_op_tail non1 non2 r1 r2 yb pb N)) y =
        row (boxes N) y \<union> (if yb \<le> y then combine f (row r1 y) (row r2 y) else {}))"
proof -
  have b: "banded r1" "banded r2" using assms(3,4) by (simp_all add: source_rest_def)
  have none: "fst (coalesce_new N pb (numRects N)) = N" by (simp add: coalesce_new_def)
  have same: "canonical (boxes N)" using assms(2) by (simp add: growing_def)
  have keep: "room R \<and> canonical (boxes R) \<and> extents R = extents N
      \<and> (\<forall>y. row (boxes R) y = row (boxes N) y \<union> (if yb \<le> y then row r y else {}))"
    if "\<And>p r y1 y2. room p \<Longrightarrow> extends p (g p r y1 y2) (map (at_y y1 y2) r)"
      "R = fst (coalesce_new (leftover g N r yb) pb (numRects N))"
      "source_rest r yb" "r \<noteq> []" "banded r" for g r R
    using leftover_coalesced [OF assms(1,2) that(3,4) leftover_extends [OF that(1) assms(1) that(5)]]
    unfolding that(2) by blast
  consider (first) "r1 \<noteq> []" "r2 = []" | (second) "r1 = []" "r2 \<noteq> []" | (none) "r1 = []" "r2 = []"
    using assms(5) by blast
  then show ?thesis
  proof cases
    case first
    show ?thesis
    proof (cases non1)
      case None
      with non1_ok none same assms(1) first show ?thesis
        by (simp add: region_op_tail_def nonoverlap_ok_def combine_empty [of f, OF f_outside])
    next
      case (Some g)
      then have "f True False"
          "\<And>p r y1 y2. room p \<Longrightarrow> extends p (g p r y1 y2) (map (at_y y1 y2) r)"
        using non1_ok by (simp_all add: nonoverlap_ok_def)
      with keep [of g _ r1] first Some assms(3) b show ?thesis
        by (simp add: region_op_tail_def combine_empty [of f, OF f_outside])
    qed
  next
    case second
    show ?thesis
    proof (cases non2)
      case None
      with non2_ok none same assms(1) second show ?thesis
        by (simp add: region_op_tail_def nonoverlap_ok_def combine_empty [of f, OF f_outside])
    next
      case (Some g)
      then have "f False True"
          "\<And>p r y1 y2. room p \<Longrightarrow> extends p (g p r y1 y2) (map (at_y y1 y2) r)"
        using non2_ok by (simp_all add: nonoverlap_ok_def)
      with keep [of g _ r2] second Some assms(4) b show ?thesis
        by (simp add: region_op_tail_def combine_empty [of f, OF f_outside])
    qed
  next
    case none
    with same assms(1) show ?thesis
      by (simp add: region_op_tail_def coalesce_new_def combine_empty [of f, OF f_outside])
  qed
qed

text \<open>
  miRegionOp on two canonical lists of boxes computes \<open>f\<close> point by point and returns the
  canonical form.
\<close>

lemma region_op_correct:
  assumes "canonical r1" "canonical r2" "r1 \<noteq> []" "r2 \<noteq> []" "room N" "boxes N = []"
    and "yb = min (by1 (hd r1)) (by1 (hd r2))"
  shows "room (region_op ovl non1 non2 r1 r2 yb N)"
    and "canonical (boxes (region_op ovl non1 non2 r1 r2 yb N))"
    and "extents (region_op ovl non1 non2 r1 r2 yb N) = extents N"
    and "row (boxes (region_op ovl non1 non2 r1 r2 yb N)) y = combine f (row r1 y) (row r2 y)"
proof -
  have b: "banded r1" "banded r2" using assms(1,2) by (simp_all add: canonical_def)
  have low: "\<forall>b\<in>set r1. yb \<le> by1 b" "\<forall>b\<in>set r2. yb \<le> by1 b"
    using banded_hd_least [OF b(1)] banded_hd_least [OF b(2)] assms(7) by fastforce+
  have g: "growing (boxes N) 0 yb" by (simp add: assms(6))
  have h: "yb \<le> by1 (hd r1) \<or> yb \<le> by1 (hd r2)" using assms(7) by simp
  obtain r1' r2' yb' pb' N' where L:
    "region_op_loop ovl non1 non2 r1 r2 yb 0 N = (r1', r2', yb', pb', N')"
    "r1' = [] \<or> r2' = []" "room N'" "growing (boxes N') pb' yb'" "extents N' = extents N"
    "yb \<le> yb'" "source_rest r1' yb'" "source_rest r2' yb'"
    "\<forall>y\<ge>yb'. row r1' y = row r1 y \<and> row r2' y = row r2 y"
    "\<forall>y. row (boxes N') y = row (boxes N) y \<union>
       (if yb \<le> y \<and> y < yb' then combine f (row r1 y) (row r2 y) else {})"
    using loop_correct [OF assms(5) g canonical_source_rest [OF assms(1) low(1)]
        canonical_source_rest [OF assms(2) low(2)] h] by blast
  have eq: "region_op ovl non1 non2 r1 r2 yb N = region_op_tail non1 non2 r1' r2' yb' pb' N'"
    by (simp add: region_op_def L(1))
  note T = tail_correct [OF L(3,4,7,8,2)]
  show "room (region_op ovl non1 non2 r1 r2 yb N)"
    "canonical (boxes (region_op ovl non1 non2 r1 r2 yb N))"
    "extents (region_op ovl non1 non2 r1 r2 yb N) = extents N"
    using T L(5) by (simp_all add: eq)
  have "row r1 y = {}" "row r2 y = {}" if "y < yb"
    using low that by (auto intro!: row_below)
  then show "row (boxes (region_op ovl non1 non2 r1 r2 yb N)) y = combine f (row r1 y) (row r2 y)"
    using T L(6,9,10) combine_empty [of f, OF f_outside] by (auto simp: eq assms(6))
qed

end

end
