(* ===== verification/XRegionCorrect.thy ===== *)
theory XRegionCorrect
  imports XRegionOp
begin

text \<open>
  The exported operations of \<^verbatim>\<open>Region.c\<close>: the well-formedness invariant of a region
  (\<open>wf_region\<close>: canonical boxes, exact extents, the array large enough), that every
  operation keeps it, and what each operation computes on the set of points, for every
  way its arguments may alias.
\<close>

section \<open>The heap\<close>

lemma deref_put [simp]: "deref (put h p r) q = (if q = p then r else deref h q)"
  by (simp add: deref_def put_def)

lemma cells_put [simp]: "cells (put h p r) q = (if q = p then Some r else cells h q)"
  by (simp add: put_def)

lemma brk_put [simp]: "brk (put h p r) = brk h"
  by (simp add: put_def)

lemma put_put [simp]: "put (put h p r) p s = put h p s"
  by (simp add: put_def)

section \<open>Well-formed regions\<close>

definition bounding_box :: "BOX \<Rightarrow> BOX list \<Rightarrow> bool" where
  "bounding_box e bs \<longleftrightarrow>
     (\<forall>b\<in>set bs. bx1 e \<le> bx1 b \<and> bx2 b \<le> bx2 e \<and> by1 e \<le> by1 b \<and> by2 b \<le> by2 e)
     \<and> (\<exists>b\<in>set bs. bx1 b = bx1 e) \<and> (\<exists>b\<in>set bs. bx2 b = bx2 e)
     \<and> (\<exists>b\<in>set bs. by1 b = by1 e) \<and> (\<exists>b\<in>set bs. by2 b = by2 e)"

definition wf_region :: "REGION \<Rightarrow> bool" where
  "wf_region r \<longleftrightarrow>
     numRects r \<le> length (rects r) \<and> numRects r \<le> rsize r \<and> canonical (boxes r)
     \<and> (boxes r \<noteq> [] \<longrightarrow> bounding_box (extents r) (boxes r))"

lemma length_boxes: "wf_region r \<Longrightarrow> length (boxes r) = numRects r"
  by (simp add: wf_region_def boxes_def)

lemma boxes_Nil_iff: "wf_region r \<Longrightarrow> boxes r = [] \<longleftrightarrow> numRects r = 0"
  using length_boxes [of r] by auto

lemma bounding_box_unique:
  "\<lbrakk>bounding_box e bs; bounding_box e' bs\<rbrakk> \<Longrightarrow> e = e'"
  unfolding bounding_box_def by (intro BOX_eqI) (metis order_antisym)+

lemma bounding_box_by1:
  assumes "bounding_box e bs" "banded bs" "bs \<noteq> []"
  shows "by1 e = by1 (hd bs)"
  using assms banded_hd_least [OF assms(2)]
  by (metis bounding_box_def hd_in_set order_antisym)

lemma points_in_extents:
  assumes "wf_region r" "(x, y) \<in> points r"
  shows "INBOX (extents r) x y"
proof -
  from assms(2) obtain b where b: "b \<in> set (boxes r)" "by1 b \<le> y" "y < by2 b" "bx1 b \<le> x" "x < bx2 b"
    by (auto simp: points_def row_def)
  then have "bounding_box (extents r) (boxes r)" using assms(1) by (auto simp: wf_region_def)
  with b show ?thesis by (fastforce simp: bounding_box_def INBOX_def)
qed

lemma no_overlap_disjoint:
  assumes "wf_region r1" "wf_region r2" "\<not> EXTENTCHECK (extents r1) (extents r2)"
  shows "points r1 \<inter> points r2 = {}"
  using points_in_extents [OF assms(1)] points_in_extents [OF assms(2)] assms(3)
  by (fastforce simp: INBOX_def EXTENTCHECK_def)

lemma points_empty: "wf_region r \<Longrightarrow> numRects r = 0 \<Longrightarrow> points r = {}"
  by (simp add: points_def boxes_def)

section \<open>Extents\<close>

lemma extents_loop_y [simp]:
  "by1 (extents_loop bs e) = by1 e" "by2 (extents_loop bs e) = by2 e"
  by (induction bs arbitrary: e) (simp_all add: Let_def)

lemma extents_loop_x:
  "bx1 (extents_loop bs e) \<le> bx1 e \<and> bx2 e \<le> bx2 (extents_loop bs e)
   \<and> (\<forall>b\<in>set bs. bx1 (extents_loop bs e) \<le> bx1 b \<and> bx2 b \<le> bx2 (extents_loop bs e))"
proof (induction bs arbitrary: e)
  case (Cons b bs)
  let ?e1 = "if bx1 b < bx1 e then e\<lparr>bx1 := bx1 b\<rparr> else e"
  let ?e2 = "if bx2 b > bx2 ?e1 then ?e1\<lparr>bx2 := bx2 b\<rparr> else ?e1"
  have "bx1 ?e2 \<le> bx1 e" "bx1 ?e2 \<le> bx1 b" "bx2 e \<le> bx2 ?e2" "bx2 b \<le> bx2 ?e2" by auto
  with Cons.IH [of ?e2] show ?case
    by (simp only: extents_loop.simps Let_def list.set ball_simps) (blast intro: order_trans)
qed simp

lemma extents_loop_attained:
  "(bx1 (extents_loop bs e) = bx1 e \<or> (\<exists>b\<in>set bs. bx1 b = bx1 (extents_loop bs e)))
   \<and> (bx2 (extents_loop bs e) = bx2 e \<or> (\<exists>b\<in>set bs. bx2 b = bx2 (extents_loop bs e)))"
proof (induction bs arbitrary: e)
  case (Cons b bs)
  let ?e1 = "if bx1 b < bx1 e then e\<lparr>bx1 := bx1 b\<rparr> else e"
  let ?e2 = "if bx2 b > bx2 ?e1 then ?e1\<lparr>bx2 := bx2 b\<rparr> else ?e1"
  have "bx1 ?e2 = bx1 e \<or> bx1 ?e2 = bx1 b" "bx2 ?e2 = bx2 e \<or> bx2 ?e2 = bx2 b" by auto
  with Cons.IH [of ?e2] show ?case
    by (simp only: extents_loop.simps Let_def list.set bex_simps) metis
qed simp

lemma banded_last_greatest: "\<lbrakk>banded r; b \<in> set r\<rbrakk> \<Longrightarrow> by2 b \<le> by2 (last r)"
proof (induction r)
  case (Cons c r)
  show ?case
  proof (cases "r = []")
    case False
    then have "before c (last r)" "proper_box (last r)"
      using Cons.prems(1) by (auto simp: banded_Cons banded_proper)
    then have "by2 c \<le> by2 (last r)" by (auto simp: before_def proper_box_def)
    with Cons False show ?thesis by (auto simp: banded_Cons)
  qed (use Cons.prems in simp)
qed simp

lemma miSetExtents_simps [simp]:
  "numRects (miSetExtents r) = numRects r" "rects (miSetExtents r) = rects r"
  "rsize (miSetExtents r) = rsize r" "boxes (miSetExtents r) = boxes r"
  by (simp_all add: miSetExtents_def Let_def boxes_def)

lemma miSetExtents_bounding_box:
  assumes "banded (boxes r)" "boxes r \<noteq> []"
  shows "bounding_box (extents (miSetExtents r)) (boxes r)"
proof -
  let ?bs = "boxes r"
  let ?e = "mkBox (bx1 (hd ?bs)) (by1 (hd ?bs)) (bx2 (last ?bs)) (by2 (last ?bs))"
  have eq: "extents (miSetExtents r) = extents_loop ?bs ?e"
    using assms(2) by (auto simp: miSetExtents_def Let_def boxes_def)
  have ends: "hd ?bs \<in> set ?bs" "last ?bs \<in> set ?bs" using assms(2) by simp_all
  show ?thesis
    unfolding bounding_box_def eq
    using extents_loop_x [of ?bs ?e] extents_loop_attained [of ?bs ?e] ends
      banded_hd_least [OF assms(1)] banded_last_greatest [OF assms(1)]
    by (auto simp: mkBox_simps)
qed

section \<open>Copying\<close>

lemma miRegionCopy_correct:
  assumes "\<forall>n. al n" "wf_region (deref h rgn)" "dst \<noteq> rgn"
  shows "wf_region (deref (miRegionCopy al h dst rgn) dst)"
    and "points (deref (miRegionCopy al h dst rgn) dst) = points (deref h rgn)"
    and "\<And>p. p \<noteq> dst \<Longrightarrow> cells (miRegionCopy al h dst rgn) p = cells h p"
    and "brk (miRegionCopy al h dst rgn) = brk h"
proof -
  let ?s = "deref h rgn" and ?d = "deref h dst"
  let ?r = "?d\<lparr>rsize := (if rsize ?d < numRects ?s then numRects ?s else rsize ?d),
             numRects := numRects ?s, extents := extents ?s, rects := boxes ?s\<rparr>"
  have eq: "miRegionCopy al h dst rgn = put h dst ?r"
    using assms(1,3) by (auto simp: miRegionCopy_def Xrealloc_def sizeof_BOX_def Let_def)
  have b: "boxes ?r = boxes ?s" using length_boxes [OF assms(2)] by (simp add: boxes_def)
  show "wf_region (deref (miRegionCopy al h dst rgn) dst)"
    using assms(2) length_boxes [OF assms(2)] b by (simp add: eq wf_region_def)
  show "points (deref (miRegionCopy al h dst rgn) dst) = points ?s"
    using b by (simp add: eq points_def)
  show "cells (miRegionCopy al h dst rgn) p = cells h p" if "p \<noteq> dst" for p
    using that by (simp add: eq)
  show "brk (miRegionCopy al h dst rgn) = brk h" by (simp add: eq)
qed

section \<open>miRegionOp on the heap\<close>

lemma shrink_rects_correct:
  assumes "room r"
  shows "boxes (shrink_rects al r) = boxes r" "extents (shrink_rects al r) = extents r"
    "numRects (shrink_rects al r) = length (rects (shrink_rects al r))"
    "numRects (shrink_rects al r) \<le> rsize (shrink_rects al r)"
  using assms by (auto simp: shrink_rects_def room_def boxes_def)

lemma miRegionOp_region_op:
  assumes "\<forall>n. al n" "h1 = put h newReg (EMPTY_REGION (deref h newReg))"
  shows "miRegionOp al h newReg reg1 reg2 ovl non1 non2 =
     put h newReg (shrink_rects al
       (region_op ovl non1 non2 (boxes (deref h reg1)) (boxes (deref h reg2))
          (min (by1 (extents (deref h reg1))) (by1 (extents (deref h reg2))))
          ((deref h newReg)\<lparr>numRects := 0,
             rsize := max (numRects (deref h1 reg1)) (numRects (deref h1 reg2)) * 2,
             rects := [], lost := 0\<rparr>)))"
proof -
  have ext: "extents (deref h1 p) = extents (deref h p)" for p
    by (simp add: assms(2) EMPTY_REGION_def)
  have yb: "(if by1 (extents (deref h reg1)) < by1 (extents (deref h reg2))
      then by1 (extents (deref h reg1)) else by1 (extents (deref h reg2)))
      = min (by1 (extents (deref h reg1))) (by1 (extents (deref h reg2)))" by auto
  have new: "(deref h1 newReg)\<lparr>rsize := n, rects := [], lost := 0\<rparr>
      = (deref h newReg)\<lparr>numRects := 0, rsize := n, rects := [], lost := 0\<rparr>" for n
    by (simp add: assms(2) EMPTY_REGION_def)
  show ?thesis
    unfolding miRegionOp_def Let_def region_op_def assms(2) [symmetric] ext yb new
    using assms(1)
    by (simp add: Xmalloc_def assms(2) split: prod.splits)
qed

context band_operator
begin

lemma miRegionOp_correct:
  assumes "\<forall>n. al n" "wf_region (deref h reg1)" "wf_region (deref h reg2)"
    and "numRects (deref h reg1) \<noteq> 0" "numRects (deref h reg2) \<noteq> 0"
    and "\<not> (reg1 = newReg \<and> reg2 = newReg)"
  obtains R where "miRegionOp al h newReg reg1 reg2 ovl non1 non2 = put h newReg R"
    "numRects R = length (rects R)" "numRects R \<le> rsize R" "canonical (boxes R)"
    "extents R = extents (deref h newReg)"
    "\<And>y. row (boxes R) y =
       combine f (row (boxes (deref h reg1)) y) (row (boxes (deref h reg2)) y)"
proof -
  let ?b1 = "boxes (deref h reg1)" and ?b2 = "boxes (deref h reg2)"
  define h1 where "h1 = put h newReg (EMPTY_REGION (deref h newReg))"
  let ?sz = "max (numRects (deref h1 reg1)) (numRects (deref h1 reg2)) * 2"
  let ?N = "(deref h newReg)\<lparr>numRects := 0, rsize := ?sz, rects := [], lost := 0\<rparr>"
  let ?yb = "min (by1 (extents (deref h reg1))) (by1 (extents (deref h reg2)))"
  have ne: "?b1 \<noteq> []" "?b2 \<noteq> []" using assms(2-5) by (simp_all add: boxes_Nil_iff)
  have can: "canonical ?b1" "canonical ?b2" and
    bb: "bounding_box (extents (deref h reg1)) ?b1" "bounding_box (extents (deref h reg2)) ?b2"
    using assms(2,3) ne by (simp_all add: wf_region_def)
  have "1 \<le> ?sz" using assms(4-6) by (auto simp: h1_def EMPTY_REGION_def)
  then have N: "room ?N" "boxes ?N = []" by (simp_all add: room_def boxes_def)
  have yb: "?yb = min (by1 (hd ?b1)) (by1 (hd ?b2))"
    using bounding_box_by1 [OF bb(1)] bounding_box_by1 [OF bb(2)] can ne
    by (simp add: canonical_def)
  note op = region_op_correct [OF can ne N yb]
  let ?R = "shrink_rects al (region_op ovl non1 non2 ?b1 ?b2 ?yb ?N)"
  note sh = shrink_rects_correct [OF op(1), of al]
  show thesis
  proof (rule that [OF miRegionOp_region_op [OF assms(1) h1_def]])
    show "numRects ?R = length (rects ?R)" "numRects ?R \<le> rsize ?R" by (fact sh)+
    show "row (boxes ?R) y = combine f (row ?b1 y) (row ?b2 y)" for y
      using op(4) by (simp add: sh(1))
  qed (use op(2,3) sh(1,2) in simp_all)
qed

end

section \<open>The three operators\<close>

interpretation isect: band_operator "miIntersectO (\<lambda>_. True)" None None "(\<and>)"
proof unfold_locales
  show "\<exists>C. extends p (miIntersectO (\<lambda>_. True) p B1 B2 y1 y2) C \<and> band_at y1 y2 C
      \<and> xspan C = combine (\<and>) (xspan B1) (xspan B2)"
    if "room p" "y1 < y2" "band_at z1 z2 B1" "band_at w1 w2 B2" for p y1 y2 z1 z2 B1 w1 w2 B2
    using miIntersectO_extends [of p "\<lambda>_. True"] that by (simp add: combine_def Int_def)
qed (simp_all add: nonoverlap_ok_def)

interpretation uni: band_operator "miUnionO (\<lambda>_. True)"
  "Some (miUnionNonO (\<lambda>_. True))" "Some (miUnionNonO (\<lambda>_. True))" "(\<or>)"
proof unfold_locales
  show "\<exists>C. extends p (miUnionO (\<lambda>_. True) p B1 B2 y1 y2) C \<and> band_at y1 y2 C
      \<and> xspan C = combine (\<or>) (xspan B1) (xspan B2)"
    if "room p" "\<forall>a\<in>set (boxes p). by2 a \<le> y1" "y1 < y2" "band_at z1 z2 B1" "band_at w1 w2 B2"
    for p y1 y2 z1 z2 B1 w1 w2 B2
    using miUnionO_extends [of p "\<lambda>_. True"] that by (simp add: combine_def Un_def)
qed (simp_all add: nonoverlap_ok_def miUnionNonO_extends)

interpretation diff: band_operator "miSubtractO (\<lambda>_. True)"
  "Some (miSubtractNonO1 (\<lambda>_. True))" None "\<lambda>a b. a \<and> \<not> b"
proof unfold_locales
  show "\<exists>C. extends p (miSubtractO (\<lambda>_. True) p B1 B2 y1 y2) C \<and> band_at y1 y2 C
      \<and> xspan C = combine (\<lambda>a b. a \<and> \<not> b) (xspan B1) (xspan B2)"
    if "room p" "y1 < y2" "band_at z1 z2 B1" "B1 \<noteq> []" "band_at w1 w2 B2"
    for p y1 y2 z1 z2 B1 w1 w2 B2
    using miSubtractO_extends [of p "\<lambda>_. True"] that by (simp add: combine_def set_diff_eq)
qed (simp_all add: nonoverlap_ok_def miSubtractNonO1_eq miUnionNonO_extends)

section \<open>Union, intersection, difference\<close>

text \<open>
  What an operation with destination \<open>p\<close> does to the heap: the region at \<open>p\<close> is
  well-formed and has the points \<open>S\<close>; no other region changes.
\<close>

definition updates :: "rheap \<Rightarrow> rheap \<Rightarrow> nat \<Rightarrow> (int \<times> int) set \<Rightarrow> bool" where
  "updates h h' p S \<longleftrightarrow>
     wf_region (deref h' p) \<and> points (deref h' p) = S
     \<and> (\<forall>q. q \<noteq> p \<longrightarrow> cells h' q = cells h q) \<and> brk h \<le> brk h'"

lemma updates_refl: "wf_region (deref h p) \<Longrightarrow> updates h h p (points (deref h p))"
  by (simp add: updates_def)

lemma updates_put:
  "\<lbrakk>wf_region R; points R = S\<rbrakk> \<Longrightarrow> updates h (put h p R) p S"
  by (simp add: updates_def)

lemma updates_copy:
  assumes "\<forall>n. al n" "wf_region (deref h rgn)"
  shows "updates h (if dst \<noteq> rgn then miRegionCopy al h dst rgn else h) dst (points (deref h rgn))"
  using miRegionCopy_correct [OF assms] assms(2) by (auto simp: updates_def)

lemma updates_copy':
  assumes "\<forall>n. al n" "wf_region (deref h rgn)"
  shows "updates h (miRegionCopy al h dst rgn) dst (points (deref h rgn))"
  using updates_copy [OF assms, of dst] assms(2)
  by (auto simp: miRegionCopy_def updates_refl split: if_splits)

lemma all_allocs: "\<forall>n. al n \<Longrightarrow> al = (\<lambda>_. True)"
  by auto

lemma XIntersectRegion_updates:
  assumes "\<forall>n. al n" "wf_region (deref h reg1)" "wf_region (deref h reg2)"
    "\<not> (reg1 = newReg \<and> reg2 = newReg)"
  shows "updates h (XIntersectRegion al h reg1 reg2 newReg) newReg
           (points (deref h reg1) \<inter> points (deref h reg2))"
proof (cases "numRects (deref h reg1) = 0 \<or> numRects (deref h reg2) = 0
    \<or> \<not> EXTENTCHECK (extents (deref h reg1)) (extents (deref h reg2))")
  case True
  then have "points (deref h reg1) \<inter> points (deref h reg2) = {}"
    using points_empty assms(2,3) no_overlap_disjoint [OF assms(2,3)] by auto
  with True show ?thesis
    by (simp add: XIntersectRegion_def updates_def wf_region_def canonical_def points_def boxes_def)
next
  case False
  then have ne: "numRects (deref h reg1) \<noteq> 0" "numRects (deref h reg2) \<noteq> 0" by simp_all
  obtain R where R:
    "miRegionOp al h newReg reg1 reg2 (miIntersectO (\<lambda>_. True)) None None = put h newReg R"
    "numRects R = length (rects R)" "numRects R \<le> rsize R" "canonical (boxes R)"
    "\<And>y. row (boxes R) y =
       combine (\<and>) (row (boxes (deref h reg1)) y) (row (boxes (deref h reg2)) y)"
    by (rule isect.miRegionOp_correct [OF assms(1-3) ne assms(4)]) blast
  then have "XIntersectRegion al h reg1 reg2 newReg = put h newReg (miSetExtents R)"
    using False all_allocs [OF assms(1)] by (simp add: XIntersectRegion_def Let_def)
  moreover have "wf_region (miSetExtents R)"
    using R(2-4) miSetExtents_bounding_box [of R] by (simp add: wf_region_def canonical_def)
  moreover have "points (miSetExtents R) = points (deref h reg1) \<inter> points (deref h reg2)"
    using R(5) by (auto simp: points_def combine_def)
  ultimately show ?thesis by (simp add: updates_put)
qed

lemma XSubtractRegion_updates:
  assumes "\<forall>n. al n" "wf_region (deref h regM)" "wf_region (deref h regS)"
    "\<not> (regM = regD \<and> regS = regD)"
  shows "updates h (XSubtractRegion al h regM regS regD) regD
           (points (deref h regM) - points (deref h regS))"
proof (cases "numRects (deref h regM) = 0 \<or> numRects (deref h regS) = 0
    \<or> \<not> EXTENTCHECK (extents (deref h regM)) (extents (deref h regS))")
  case True
  then have "points (deref h regM) - points (deref h regS) = points (deref h regM)"
    using points_empty assms(2,3) no_overlap_disjoint [OF assms(2,3)] by auto
  with True updates_copy' [OF assms(1,2)] show ?thesis by (simp add: XSubtractRegion_def)
next
  case False
  then have ne: "numRects (deref h regM) \<noteq> 0" "numRects (deref h regS) \<noteq> 0" by simp_all
  obtain R where R:
    "miRegionOp al h regD regM regS (miSubtractO (\<lambda>_. True))
       (Some (miSubtractNonO1 (\<lambda>_. True))) None = put h regD R"
    "numRects R = length (rects R)" "numRects R \<le> rsize R" "canonical (boxes R)"
    "\<And>y. row (boxes R) y =
       combine (\<lambda>a b. a \<and> \<not> b) (row (boxes (deref h regM)) y) (row (boxes (deref h regS)) y)"
    by (rule diff.miRegionOp_correct [OF assms(1-3) ne assms(4)]) blast
  then have "XSubtractRegion al h regM regS regD = put h regD (miSetExtents R)"
    using False all_allocs [OF assms(1)] by (simp add: XSubtractRegion_def Let_def)
  moreover have "wf_region (miSetExtents R)"
    using R(2-4) miSetExtents_bounding_box [of R] by (simp add: wf_region_def canonical_def)
  moreover have "points (miSetExtents R) = points (deref h regM) - points (deref h regS)"
    using R(5) by (auto simp: points_def combine_def)
  ultimately show ?thesis by (simp add: updates_put)
qed

text \<open>A region of one box that contains the extents of another contains its points.\<close>

lemma subsumes_points:
  assumes "wf_region r1" "wf_region r2" "subsumes r1 r2"
  shows "points r2 \<subseteq> points r1"
proof
  fix xy assume p: "xy \<in> points r2"
  obtain x y where xy: "xy = (x, y)" by force
  have "INBOX (extents r2) x y" using points_in_extents [OF assms(2)] p xy by simp
  then have e: "INBOX (extents r1) x y" using assms(3) by (auto simp: subsumes_def INBOX_def)
  have "length (boxes r1) = 1" using assms(1,3) by (simp add: length_boxes subsumes_def)
  then obtain b where b: "boxes r1 = [b]" by (auto simp: length_Suc_conv)
  then have "bounding_box (extents r1) [b]" using assms(1) by (simp add: wf_region_def)
  then have "extents r1 = b" by (intro BOX_eqI) (auto simp: bounding_box_def)
  with e b xy show "xy \<in> points r1" by (auto simp: points_def row_def INBOX_def)
qed

text \<open>The bounding box, read off the scanlines.\<close>

definition tight_box :: "BOX \<Rightarrow> (int \<Rightarrow> int set) \<Rightarrow> bool" where
  "tight_box e F \<longleftrightarrow>
     (\<forall>y. \<forall>x\<in>F y. bx1 e \<le> x \<and> x < bx2 e \<and> by1 e \<le> y \<and> y < by2 e)
     \<and> (\<exists>y. bx1 e \<in> F y) \<and> (\<exists>y. bx2 e - 1 \<in> F y) \<and> F (by1 e) \<noteq> {} \<and> F (by2 e - 1) \<noteq> {}"

lemma row_corners:
  assumes "proper_box b" "b \<in> set bs"
  shows "bx1 b \<in> row bs (by1 b)" "bx2 b - 1 \<in> row bs (by1 b)"
    "bx1 b \<in> row bs (by2 b - 1)" "bx2 b - 1 \<in> row bs (by2 b - 1)"
  using assms unfolding row_def proper_box_def by (auto intro!: bexI [of _ b])

lemma bounding_box_tight:
  assumes "banded bs"
  shows "bounding_box e bs \<longleftrightarrow> tight_box e (row bs)"
proof
  assume bb: "bounding_box e bs"
  then obtain l r t u where "l \<in> set bs" "bx1 l = bx1 e" "r \<in> set bs" "bx2 r = bx2 e"
      "t \<in> set bs" "by1 t = by1 e" "u \<in> set bs" "by2 u = by2 e"
    unfolding bounding_box_def by blast
  then have "bx1 e \<in> row bs (by1 l)" "bx2 e - 1 \<in> row bs (by1 r)"
      "bx1 t \<in> row bs (by1 e)" "bx1 u \<in> row bs (by2 e - 1)"
    using row_corners [OF banded_proper [OF assms]] by metis+
  moreover have "bx1 e \<le> x \<and> x < bx2 e \<and> by1 e \<le> y \<and> y < by2 e" if "x \<in> row bs y" for x y
  proof -
    from that obtain b where "b \<in> set bs" "by1 b \<le> y" "y < by2 b" "bx1 b \<le> x" "x < bx2 b"
      by (auto simp: row_def)
    moreover from this bb have "bx1 e \<le> bx1 b \<and> bx2 b \<le> bx2 e \<and> by1 e \<le> by1 b \<and> by2 b \<le> by2 e"
      by (simp add: bounding_box_def)
    ultimately show ?thesis by linarith
  qed
  ultimately show "tight_box e (row bs)"
    unfolding tight_box_def by blast
next
  assume t: "tight_box e (row bs)"
  then have in_e: "bx1 e \<le> x \<and> x < bx2 e \<and> by1 e \<le> y \<and> y < by2 e" if "x \<in> row bs y" for x y
    using that by (simp add: tight_box_def)
  have inside: "bx1 e \<le> bx1 b \<and> bx2 b \<le> bx2 e \<and> by1 e \<le> by1 b \<and> by2 b \<le> by2 e"
    if "b \<in> set bs" for b
    using in_e [OF row_corners(1) [OF banded_proper [OF assms that] that]]
      in_e [OF row_corners(4) [OF banded_proper [OF assms that] that]] by simp
  have ex: "\<exists>b\<in>set bs. by1 b \<le> y \<and> y < by2 b \<and> bx1 b \<le> x \<and> x < bx2 b" if "x \<in> row bs y" for x y
    using that by (simp add: row_def)
  from t obtain y1 y2 x1 x2 where "bx1 e \<in> row bs y1" "bx2 e - 1 \<in> row bs y2"
      "x1 \<in> row bs (by1 e)" "x2 \<in> row bs (by2 e - 1)"
    unfolding tight_box_def by blast
  from this [THEN ex] have "\<exists>b\<in>set bs. bx1 b = bx1 e" "\<exists>b\<in>set bs. bx2 b = bx2 e"
      "\<exists>b\<in>set bs. by1 b = by1 e" "\<exists>b\<in>set bs. by2 b = by2 e"
    using inside by (metis order_antisym linorder_not_less zle_diff1_eq)+
  with inside show "bounding_box e bs" by (simp add: bounding_box_def)
qed

lemma tight_box_union:
  assumes "tight_box e1 F" "tight_box e2 G"
  shows "tight_box (mkBox (min (bx1 e1) (bx1 e2)) (min (by1 e1) (by1 e2))
           (max (bx2 e1) (bx2 e2)) (max (by2 e1) (by2 e2))) (\<lambda>y. F y \<union> G y)"
  unfolding tight_box_def mkBox_simps
proof (intro conjI allI ballI)
  fix y x assume "x \<in> F y \<union> G y"
  then consider "x \<in> F y" | "x \<in> G y" by blast
  then show "min (bx1 e1) (bx1 e2) \<le> x" "x < max (bx2 e1) (bx2 e2)"
      "min (by1 e1) (by1 e2) \<le> y" "y < max (by2 e1) (by2 e2)"
    using assms unfolding tight_box_def by (cases; fastforce)+
next
  show "\<exists>y. min (bx1 e1) (bx1 e2) \<in> F y \<union> G y" "\<exists>y. max (bx2 e1) (bx2 e2) - 1 \<in> F y \<union> G y"
    using assms unfolding tight_box_def min_def max_def by (metis Un_iff)+
  show "F (min (by1 e1) (by1 e2)) \<union> G (min (by1 e1) (by1 e2)) \<noteq> {}"
    "F (max (by2 e1) (by2 e2) - 1) \<union> G (max (by2 e1) (by2 e2) - 1) \<noteq> {}"
    using assms unfolding tight_box_def min_def max_def by (metis Un_empty)+
qed

lemma XUnionRegion_updates:
  assumes "\<forall>n. al n" "wf_region (deref h reg1)" "wf_region (deref h reg2)"
  shows "updates h (XUnionRegion al h reg1 reg2 newReg) newReg
           (points (deref h reg1) \<union> points (deref h reg2))"
proof -
  let ?r1 = "deref h reg1" and ?r2 = "deref h reg2"
  note copy1 = updates_copy [OF assms(1,2), of newReg]
    and copy2 = updates_copy [OF assms(1,3), of newReg]
  consider (easy2) "reg1 = reg2 \<or> numRects ?r1 = 0"
    | (easy1) "reg1 \<noteq> reg2" "numRects ?r1 \<noteq> 0" "numRects ?r2 = 0 \<or> subsumes ?r1 ?r2"
    | (sub2) "reg1 \<noteq> reg2" "numRects ?r1 \<noteq> 0" "numRects ?r2 \<noteq> 0" "\<not> subsumes ?r1 ?r2"
        "subsumes ?r2 ?r1"
    | (op) "reg1 \<noteq> reg2" "numRects ?r1 \<noteq> 0" "numRects ?r2 \<noteq> 0" "\<not> subsumes ?r1 ?r2"
        "\<not> subsumes ?r2 ?r1"
    by blast
  then show ?thesis
  proof cases
    case easy2
    then have "points ?r1 \<union> points ?r2 = points ?r2" using points_empty [OF assms(2)] by auto
    with copy2 easy2 show ?thesis by (simp add: XUnionRegion_def)
  next
    case easy1
    then have "points ?r1 \<union> points ?r2 = points ?r1"
      using points_empty [OF assms(3)] subsumes_points [OF assms(2,3)] by auto
    with copy1 easy1 show ?thesis by (auto simp: XUnionRegion_def)
  next
    case sub2
    then have "points ?r1 \<union> points ?r2 = points ?r2"
      using subsumes_points [OF assms(3,2)] by auto
    with copy2 sub2 show ?thesis by (simp add: XUnionRegion_def)
  next
    case op
    then have na: "\<not> (reg1 = newReg \<and> reg2 = newReg)" by auto
    obtain R where R:
      "miRegionOp al h newReg reg1 reg2 (miUnionO (\<lambda>_. True)) (Some (miUnionNonO (\<lambda>_. True)))
         (Some (miUnionNonO (\<lambda>_. True))) = put h newReg R"
      "numRects R = length (rects R)" "numRects R \<le> rsize R" "canonical (boxes R)"
      "extents R = extents (deref h newReg)"
      "\<And>y. row (boxes R) y = combine (\<or>) (row (boxes ?r1) y) (row (boxes ?r2) y)"
      by (rule uni.miRegionOp_correct [OF assms op(2,3) na]) blast
    define e where "e = mkBox (min (bx1 (extents ?r1)) (bx1 (extents ?r2)))
      (min (by1 (extents ?r1)) (by1 (extents ?r2)))
      (max (bx2 (extents ?r1)) (bx2 (extents ?r2)))
      (max (by2 (extents ?r1)) (by2 (extents ?r2)))"
    have "extents (deref (put h newReg R) p) = extents (deref h p)" for p using R(5) by simp
    then have eq: "XUnionRegion al h reg1 reg2 newReg = put h newReg (R\<lparr>extents := e\<rparr>)"
      using op all_allocs [OF assms(1)] R(1) by (simp add: XUnionRegion_def Let_def e_def)
    have rows: "row (boxes R) y = row (boxes ?r1) y \<union> row (boxes ?r2) y" for y
      using R(6) by (simp add: combine_def Un_def)
    have b: "banded (boxes ?r1)" "banded (boxes ?r2)" "banded (boxes R)"
      using assms(2,3) R(4) by (simp_all add: wf_region_def canonical_def)
    have "bounding_box (extents ?r1) (boxes ?r1)" "bounding_box (extents ?r2) (boxes ?r2)"
      using assms(2,3) op(2,3) boxes_Nil_iff [OF assms(2)] boxes_Nil_iff [OF assms(3)]
      by (simp_all add: wf_region_def)
    then have "tight_box e (row (boxes R))"
      using tight_box_union b(1,2) unfolding e_def rows [abs_def]
      by (simp add: bounding_box_tight)
    then have "wf_region (R\<lparr>extents := e\<rparr>)"
      using R(2-4) b(3) by (simp add: wf_region_def bounding_box_tight boxes_def)
    moreover have "points (R\<lparr>extents := e\<rparr>) = points ?r1 \<union> points ?r2"
      using rows by (auto simp: points_def boxes_def)
    ultimately show ?thesis by (simp add: eq updates_put)
  qed
qed

end
