(* ===== verification/XRegionQuery.thy ===== *)
theory XRegionQuery
  imports XRegionCorrect
begin

text \<open>
  The queries and the remaining operations of \<^verbatim>\<open>Region.c\<close>: equality, membership of a
  point, inclusion of a rectangle, translation, symmetric difference and the union with
  a rectangle.
\<close>

section \<open>Equality and membership\<close>

lemma same_box_iff: "same_box a b \<longleftrightarrow> a = b"
  by (auto simp: same_box_def intro: BOX_eqI)

lemma XEqualRegion_iff_boxes:
  assumes "wf_region r1" "wf_region r2"
  shows "XEqualRegion r1 r2 \<longleftrightarrow> boxes r1 = boxes r2"
proof
  assume "XEqualRegion r1 r2"
  then show "boxes r1 = boxes r2"
    using boxes_Nil_iff [OF assms(1)] boxes_Nil_iff [OF assms(2)]
    by (auto simp: XEqualRegion_def same_box_iff [abs_def] list.rel_eq split: if_splits)
next
  assume eq: "boxes r1 = boxes r2"
  then have num: "numRects r1 = numRects r2" using length_boxes assms by metis
  show "XEqualRegion r1 r2"
  proof (cases "numRects r1 = 0")
    case False
    then have "bounding_box (extents r1) (boxes r1)" "bounding_box (extents r2) (boxes r1)"
      using assms boxes_Nil_iff [OF assms(1)] eq by (simp_all add: wf_region_def)
    then have "extents r1 = extents r2" by (rule bounding_box_unique)
    with eq num show ?thesis
      by (simp add: XEqualRegion_def same_box_iff [abs_def] list.rel_eq)
  qed (simp add: XEqualRegion_def num)
qed

lemma XEqualRegion_iff_points:
  assumes "wf_region r1" "wf_region r2"
  shows "XEqualRegion r1 r2 \<longleftrightarrow> points r1 = points r2"
  using assms canonical_unique [of "boxes r1" "boxes r2"]
  by (auto simp: XEqualRegion_iff_boxes points_eq_iff wf_region_def canonical_def)

lemma XPointInRegion_iff:
  assumes "wf_region r"
  shows "XPointInRegion r x y \<longleftrightarrow> (x, y) \<in> points r"
proof -
  have "list_ex (\<lambda>b. INBOX b x y) (boxes r) \<longleftrightarrow> (x, y) \<in> points r"
    by (auto simp: list_ex_iff points_def row_def INBOX_def)
  then show ?thesis
    using points_in_extents [OF assms] points_empty [OF assms]
    by (auto simp: XPointInRegion_def)
qed

section \<open>Rectangle inclusion\<close>

definition rect_points :: "BOX \<Rightarrow> (int \<times> int) set" where
  "rect_points p = {(x, y). bx1 p \<le> x \<and> x < bx2 p \<and> by1 p \<le> y \<and> y < by2 p}"

definition classify :: "(int \<times> int) set \<Rightarrow> (int \<times> int) set \<Rightarrow> rect_in" where
  "classify R V = (if V \<inter> R = {} then RectangleOut else if R \<subseteq> V then RectangleIn else RectanglePart)"

text \<open>
  What the loop knows when it has come to scanline \<open>ry\<close>: above it the rectangle is
  covered everywhere (\<open>partIn\<close>) or nowhere; from it on, the boxes still to come decide.
\<close>

definition known :: "BOX list \<Rightarrow> int \<Rightarrow> bool \<Rightarrow> (int \<times> int) set" where
  "known bs ry partIn = {(x, y). if y < ry then partIn else x \<in> row bs y}"

definition verdict :: "BOX \<Rightarrow> bool \<times> int \<Rightarrow> rect_in" where
  "verdict p res =
     (if fst res then (if snd res < by2 p then RectanglePart else RectangleIn) else RectangleOut)"

lemma classifyI:
  "V \<inter> R = {} \<Longrightarrow> classify R V = RectangleOut"
  "\<lbrakk>R \<subseteq> V; R \<noteq> {}\<rbrakk> \<Longrightarrow> classify R V = RectangleIn"
  "\<lbrakk>p \<in> V; p \<in> R; q \<in> R; q \<notin> V\<rbrakk> \<Longrightarrow> classify R V = RectanglePart"
  by (auto simp: classify_def)

lemma classify_cong: "V \<inter> R = W \<inter> R \<Longrightarrow> classify R V = classify R W"
  by (auto simp: classify_def)

text \<open>The coverage by the first box of a banded list and the ones after it.\<close>

lemma row_Cons:
  "x \<in> row (b # bs) y \<longleftrightarrow>
     by1 b \<le> y \<and> y < by2 b \<and> bx1 b \<le> x \<and> x < bx2 b \<or> x \<in> row bs y"
  by (auto simp: row_def)

lemma row_rest_right:
  assumes "banded (b # bs)" "y < by2 b" "x \<in> row bs y"
  shows "bx2 b < x" "by1 b \<le> y"
proof -
  from assms(3) obtain c where c: "c \<in> set bs" "by1 c \<le> y" "bx1 c \<le> x" by (auto simp: row_def)
  with assms(1) have "before b c" by (simp add: banded_Cons)
  with c assms(2) show "bx2 b < x" "by1 b \<le> y" by (auto simp: before_def)
qed

lemma row_Cons_above: "\<lbrakk>banded (b # bs); y < by1 b\<rbrakk> \<Longrightarrow> row (b # bs) y = {}"
  using banded_hd_least [of "b # bs"] by (intro row_below) fastforce

text \<open>Moving the scanline down to the first box, or past a box that cannot matter.\<close>

lemma known_skip_above: "by2 b \<le> ry \<Longrightarrow> known (b # bs) ry q = known bs ry q"
  by (auto simp: known_def row_Cons)

lemma known_down:
  assumes "banded (b # bs)" "ry \<le> by1 b"
  shows "known (b # bs) ry False = known (b # bs) (by1 b) False"
proof -
  have "row (b # bs) y = {}" if "y < by1 b" for y using row_Cons_above [OF assms(1) that] .
  with assms(2) show ?thesis by (auto simp: known_def)
qed

lemma known_skip_left:
  "bx2 b \<le> bx1 p \<Longrightarrow>
     known (b # bs) ry q \<inter> rect_points p = known bs ry q \<inter> rect_points p"
  by (auto simp: known_def row_Cons rect_points_def)

lemma known_band:
  assumes "banded (b # bs)" "by1 b \<le> ry" "ry < by2 b"
    and "bx2 p \<le> bx2 b" "if q' then bx1 b \<le> bx1 p else bx2 p \<le> bx1 b"
    and "by1 p < ry \<longrightarrow> q = q'" "by1 p \<le> ry"
  shows "known (b # bs) ry q \<inter> rect_points p = known bs (by2 b) q' \<inter> rect_points p"
proof -
  have "x \<in> row (b # bs) y \<longleftrightarrow> q'" if "ry \<le> y" "y < by2 b" "bx1 p \<le> x" "x < bx2 p" for x y
    using row_rest_right [OF assms(1), of y x] that assms(2-5) by (auto simp: row_Cons split: if_splits)
  moreover have "x \<in> row (b # bs) y \<longleftrightarrow> x \<in> row bs y" if "by2 b \<le> y" for x y
    using that by (auto simp: row_Cons)
  ultimately have "(x, y) \<in> known (b # bs) ry q \<longleftrightarrow> (x, y) \<in> known bs (by2 b) q'"
    if "(x, y) \<in> rect_points p" for x y
    using that assms(3,6,7) by (cases "y < by2 b") (auto simp: known_def rect_points_def)
  then show ?thesis by auto
qed

lemma rect_in_loop_correct:
  assumes "banded bs" "bx1 p < bx2 p" "by1 p \<le> ry" "ry < by2 p"
    and "\<not> (partIn \<and> partOut)" "(partIn \<or> partOut) \<longleftrightarrow> by1 p < ry"
  shows "verdict p (rect_in_loop p bs (bx1 p) ry partIn partOut)
    = classify (rect_points p) (known bs ry partIn)"
  using assms
proof (induction bs arbitrary: ry partIn partOut)
  case Nil
  then show ?case
    by (cases partIn) (auto simp: verdict_def known_def rect_points_def
        intro!: classifyI(1) [symmetric] classifyI(3) [of "(bx1 p, by1 p)" _ _ "(bx1 p, ry)", symmetric])
next
  case (Cons b bs)
  note IH = Cons.IH [OF _ assms(2)]
  let ?R = "rect_points p"
  let ?loop = "rect_in_loop p (b # bs) (bx1 p) ry partIn partOut"
  have b: "banded bs" "bx1 b < bx2 b" "by1 b < by2 b"
    using Cons.prems(1) banded_proper [OF Cons.prems(1), of b]
    by (simp_all add: banded_Cons proper_box_def)
  define ry1 where "ry1 = max ry (by1 b)"
  define out1 where "out1 \<longleftrightarrow> partOut \<or> by1 b > ry"
  consider (above) "by2 b \<le> ry"
    | (gap) "ry < by2 b" "by1 b > ry" "partIn \<or> by1 b \<ge> by2 p"
    | (band) "ry < by2 b" "by1 b > ry \<longrightarrow> \<not> partIn \<and> by1 b < by2 p"
    by force
  then show ?case
  proof cases
    case above
    then show ?thesis
      using IH [OF b(1) Cons.prems(3-6)] known_skip_above [OF above] by simp
  next
    case gap
    then have eq: "?loop = (partIn, ry)" by simp
    have empty: "row (b # bs) ry = {}" using row_Cons_above Cons.prems(1) gap(2) by blast
    show ?thesis
    proof (cases partIn)
      case True
      then show ?thesis using Cons.prems empty unfolding eq
        by (intro trans [OF _ classifyI(3) [of "(bx1 p, by1 p)" _ _ "(bx1 p, ry)", symmetric]])
          (auto simp: verdict_def known_def rect_points_def)
    next
      case False
      then have "y < by2 p \<Longrightarrow> row (b # bs) y = {}" for y
        using gap Cons.prems(1) row_Cons_above by force
      with False show ?thesis unfolding eq
        by (intro trans [OF _ classifyI(1) [symmetric]])
          (auto simp: verdict_def known_def rect_points_def split: if_splits)
    qed
  next
    case band
    have ry1: "by1 b \<le> ry1" "ry1 < by2 b" "ry1 < by2 p" "by1 p \<le> ry1"
      "\<not> (partIn \<and> out1)" "(partIn \<or> out1) \<longleftrightarrow> by1 p < ry1"
      using band b Cons.prems(3-6) by (auto simp: ry1_def out1_def)
    have down: "known (b # bs) ry partIn = known (b # bs) ry1 partIn"
      using known_down [OF Cons.prems(1), of ry] band(2) by (auto simp: ry1_def max_def)
    have right: "x \<in> row bs ry1 \<Longrightarrow> bx2 b < x" for x
      using row_rest_right [OF Cons.prems(1)] ry1 by blast
    have part: "classify ?R (known (b # bs) ry1 partIn) = RectanglePart"
      if "x \<in> row (b # bs) ry1" "bx1 p \<le> x" "x < bx2 p"
        and "out1 \<or> x' \<notin> row (b # bs) ry1 \<and> bx1 p \<le> x' \<and> x' < bx2 p" for x x'
      using that ry1 assms(2)
      by (intro classifyI(3) [of "(x, ry1)" _ _ "if out1 then (x, by1 p) else (x', ry1)"])
        (auto simp: known_def rect_points_def)
    consider (left) "bx2 b \<le> bx1 p"
      | (hole) "bx1 p < bx1 b" "partIn"
      | (some_out) "bx1 p < bx2 b" "bx1 b < bx2 p" "out1 \<or> bx1 p < bx1 b" "\<not> partIn"
      | (cover) "bx1 b \<le> bx1 p" "bx2 p \<le> bx2 b" "\<not> out1"
      | (miss) "bx2 p \<le> bx1 b" "\<not> partIn"
      | (short) "bx1 b \<le> bx1 p" "bx1 p < bx2 b" "bx2 b < bx2 p" "\<not> out1"
      using ry1(5) by fastforce
    then show ?thesis
    proof cases
      case left
      have "?loop = rect_in_loop p bs (bx1 p) ry1 partIn out1"
        using band left by (auto simp: ry1_def out1_def max_def Let_def)
      then show ?thesis
        using IH [OF b(1) ry1(4,3,5,6)] down classify_cong [OF known_skip_left [OF left]] by simp
    next
      case hole
      then have "?loop = (True, ry1)" using band b by (auto simp: ry1_def max_def Let_def)
      moreover have "bx1 p \<notin> row (b # bs) ry1" using hole right [of "bx1 p"] b by (auto simp: row_Cons)
      then have "classify ?R (known (b # bs) ry1 partIn) = RectanglePart"
        using hole ry1 assms(2)
        by (intro classifyI(3) [of "(bx1 p, by1 p)" _ _ "(bx1 p, ry1)"])
          (auto simp: known_def rect_points_def)
      ultimately show ?thesis using ry1(3) down by (simp add: verdict_def)
    next
      case some_out
      then have "?loop = (True, ry1)"
        using band by (auto simp: ry1_def out1_def max_def Let_def)
      moreover have "bx1 p < bx1 b \<Longrightarrow> bx1 p \<notin> row (b # bs) ry1"
        using right [of "bx1 p"] b by (auto simp: row_Cons)
      then have "classify ?R (known (b # bs) ry1 partIn) = RectanglePart"
        using some_out ry1(1,2) assms(2) b
        by (intro part [of "max (bx1 p) (bx1 b)" "bx1 p"]) (auto simp: row_Cons)
      ultimately show ?thesis using ry1(3) down by (simp add: verdict_def)
    next
      case cover
      have eq: "known (b # bs) ry1 partIn \<inter> ?R = known bs (by2 b) True \<inter> ?R"
        using cover ry1 by (intro known_band [OF Cons.prems(1)]) auto
      have "?loop = (if by2 p \<le> by2 b then (True, by2 b)
          else rect_in_loop p bs (bx1 p) (by2 b) True False)"
        using band cover assms(2) by (auto simp: out1_def Let_def)
      moreover have "classify ?R (known bs (by2 b) True) = RectangleIn" if "by2 p \<le> by2 b"
        using that assms(2) ry1 by (intro classifyI(2)) (auto simp: known_def rect_points_def)
      moreover have "by1 p < by2 b" using ry1 by simp
      ultimately show ?thesis
        using IH [OF b(1), of "by2 b" True False] down classify_cong [OF eq]
        by (auto simp: verdict_def)
    next
      case miss
      have eq: "known (b # bs) ry1 partIn \<inter> ?R = known bs (by2 b) False \<inter> ?R"
        using miss ry1 b by (intro known_band [OF Cons.prems(1)]) auto
      have "?loop = (if by2 p \<le> by2 b then (False, by2 b)
          else rect_in_loop p bs (bx1 p) (by2 b) False True)"
        using band miss assms(2) b by (auto simp: Let_def)
      moreover have "classify ?R (known bs (by2 b) False) = RectangleOut" if "by2 p \<le> by2 b"
        using that by (intro classifyI(1)) (auto simp: known_def rect_points_def)
      moreover have "by1 p < by2 b" using ry1 by simp
      ultimately show ?thesis
        using IH [OF b(1), of "by2 b" False True] down classify_cong [OF eq]
        by (auto simp: verdict_def)
    next
      case short
      then have "?loop = (True, ry1)"
        using band by (auto simp: ry1_def out1_def max_def Let_def)
      moreover have "bx2 b \<notin> row (b # bs) ry1" using right [of "bx2 b"] by (auto simp: row_Cons)
      then have "classify ?R (known (b # bs) ry1 partIn) = RectanglePart"
        using short ry1(1,2) by (intro part [of "bx1 p" "bx2 b"]) (auto simp: row_Cons)
      ultimately show ?thesis using ry1(3) down by (simp add: verdict_def)
    qed
  qed
qed

lemma XRectInRegion_classify:
  assumes "wf_region r" "in_short rx" "in_short ry" "in_short (rx + int w)" "in_short (ry + int h)"
    and "0 < w" "0 < h"
  shows "XRectInRegion r rx ry (int w) (int h)
    = classify {(x, y). rx \<le> x \<and> x < rx + int w \<and> ry \<le> y \<and> y < ry + int h} (points r)"
proof -
  define p where "p = mkBox rx ry (rx + int w) (ry + int h)"
  have p: "bx1 p = rx" "by1 p = ry" "bx2 p = rx + int w" "by2 p = ry + int h"
    by (simp_all add: p_def mkBox_def)
  have R: "rect_points p = {(x, y). rx \<le> x \<and> x < rx + int w \<and> ry \<le> y \<and> y < ry + int h}"
    by (simp add: rect_points_def p)
  have box: "mkBox (c_short rx) (c_short ry) (c_short (int w + rx)) (c_short (int h + ry)) = p"
    using assms(2-5) by (simp add: p_def add.commute)
  have eq: "XRectInRegion r rx ry (int w) (int h) =
      (if numRects r = 0 \<or> \<not> EXTENTCHECK (extents r) p then RectangleOut
       else verdict p (rect_in_loop p (boxes r) (bx1 p) ry False False))"
    unfolding XRectInRegion_def box by (simp add: verdict_def p split: prod.split)
  show ?thesis
  proof (cases "numRects r = 0 \<or> \<not> EXTENTCHECK (extents r) p")
    case True
    have "points r \<inter> rect_points p = {}"
      using True points_empty [OF assms(1)] points_in_extents [OF assms(1)]
      by (fastforce simp: EXTENTCHECK_def INBOX_def rect_points_def)
    then have "classify (rect_points p) (points r) = RectangleOut" by (rule classifyI(1))
    with True eq R show ?thesis by simp
  next
    case False
    have b: "banded (boxes r)" using assms(1) by (simp add: wf_region_def canonical_def)
    have "known (boxes r) ry False \<inter> rect_points p = points r \<inter> rect_points p"
      by (auto simp: known_def rect_points_def points_def p)
    then have "classify (rect_points p) (known (boxes r) ry False) = classify (rect_points p) (points r)"
      by (rule classify_cong)
    moreover have "verdict p (rect_in_loop p (boxes r) (bx1 p) ry False False)
        = classify (rect_points p) (known (boxes r) ry False)"
      using assms(6,7) by (intro rect_in_loop_correct b) (simp_all add: p)
    ultimately have "verdict p (rect_in_loop p (boxes r) (bx1 p) ry False False)
        = classify (rect_points p) (points r)" by simp
    with False eq R show ?thesis by simp
  qed
qed

section \<open>Translation\<close>

text \<open>A translation that no coordinate leaves the C short range for.\<close>

definition fits :: "BOX \<Rightarrow> int \<Rightarrow> int \<Rightarrow> bool" where
  "fits e x y \<longleftrightarrow>
     in_short (bx1 e + x) \<and> in_short (bx2 e + x) \<and> in_short (by1 e + y) \<and> in_short (by2 e + y)"

definition shift_box :: "int \<Rightarrow> int \<Rightarrow> BOX \<Rightarrow> BOX" where
  "shift_box x y b =
     b\<lparr>bx1 := bx1 b + x, bx2 := bx2 b + x, by1 := by1 b + y, by2 := by2 b + y\<rparr>"

lemma shift_box_sel [simp]:
  "bx1 (shift_box x y b) = bx1 b + x" "bx2 (shift_box x y b) = bx2 b + x"
  "by1 (shift_box x y b) = by1 b + y" "by2 (shift_box x y b) = by2 b + y"
  by (simp_all add: shift_box_def)

lemma offset_box_fits: "fits b x y \<Longrightarrow> offset_box x y b = shift_box x y b"
  by (simp add: fits_def offset_box_def shift_box_def)

lemma fits_inside:
  assumes "bounding_box e bs" "b \<in> set bs" "banded bs" "fits e x y"
  shows "fits b x y"
proof -
  have "bx1 e \<le> bx1 b" "bx1 b < bx2 b" "bx2 b \<le> bx2 e" "by1 e \<le> by1 b" "by1 b < by2 b" "by2 b \<le> by2 e"
    using assms(1,2) banded_proper [OF assms(3,2)] by (auto simp: bounding_box_def proper_box_def)
  with assms(4) show ?thesis unfolding fits_def in_short_def by linarith
qed

lemma row_shift_iff: "u \<in> row (map (shift_box x y) bs) v \<longleftrightarrow> u - x \<in> row bs (v - y)"
  by (auto simp: row_def algebra_simps)

lemma row_shift: "row (map (shift_box x y) bs) v = (\<lambda>u. u + x) ` row bs (v - y)"
proof -
  have "u \<in> (\<lambda>u. u + x) ` A \<longleftrightarrow> u - x \<in> A" for u A
    by (auto simp: image_iff intro: bexI [of _ "u - x"])
  then show ?thesis by (intro set_eqI) (simp add: row_shift_iff)
qed

lemma banded_shift: "banded bs \<Longrightarrow> banded (map (shift_box x y) bs)"
  by (induction bs) (auto simp: banded_Cons proper_box_def before_def)

lemma coalesced_shift: "coalesced bs \<Longrightarrow> coalesced (map (shift_box x y) bs)"
proof -
  assume a: "coalesced bs"
  have inj: "inj (\<lambda>u::int. u + x)" by (simp add: inj_def)
  have "row bs (by1 b - 1) \<noteq> row bs (by1 b)" if "b \<in> set bs" for b
    using a that by (simp add: coalesced_def)
  then show ?thesis
    by (auto simp: coalesced_def row_shift inj_image_eq_iff [OF inj] algebra_simps)
qed

lemma bounding_box_shift:
  "bounding_box e bs \<Longrightarrow> bounding_box (shift_box x y e) (map (shift_box x y) bs)"
  by (auto simp: bounding_box_def)

lemma XOffsetRegion_shift:
  assumes "wf_region r" "numRects r \<noteq> 0 \<longrightarrow> fits (extents r) x y"
  shows "boxes (XOffsetRegion r x y) = map (shift_box x y) (boxes r)"
    and "wf_region (XOffsetRegion r x y)"
proof -
  let ?r = "XOffsetRegion r x y"
  have n: "length (boxes r) = numRects r" by (rule length_boxes [OF assms(1)])
  have b: "canonical (boxes r)" "banded (boxes r)"
    using assms(1) by (simp_all add: wf_region_def canonical_def)
  have bb: "bounding_box (extents r) (boxes r)" "fits (extents r) x y" if "boxes r \<noteq> []"
    using assms that boxes_Nil_iff [OF assms(1)] by (auto simp: wf_region_def)
  have "offset_box x y c = shift_box x y c" if "c \<in> set (boxes r)" for c
    using bb fits_inside [OF _ that b(2)] that by (intro offset_box_fits) force
  then have m: "map (offset_box x y) (boxes r) = map (shift_box x y) (boxes r)" by simp
  show eq: "boxes ?r = map (shift_box x y) (boxes r)"
    using n by (simp add: XOffsetRegion_def boxes_def [of "_\<lparr>rects := _, extents := _\<rparr>"] m)
  have "extents ?r = shift_box x y (extents r)" if "boxes r \<noteq> []"
    using bb(2) [OF that] by (simp add: XOffsetRegion_def offset_box_fits)
  then have "bounding_box (extents ?r) (boxes ?r)" if "boxes ?r \<noteq> []"
    using that eq bb(1) bounding_box_shift by force
  moreover have "canonical (boxes ?r)"
    using b(1) by (simp add: eq canonical_def banded_shift coalesced_shift)
  ultimately show "wf_region ?r"
    using assms(1) n by (auto simp: wf_region_def XOffsetRegion_def)
qed

lemma XOffsetRegion_points:
  assumes "wf_region r" "numRects r \<noteq> 0 \<longrightarrow> fits (extents r) x y"
  shows "points (XOffsetRegion r x y) = (\<lambda>(u, v). (u + x, v + y)) ` points r"
proof -
  have "(u, v) \<in> points (XOffsetRegion r x y) \<longleftrightarrow> (u - x, v - y) \<in> points r" for u v
    by (simp add: points_def XOffsetRegion_shift(1) [OF assms] row_shift_iff)
  moreover have "(u, v) \<in> (\<lambda>(u, v). (u + x, v + y)) ` A \<longleftrightarrow> (u - x, v - y) \<in> A" for u v A
    by (auto simp: image_iff intro: bexI [of _ "(u - x, v - y)"])
  ultimately show ?thesis by (intro set_eqI) (simp only: split_paired_all)
qed

end
