(* ===== verification/XRegionAlgebra.thy ===== *)
theory XRegionAlgebra
  imports XRegionQuery
begin

text \<open>
  The region operations as an algebra of point sets: the operations that are built from
  union, intersection and difference, the interface the callers of the library rely on
  (a set operation up to \<^verbatim>\<open>XEqualRegion\<close>), and the aliasing case that
  \<^verbatim>\<open>miRegionOp\<close> does not support.
\<close>

section \<open>Regions of one box\<close>

definition box_region :: "BOX \<Rightarrow> REGION" where
  "box_region b = \<lparr>rsize = 1, numRects = 1, rects = [b], extents = b, lost = 0\<rparr>"

lemma boxes_box_region [simp]: "boxes (box_region b) = [b]"
  by (simp add: box_region_def boxes_def)

lemma box_region_sel [simp]: "extents (box_region b) = b" "numRects (box_region b) = 1"
  by (simp_all add: box_region_def)

lemma wf_box_region: "proper_box b \<Longrightarrow> wf_region (box_region b)"
  by (auto simp: wf_region_def canonical_def banded_Cons coalesced_def row_Cons box_region_def
      boxes_def bounding_box_def proper_box_def row_def)

lemma points_box_region: "points (box_region b) = rect_points b"
  by (auto simp: points_def row_def rect_points_def)

lemma wf_empty_region: "numRects r = 0 \<Longrightarrow> wf_region r"
  by (simp add: wf_region_def boxes_def canonical_def)

section \<open>Symmetric difference and union with a rectangle\<close>

text \<open>A heap that holds nothing at addresses that were never handed out.\<close>

definition wf_heap :: "rheap \<Rightarrow> bool" where
  "wf_heap h \<longleftrightarrow> (\<forall>p\<ge>brk h. cells h p = None)"

lemma updates_deref: "\<lbrakk>updates h h' p S; q \<noteq> p\<rbrakk> \<Longrightarrow> deref h' q = deref h q"
  by (simp add: updates_def deref_def)

lemma deref_XDestroyRegion: "q \<noteq> p \<Longrightarrow> deref (XDestroyRegion h p) q = deref h q"
  by (simp add: XDestroyRegion_def deref_def)

lemma XXorRegion_updates:
  assumes "\<forall>n. al n" "wf_heap h" "wf_region (deref h sra)" "wf_region (deref h srb)"
    and "sra < brk h" "srb < brk h" "dr < brk h"
  shows "updates h (XXorRegion al h sra srb dr) dr
           ((points (deref h sra) - points (deref h srb)) \<union> (points (deref h srb) - points (deref h sra)))"
proof -
  let ?a = "brk h" and ?b = "Suc (brk h)"
  obtain h1 h2 where h1: "XCreateRegion al h = Some (h1, ?a)" and h2: "XCreateRegion al h1 = Some (h2, ?b)"
    and old: "\<And>q. q < ?a \<Longrightarrow> cells h2 q = cells h q" and none: "\<And>q. q > ?b \<Longrightarrow> cells h2 q = None"
    and brk: "brk h2 = Suc ?b"
    using assms(1,2) by (fastforce simp: XCreateRegion_def Xmalloc_def wf_heap_def)
  define h3 where "h3 = XSubtractRegion al h2 sra srb ?a"
  define h4 where "h4 = XSubtractRegion al h3 srb sra ?b"
  define h5 where "h5 = XUnionRegion al h4 ?a ?b dr"
  have d2: "deref h2 sra = deref h sra" "deref h2 srb = deref h srb"
    using old assms(5,6) by (simp_all add: deref_def)
  have u3: "updates h2 h3 ?a (points (deref h sra) - points (deref h srb))"
    unfolding h3_def d2 [symmetric]
    by (rule XSubtractRegion_updates [OF assms(1)]) (use assms(3-6) d2 in simp_all)
  have d3: "deref h3 sra = deref h sra" "deref h3 srb = deref h srb"
    using updates_deref [OF u3] d2 assms(5,6) by simp_all
  have u4: "updates h3 h4 ?b (points (deref h srb) - points (deref h sra))"
    unfolding h4_def d3 [symmetric]
    by (rule XSubtractRegion_updates [OF assms(1)]) (use assms(3-6) d3 in simp_all)
  have d4: "deref h4 ?a = deref h3 ?a" using updates_deref [OF u4] by simp
  have u5: "updates h4 h5 dr (points (deref h3 ?a) \<union> points (deref h4 ?b))"
    unfolding h5_def d4 [symmetric]
    by (rule XUnionRegion_updates [OF assms(1)]) (use u3 u4 d4 in \<open>simp_all add: updates_def\<close>)
  have eq: "XXorRegion al h sra srb dr = XDestroyRegion (XDestroyRegion h5 ?a) ?b"
    by (simp add: XXorRegion_def h1 h2 h3_def h4_def h5_def)
  have "cells (XXorRegion al h sra srb dr) q = cells h q" if "q \<noteq> dr" for q
  proof -
    consider "q < ?a" | "q = ?a \<or> q = ?b" | "q > ?b" by linarith
    then show ?thesis
      using u3 u4 u5 that old none assms(2)
      by cases (auto simp: eq XDestroyRegion_def updates_def wf_heap_def)
  qed
  moreover have "deref (XXorRegion al h sra srb dr) dr = deref h5 dr"
    using assms(7) by (simp add: eq deref_XDestroyRegion)
  ultimately show ?thesis
    using u3 u4 u5 brk by (auto simp: updates_def eq XDestroyRegion_def)
qed

lemma XUnionRectWithRegion_updates:
  assumes "\<forall>n. al n" "wf_heap h" "wf_region (deref h source)" "source < brk h" "dest < brk h"
    and "rect_width rect = int w" "rect_height rect = int ht" "0 < w" "0 < ht"
    and "in_short (rect_x rect + int w)" "in_short (rect_y rect + int ht)"
  shows "updates h (XUnionRectWithRegion al h rect source dest) dest
    (points (deref h source) \<union>
     {(x, y). rect_x rect \<le> x \<and> x < rect_x rect + int w \<and> rect_y rect \<le> y \<and> y < rect_y rect + int ht})"
proof -
  define b where "b = mkBox (rect_x rect) (rect_y rect) (rect_x rect + int w) (rect_y rect + int ht)"
  define h1 where "h1 = put h (brk h) (box_region b)"
  have eq: "XUnionRectWithRegion al h rect source dest
      = XDestroyRegion (XUnionRegion al h1 (brk h) source dest) (brk h)"
    using assms(6-11) by (simp add: XUnionRectWithRegion_def h1_def b_def box_region_def Let_def)
  have b: "proper_box b" using assms(8,9) by (simp add: b_def mkBox_def proper_box_def)
  have u: "updates h1 (XUnionRegion al h1 (brk h) source dest) dest
      (rect_points b \<union> points (deref h source))"
    using XUnionRegion_updates [OF assms(1), of h1 "brk h" source dest, unfolded h1_def]
      wf_box_region [OF b] assms(3,4)
    by (simp add: h1_def points_box_region)
  have "cells (XUnionRectWithRegion al h rect source dest) q = cells h q" if "q \<noteq> dest" for q
    using u that assms(2,5) by (auto simp: eq XDestroyRegion_def updates_def h1_def wf_heap_def)
  moreover have "deref (XUnionRectWithRegion al h rect source dest) dest
      = deref (XUnionRegion al h1 (brk h) source dest) dest"
    using assms(5) by (simp add: eq deref_XDestroyRegion)
  ultimately show ?thesis
    using u by (auto simp: updates_def eq XDestroyRegion_def rect_points_def b_def mkBox_def h1_def)
qed

section \<open>The interface of a set operation\<close>

text \<open>
  What a caller relies on: the destination ends up with a point set that is a function
  of the point sets of the sources. It follows that sources that \<^verbatim>\<open>XEqualRegion\<close>
  cannot tell apart give results it cannot tell apart, whatever boxes, sizes, addresses
  and heaps they come from.
\<close>

locale set_operation =
  fixes opr :: "(nat \<Rightarrow> bool) \<Rightarrow> rheap \<Rightarrow> nat \<Rightarrow> nat \<Rightarrow> nat \<Rightarrow> rheap"
    and sem :: "(int \<times> int) set \<Rightarrow> (int \<times> int) set \<Rightarrow> (int \<times> int) set"
  assumes correct: "\<lbrakk>\<forall>n. al n; wf_region (deref h a); wf_region (deref h b); \<not> (a = d \<and> b = d)\<rbrakk>
    \<Longrightarrow> updates h (opr al h a b d) d (sem (points (deref h a)) (points (deref h b)))"
begin

lemma congruent:
  assumes "\<forall>n. al n" "\<not> (a = d \<and> b = d)" "\<not> (a' = d' \<and> b' = d')"
    and "wf_region (deref h a)" "wf_region (deref h b)" "wf_region (deref h' a')" "wf_region (deref h' b')"
    and "XEqualRegion (deref h a) (deref h' a')" "XEqualRegion (deref h b) (deref h' b')"
  shows "XEqualRegion (deref (opr al h a b d) d) (deref (opr al h' a' b' d') d')"
proof -
  have "points (deref h a) = points (deref h' a')" "points (deref h b) = points (deref h' b')"
    using assms(4-9) XEqualRegion_iff_points by blast+
  then show ?thesis
    using correct [OF assms(1,4,5,2)] correct [OF assms(1,6,7,3)]
    by (simp add: updates_def XEqualRegion_iff_points)
qed

end

locale commutative_set_operation = set_operation +
  assumes sem_commute: "sem A B = sem B A"
begin

lemma commute:
  assumes "\<forall>n. al n" "\<not> (a = d \<and> b = d)" "wf_region (deref h a)" "wf_region (deref h b)"
  shows "boxes (deref (opr al h a b d) d) = boxes (deref (opr al h b a d) d)"
proof -
  have "\<not> (b = d \<and> a = d)" using assms(2) by blast
  then have "updates h (opr al h a b d) d (sem (points (deref h a)) (points (deref h b)))"
    "updates h (opr al h b a d) d (sem (points (deref h a)) (points (deref h b)))"
    using correct assms sem_commute by metis+
  then show ?thesis
    using XEqualRegion_iff_boxes XEqualRegion_iff_points unfolding updates_def by metis
qed

end

interpretation union_op: commutative_set_operation XUnionRegion "(\<union>)"
  by unfold_locales (auto intro: XUnionRegion_updates)

interpretation intersect_op: commutative_set_operation XIntersectRegion "(\<inter>)"
  by unfold_locales (auto intro: XIntersectRegion_updates)

interpretation subtract_op: set_operation XSubtractRegion "(-)"
  by unfold_locales (rule XSubtractRegion_updates)

section \<open>A destination that is both sources\<close>

text \<open>
  miRegionOp empties the destination before it computes the size of the new array. When
  the destination is both sources the size is 0, and every MEMCHECK asks realloc for 0
  bytes: it frees the array and returns, and the next one frees it again.
\<close>

lemma add_box_no_room: "rsize pReg = 0 \<Longrightarrow> add_box al pReg b k = pReg\<lparr>lost := Suc (lost pReg)\<rparr>"
  by (simp add: add_box_def MEMCHECK_def)

lemma miIntersectO_no_room:
  assumes "rsize pReg = 0" "r \<noteq> []" "proper_box (hd r)"
  shows "miIntersectO al pReg r r y1 y2 = pReg\<lparr>lost := Suc (lost pReg)\<rparr>"
  using assms by (cases r) (simp_all add: add_box_no_room Let_def proper_box_def)

lemma band_tops:
  assumes "banded r" "r \<noteq> []"
  shows "by1 ` set r = insert (by1 (hd r)) (by1 ` set (after_band r))" "by1 (hd r) \<notin> by1 ` set (after_band r)"
proof -
  have "set r = set (band r) \<union> set (after_band r)" by (metis band_after_band set_append)
  moreover have "by1 ` set (band r) = {by1 (hd r)}"
    using assms(2) by (cases r) (auto simp: band_def dest: set_takeWhileD)
  ultimately show "by1 ` set r = insert (by1 (hd r)) (by1 ` set (after_band r))" by auto
  have "by1 (hd r) < by2 (hd r)" using assms by (auto simp: banded_def proper_box_def)
  then show "by1 (hd r) \<notin> by1 ` set (after_band r)" using after_band_below [OF assms] by fastforce
qed

lemma region_op_loop_no_room:
  "\<lbrakk>rsize new = 0; numRects new = 0; banded r\<rbrakk> \<Longrightarrow>
   region_op_loop (miIntersectO al) None None r r ybot 0 new = (s1, s2, y, q, new') \<Longrightarrow>
   new' = new\<lparr>lost := lost new + card (by1 ` set r)\<rparr>"
proof (induction "length r" arbitrary: r new ybot rule: less_induct)
  case less
  show ?case
  proof (cases "r = []")
    case True
    then show ?thesis using less.prems(4) by (subst (asm) region_op_loop.simps) auto
  next
    case False
    let ?new = "new\<lparr>lost := Suc (lost new)\<rparr>"
    have p: "proper_box (hd r)" using less.prems(3) False by (simp add: banded_def)
    have b: "band r \<noteq> []" "hd (band r) = hd r" using False by (cases r; simp add: band_def)+
    have body: "region_op_body (miIntersectO al) None None r r ybot 0 new = (?new, 0, by2 (hd r))"
      using less.prems(1,2) p miIntersectO_no_room [of new "band r" al] b
      by (simp add: region_op_body_def coalesce_new_def proper_box_def Let_def)
    have "region_op_loop (miIntersectO al) None None (after_band r) (after_band r) (by2 (hd r)) 0 ?new = (s1, s2, y, q, new')"
      using less.prems(4) False by (subst (asm) region_op_loop.simps) (simp add: body advance_def)
    then have "new' = ?new\<lparr>lost := lost ?new + card (by1 ` set (after_band r))\<rparr>"
      using less.hyps [OF length_after_band [OF False], of ?new] less.prems(1,2) banded_after_band [OF less.prems(3)] by simp
    then show ?thesis using band_tops [OF less.prems(3) False] by simp
  qed
qed

lemma XIntersectRegion_aliased:
  assumes "al 0" "wf_region (deref h p)" "numRects (deref h p) \<noteq> 0"
  shows "numRects (deref (XIntersectRegion al h p p p) p) = 0"
    and "lost (deref (XIntersectRegion al h p p p) p) = card (by1 ` set (boxes (deref h p)))"
proof -
  let ?r = "deref h p" and ?new = "(EMPTY_REGION (deref h p))\<lparr>rsize := 0, rects := [], lost := 0\<rparr>"
  have empty: "numRects ?new = 0" "rsize ?new = 0" by (simp_all add: EMPTY_REGION_def)
  have bs: "banded (boxes ?r)" "boxes ?r \<noteq> []"
    using assms(2,3) boxes_Nil_iff [OF assms(2)] by (auto simp: wf_region_def canonical_def)
  have b: "hd (boxes ?r) \<in> set (boxes ?r)" using bs(2) by simp
  then have "proper_box (hd (boxes ?r))" using bs(1) by (auto simp: banded_def)
  moreover have "bounding_box (extents ?r) (boxes ?r)" using assms(2) bs(2) by (simp add: wf_region_def)
  ultimately have "proper_box (extents ?r)" using b unfolding bounding_box_def proper_box_def by fastforce
  then have ex: "EXTENTCHECK (extents ?r) (extents ?r)" by (simp add: EXTENTCHECK_def proper_box_def)
  define ybot where "ybot = by1 (extents ?r)"
  obtain s1 s2 y q new' where l: "region_op_loop (miIntersectO al) None None (boxes ?r) (boxes ?r) ybot 0 ?new = (s1, s2, y, q, new')"
    by (cases "region_op_loop (miIntersectO al) None None (boxes ?r) (boxes ?r) ybot 0 ?new")
  have n: "new' = ?new\<lparr>lost := card (by1 ` set (boxes ?r))\<rparr>"
    using region_op_loop_no_room [OF empty(2,1) bs(1) l] by simp
  have "miRegionOp al h p p p (miIntersectO al) None None = put (put h p (EMPTY_REGION ?r)) p new'"
    using assms(1) l n unfolding ybot_def
    by (simp add: miRegionOp_def Let_def Xmalloc_def region_op_tail_def coalesce_new_def shrink_rects_def EMPTY_REGION_def)
  then have "deref (miRegionOp al h p p p (miIntersectO al) None None) p = new'" by simp
  then show "numRects (deref (XIntersectRegion al h p p p) p) = 0"
    and "lost (deref (XIntersectRegion al h p p p) p) = card (by1 ` set (boxes ?r))"
    using n ex assms(3) empty(1) by (simp_all add: XIntersectRegion_def Let_def miSetExtents_def)
qed

end
