(* ===== verification/XRegionProps.thy ===== *)
theory XRegionProps
  imports XRegionAlgebra
begin

text \<open>
  The properties of the region library: every exported operation of
  \<^verbatim>\<open>Region.c\<close> computes the set of points its name says, keeps the canonical form,
  and changes no region but its destination.
\<close>

section \<open>Inputs for the witnesses\<close>

text \<open>Two overlapping squares and an empty region.\<close>

definition squares :: rheap where
  "squares =
     \<lparr>cells = [0 \<mapsto> box_region (mkBox 0 0 10 10), 1 \<mapsto> box_region (mkBox 5 5 20 20),
               2 \<mapsto> \<lparr>rsize = 1, numRects = 0, rects = [], extents = nullBox, lost = 0\<rparr>],
      brk = 3\<rparr>"

lemma squares_deref [simp]:
  "deref squares 0 = box_region (mkBox 0 0 10 10)"
  "deref squares (Suc 0) = box_region (mkBox 5 5 20 20)"
  by (simp_all add: squares_def deref_def)

lemma squares_wf [simp]: "wf_heap squares" "brk squares = 3"
  by (simp_all add: squares_def wf_heap_def)

lemma wf_box_region_mkBox [simp]: "\<lbrakk>a < c; b < d\<rbrakk> \<Longrightarrow> wf_region (box_region (mkBox a b c d))"
  by (simp add: wf_box_region proper_box_def)

lemma points_box_region_mkBox [simp]:
  "points (box_region (mkBox a b c d)) = {(x, y). a \<le> x \<and> x < c \<and> b \<le> y \<and> y < d}"
  by (simp add: points_box_region rect_points_def)

section \<open>The set operations\<close>

text \<open>
  C2. XUnionRegion leaves in its destination a well-formed region (sorted into maximal
  bands, with tight extents, inside its array) that covers exactly the points of either
  source, and changes no other region. This holds for every aliasing of sources and
  destination.
\<close>

theorem XUnionRegion_union:
  assumes "\<forall>n. al n" "wf_region (deref h reg1)" "wf_region (deref h reg2)"
  shows "updates h (XUnionRegion al h reg1 reg2 newReg) newReg
           (points (deref h reg1) \<union> points (deref h reg2))"
  using assms by (rule XUnionRegion_updates)

theorem XUnionRegion_union_witness:
  "updates squares (XUnionRegion (\<lambda>_. True) squares 0 1 0) 0
     ({(x, y). 0 \<le> x \<and> x < 10 \<and> 0 \<le> y \<and> y < 10} \<union> {(x, y). 5 \<le> x \<and> x < 20 \<and> 5 \<le> y \<and> y < 20})"
  using XUnionRegion_union [of "\<lambda>_. True" squares 0 1 0] by simp

text \<open>
  C4. XIntersectRegion leaves in its destination a well-formed region that covers exactly
  the points of both sources, and changes no other region, if the destination is not both
  of its sources.
\<close>

theorem XIntersectRegion_intersection:
  assumes "\<forall>n. al n" "wf_region (deref h reg1)" "wf_region (deref h reg2)"
    "\<not> (reg1 = newReg \<and> reg2 = newReg)"
  shows "updates h (XIntersectRegion al h reg1 reg2 newReg) newReg
           (points (deref h reg1) \<inter> points (deref h reg2))"
  using assms by (rule XIntersectRegion_updates)

theorem XIntersectRegion_intersection_witness:
  "updates squares (XIntersectRegion (\<lambda>_. True) squares 0 1 1) 1
     ({(x, y). 0 \<le> x \<and> x < 10 \<and> 0 \<le> y \<and> y < 10} \<inter> {(x, y). 5 \<le> x \<and> x < 20 \<and> 5 \<le> y \<and> y < 20})"
  using XIntersectRegion_intersection [of "\<lambda>_. True" squares 0 1 1] by simp

text \<open>
  C3. XSubtractRegion leaves in its destination a well-formed region that covers exactly
  the points of the minuend that are not in the subtrahend, and changes no other region,
  if the destination is not both of its sources.
\<close>

theorem XSubtractRegion_difference:
  assumes "\<forall>n. al n" "wf_region (deref h regM)" "wf_region (deref h regS)"
    "\<not> (regM = regD \<and> regS = regD)"
  shows "updates h (XSubtractRegion al h regM regS regD) regD
           (points (deref h regM) - points (deref h regS))"
  using assms by (rule XSubtractRegion_updates)

theorem XSubtractRegion_difference_witness:
  "updates squares (XSubtractRegion (\<lambda>_. True) squares 0 1 0) 0
     ({(x, y). 0 \<le> x \<and> x < 10 \<and> 0 \<le> y \<and> y < 10} - {(x, y). 5 \<le> x \<and> x < 20 \<and> 5 \<le> y \<and> y < 20})"
  using XSubtractRegion_difference [of "\<lambda>_. True" squares 0 1 0] by simp

text \<open>
  C29. XXorRegion computes the symmetric difference of its sources, for every aliasing, and
  both temporary regions are destroyed: no other address of the heap changes.
\<close>

theorem XXorRegion_symmetric_difference:
  assumes "\<forall>n. al n" "wf_heap h" "wf_region (deref h sra)" "wf_region (deref h srb)"
    and "sra < brk h" "srb < brk h" "dr < brk h"
  shows "updates h (XXorRegion al h sra srb dr) dr
           ((points (deref h sra) - points (deref h srb)) \<union> (points (deref h srb) - points (deref h sra)))"
  using assms by (rule XXorRegion_updates)

theorem XXorRegion_symmetric_difference_witness:
  "updates squares (XXorRegion (\<lambda>_. True) squares 0 1 0) 0
     (({(x, y). 0 \<le> x \<and> x < 10 \<and> 0 \<le> y \<and> y < 10} - {(x, y). 5 \<le> x \<and> x < 20 \<and> 5 \<le> y \<and> y < 20})
      \<union> ({(x, y). 5 \<le> x \<and> x < 20 \<and> 5 \<le> y \<and> y < 20} - {(x, y). 0 \<le> x \<and> x < 10 \<and> 0 \<le> y \<and> y < 10}))"
  using XXorRegion_symmetric_difference [of "\<lambda>_. True" squares 0 1 0] by simp

text \<open>
  C30. XEqualRegion, which compares the boxes, decides equality of the covered points: the
  representation of a set of points is unique.
\<close>

theorem XEqualRegion_decides:
  assumes "wf_region r1" "wf_region r2"
  shows "XEqualRegion r1 r2 \<longleftrightarrow> points r1 = points r2"
  using assms by (rule XEqualRegion_iff_points)

theorem XEqualRegion_decides_witness:
  "\<not> XEqualRegion (box_region (mkBox 0 0 10 10)) (box_region (mkBox 5 5 20 20))
   \<and> points (box_region (mkBox 0 0 10 10)) \<noteq> points (box_region (mkBox 5 5 20 20))"
proof -
  have "\<not> XEqualRegion (box_region (mkBox 0 0 10 10)) (box_region (mkBox 5 5 20 20))"
    by (simp add: XEqualRegion_def box_region_def)
  then show ?thesis
    using XEqualRegion_decides [of "box_region (mkBox 0 0 10 10)" "box_region (mkBox 5 5 20 20)"] by simp
qed

text \<open>
  C31. XRectInRegion, which stops at the first box that decides the answer, says whether
  the rectangle lies inside the region, outside it or neither, for a rectangle that is
  not empty and whose corners are C shorts.
\<close>

theorem XRectInRegion_decides:
  assumes "wf_region r" "in_short rx" "in_short ry" "in_short (rx + int w)" "in_short (ry + int h)"
    and "0 < w" "0 < h"
  shows "XRectInRegion r rx ry (int w) (int h)
    = classify {(x, y). rx \<le> x \<and> x < rx + int w \<and> ry \<le> y \<and> y < ry + int h} (points r)"
  using assms by (rule XRectInRegion_classify)

theorem XRectInRegion_decides_witness:
  "classify {(x, y). 2 \<le> x \<and> x < 5 \<and> 3 \<le> y \<and> y < 7} (points (box_region (mkBox 0 0 10 10))) = RectangleIn
   \<and> XRectInRegion (box_region (mkBox 0 0 10 10)) 2 3 3 4 = RectangleIn"
proof -
  have eq: "XRectInRegion (box_region (mkBox 0 0 10 10)) 2 3 (int 3) (int 4) =
      classify {(x, y). 2 \<le> x \<and> x < 2 + int 3 \<and> 3 \<le> y \<and> y < 3 + int 4}
        (points (box_region (mkBox 0 0 10 10)))"
    by (rule XRectInRegion_decides) (simp_all add: in_short_def)
  have "XRectInRegion (box_region (mkBox 0 0 10 10)) 2 3 3 4 = RectangleIn"
    by (simp add: XRectInRegion_def EXTENTCHECK_def box_region_def boxes_def in_short_def)
  with eq show ?thesis by simp
qed

text \<open>
  XPointInRegion decides membership in the covered points.
\<close>

theorem XPointInRegion_decides:
  assumes "wf_region r"
  shows "XPointInRegion r x y \<longleftrightarrow> (x, y) \<in> points r"
  using assms by (rule XPointInRegion_iff)

theorem XPointInRegion_decides_witness:
  "XPointInRegion (box_region (mkBox 0 0 10 10)) 9 0 \<and> \<not> XPointInRegion (box_region (mkBox 0 0 10 10)) 10 0"
  using XPointInRegion_decides [of "box_region (mkBox 0 0 10 10)" 9 0]
    XPointInRegion_decides [of "box_region (mkBox 0 0 10 10)" 10 0] by simp

text \<open>
  XOffsetRegion translates the covered points and keeps the region well-formed, as long
  as the corners of the moved extents are C shorts.
\<close>

theorem XOffsetRegion_translates:
  assumes "wf_region r" "numRects r \<noteq> 0 \<longrightarrow> fits (extents r) x y"
  shows "wf_region (XOffsetRegion r x y)
    \<and> points (XOffsetRegion r x y) = (\<lambda>(u, v). (u + x, v + y)) ` points r"
  using XOffsetRegion_shift(2) [OF assms] XOffsetRegion_points [OF assms] by simp

theorem XOffsetRegion_translates_witness:
  "points (XOffsetRegion (box_region (mkBox 0 0 10 10)) 32000 (- 5))
   = (\<lambda>(u, v). (u + 32000, v + - 5)) ` {(x, y). 0 \<le> x \<and> x < 10 \<and> 0 \<le> y \<and> y < 10}"
  using XOffsetRegion_translates [of "box_region (mkBox 0 0 10 10)" 32000 "- 5"]
  by (simp add: fits_def in_short_def)

text \<open>
  XUnionRectWithRegion adds the points of a rectangle that is not empty and whose far
  corner is a pair of C shorts; the rectangle's temporary region leaves no trace.
\<close>

theorem XUnionRectWithRegion_adds:
  assumes "\<forall>n. al n" "wf_heap h" "wf_region (deref h source)" "source < brk h" "dest < brk h"
    and "rect_width rect = int w" "rect_height rect = int ht" "0 < w" "0 < ht"
    and "in_short (rect_x rect + int w)" "in_short (rect_y rect + int ht)"
  shows "updates h (XUnionRectWithRegion al h rect source dest) dest
    (points (deref h source) \<union>
     {(x, y). rect_x rect \<le> x \<and> x < rect_x rect + int w \<and> rect_y rect \<le> y \<and> y < rect_y rect + int ht})"
  using assms by (rule XUnionRectWithRegion_updates)

theorem XUnionRectWithRegion_adds_witness:
  "updates squares
     (XUnionRectWithRegion (\<lambda>_. True) squares
        \<lparr>rect_x = 3, rect_y = 4, rect_width = 100, rect_height = 1\<rparr> 0 0) 0
     ({(x, y). 0 \<le> x \<and> x < 10 \<and> 0 \<le> y \<and> y < 10} \<union> {(x, y). 3 \<le> x \<and> x < 103 \<and> 4 \<le> y \<and> y < 5})"
  using XUnionRectWithRegion_adds [of "\<lambda>_. True" squares 0 0
      "\<lparr>rect_x = 3, rect_y = 4, rect_width = 100, rect_height = 1\<rparr>" 100 1]
  by (simp add: in_short_def)

text \<open>
  The order of the sources of a union does not matter: both orders leave the same
  boxes in the same order.
\<close>

theorem XUnionRegion_commutes:
  assumes "\<forall>n. al n" "\<not> (a = d \<and> b = d)" "wf_region (deref h a)" "wf_region (deref h b)"
  shows "boxes (deref (XUnionRegion al h a b d) d) = boxes (deref (XUnionRegion al h b a d) d)"
  using assms by (rule union_op.commute)

theorem XUnionRegion_commutes_witness:
  "boxes (deref (XUnionRegion (\<lambda>_. True) squares 0 1 2) 2)
   = boxes (deref (XUnionRegion (\<lambda>_. True) squares 1 0 2) 2)"
  using XUnionRegion_commutes [of "\<lambda>_. True" 0 2 1 squares] by simp

text \<open>
  C35. Intersecting a region with itself in place destroys it: the new array has size 0, so the
  first box of every band makes MEMCHECK free it while the region keeps the pointer. The result
  is empty, and the array was freed once per band of the old region: a region of two bands or
  more is a double free.
\<close>

theorem XIntersectRegion_self_frees:
  assumes "al 0" "wf_region (deref h p)" "numRects (deref h p) \<noteq> 0"
  shows "numRects (deref (XIntersectRegion al h p p p) p) = 0
    \<and> lost (deref (XIntersectRegion al h p p p) p) = card (by1 ` set (boxes (deref h p)))
    \<and> 0 < lost (deref (XIntersectRegion al h p p p) p)"
proof -
  have "set (boxes (deref h p)) \<noteq> {}" using boxes_Nil_iff [OF assms(2)] assms(3) by simp
  then have "0 < card (by1 ` set (boxes (deref h p)))" by (simp add: card_gt_0_iff)
  then show ?thesis using XIntersectRegion_aliased [where h = h and p = p] assms by simp
qed

text \<open>Two bands, as a region on the heap.\<close>

definition two_bands :: rheap where
  "two_bands = \<lparr>cells = [0 \<mapsto> \<lparr>rsize = 2, numRects = 2, rects = [mkBox 0 0 10 5, mkBox 0 5 20 9], extents = mkBox 0 0 20 9, lost = 0\<rparr>],
     brk = 1\<rparr>"

lemma two_bands_wf: "wf_region (deref two_bands 0)" "boxes (deref two_bands 0) = [mkBox 0 0 10 5, mkBox 0 5 20 9]"
proof -
  let ?bs = "[mkBox 0 0 10 5, mkBox 0 5 20 9]"
  show b: "boxes (deref two_bands 0) = ?bs" by (simp add: two_bands_def deref_def boxes_def)
  have "banded ?bs" by (simp add: banded_def before_def proper_box_def)
  moreover have "row ?bs (-1) = {}" "row ?bs 0 = {x. 0 \<le> x \<and> x < 10}" "row ?bs 4 = {x. 0 \<le> x \<and> x < 10}" "row ?bs 5 = {x. 0 \<le> x \<and> x < 20}"
    by (auto simp: row_def)
  moreover have "0 \<in> {x :: int. 0 \<le> x \<and> x < 10}" "15 \<in> {x :: int. 0 \<le> x \<and> x < 20} - {x. 0 \<le> x \<and> x < 10}" by simp_all
  ultimately have "coalesced ?bs" "banded ?bs" unfolding coalesced_def by auto
  moreover have "bounding_box (mkBox 0 0 20 9) ?bs" by (auto simp: bounding_box_def)
  ultimately show "wf_region (deref two_bands 0)"
    unfolding wf_region_def b by (simp add: canonical_def two_bands_def deref_def)
qed

theorem XIntersectRegion_self_frees_witness: "lost (deref (XIntersectRegion (\<lambda>_. True) two_bands 0 0 0) 0) = 2"
  using XIntersectRegion_self_frees [of "\<lambda>_. True" two_bands 0] two_bands_wf by (simp add: two_bands_def deref_def)

end
