(* ===== verification/XRegionShrink.thy ===== *)
theory XRegionShrink
  imports XRegionProps
begin

unbundle bit_operations_syntax

text \<open>
  XShrinkRegion of \<^verbatim>\<open>Region.c\<close> and its helper Compress, which shrinks or grows a region along
  one axis by doubling the length of runs, and the theorem that the result is the erosion
  or dilation of the region.
\<close>

section \<open>The code\<close>

definition ZOpRegion :: "(nat \<Rightarrow> bool) \<Rightarrow> bool \<Rightarrow> rheap \<Rightarrow> nat \<Rightarrow> nat \<Rightarrow> nat \<Rightarrow> rheap" where
  "ZOpRegion al grow h a b c = (if grow then XUnionRegion al h a b c else XIntersectRegion al h a b c)"

definition offset_at :: "rheap \<Rightarrow> nat \<Rightarrow> int \<Rightarrow> int \<Rightarrow> rheap" where
  "offset_at h p x y = put h p (XOffsetRegion (deref h p) x y)"

definition ZShiftRegion :: "bool \<Rightarrow> rheap \<Rightarrow> nat \<Rightarrow> int \<Rightarrow> rheap" where
  "ZShiftRegion xdir h a n = (if xdir then offset_at h a n 0 else offset_at h a 0 n)"

definition ZCopyRegion :: "(nat \<Rightarrow> bool) \<Rightarrow> rheap \<Rightarrow> nat \<Rightarrow> nat \<Rightarrow> rheap" where
  "ZCopyRegion al h a b = XUnionRegion al h a a b"

text \<open>
  The loop of Compress with its unsigned counters; None when it does not end within the given
  number of rounds.
\<close>

fun compress_loop ::
  "nat \<Rightarrow> (nat \<Rightarrow> bool) \<Rightarrow> nat \<Rightarrow> nat \<Rightarrow> nat \<Rightarrow> bool \<Rightarrow> bool \<Rightarrow> nat \<Rightarrow> nat \<Rightarrow> rheap \<Rightarrow> rheap option"
where
  "compress_loop 0 al r s t xdir grow dx shift h = None"
| "compress_loop (Suc f) al r s t xdir grow dx shift h =
     (if dx = 0 then Some h
      else
        let bit = (dx AND shift \<noteq> 0);
            h1 = (if bit then ZOpRegion al grow (ZShiftRegion xdir h r (- int shift)) r s r else h);
            dx1 = (if bit then dx - shift else dx)
        in if bit \<and> dx1 = 0 then Some h1
           else
             let h2 = ZCopyRegion al h1 s t;
                 h3 = ZShiftRegion xdir h2 s (- int shift);
                 h4 = ZOpRegion al grow h3 s t s
             in compress_loop f al r s t xdir grow dx1 (2 * shift mod 4294967296) h4)"

definition Compress :: "(nat \<Rightarrow> bool) \<Rightarrow> rheap \<Rightarrow> nat \<Rightarrow> nat \<Rightarrow> nat \<Rightarrow> nat \<Rightarrow> bool \<Rightarrow> bool \<Rightarrow> rheap option" where
  "Compress al h r s t dx xdir grow = compress_loop 32 al r s t xdir grow dx 1 (ZCopyRegion al h r s)"

definition compress_axis :: "(nat \<Rightarrow> bool) \<Rightarrow> nat \<Rightarrow> nat \<Rightarrow> nat \<Rightarrow> int \<Rightarrow> bool \<Rightarrow> rheap \<Rightarrow> rheap option" where
  "compress_axis al r s t d xdir h =
     (if d = 0 then Some h else Compress al h r s t (2 * nat \<bar>d\<bar> mod 4294967296) xdir (d < 0))"

definition XShrinkRegion :: "(nat \<Rightarrow> bool) \<Rightarrow> rheap \<Rightarrow> nat \<Rightarrow> int \<Rightarrow> int \<Rightarrow> rheap option" where
  "XShrinkRegion al h r dx dy =
     (if dx = 0 \<and> dy = 0 then Some h
      else
        (case XCreateRegion al h of None \<Rightarrow> Some h
         | Some (h1, s) \<Rightarrow>
             (case XCreateRegion al h1 of None \<Rightarrow> Some (XDestroyRegion h1 s)
              | Some (h2, t) \<Rightarrow>
                  (case compress_axis al r s t dx True h2 of None \<Rightarrow> None
                   | Some h3 \<Rightarrow>
                       (case compress_axis al r s t dy False h3 of None \<Rightarrow> None
                        | Some h4 \<Rightarrow>
                            Some (XDestroyRegion (XDestroyRegion (offset_at h4 r \<bar>dx\<bar> \<bar>dy\<bar>) s) t))))))"

section \<open>Runs\<close>

definition along :: "bool \<Rightarrow> int \<Rightarrow> int \<times> int \<Rightarrow> int \<times> int" where
  "along xdir n p = (if xdir then (fst p + n, snd p) else (fst p, snd p + n))"

text \<open>The points that start a run of \<open>n + 1\<close> points in the set, or that see a point of it within \<open>n\<close> steps.\<close>

definition spread :: "bool \<Rightarrow> bool \<Rightarrow> nat \<Rightarrow> (int \<times> int) set \<Rightarrow> (int \<times> int) set" where
  "spread grow xdir n A =
     {p. if grow then \<exists>m\<le>n. along xdir (int m) p \<in> A else \<forall>m\<le>n. along xdir (int m) p \<in> A}"

lemma along_along [simp]: "along xdir m (along xdir n p) = along xdir (n + m) p"
  by (simp add: along_def)

lemma along_0 [simp]: "along xdir 0 p = p"
  by (simp add: along_def)

lemma spread_0 [simp]: "spread grow xdir 0 A = A"
  by (simp add: spread_def)

lemma split_run: "(\<exists>m\<le>k + Suc j. P m) \<longleftrightarrow> (\<exists>m\<le>j. P m) \<or> (\<exists>m\<le>k. P (m + Suc j))" for k j :: nat
proof -
  have "m \<le> k + Suc j \<longleftrightarrow> m \<le> j \<or> (\<exists>i\<le>k. m = i + Suc j)" for m
    by presburger
  then show ?thesis by blast
qed

lemma spread_step:
  "spread grow xdir (k + Suc j) A =
     (if grow then along xdir (- int (Suc j)) ` spread grow xdir k A \<union> spread grow xdir j A
      else along xdir (- int (Suc j)) ` spread grow xdir k A \<inter> spread grow xdir j A)"
proof -
  have img: "p \<in> along xdir (- int n) ` B \<longleftrightarrow> along xdir (int n) p \<in> B" for p n B
    by (auto simp: image_iff intro!: bexI [of _ "along xdir (int n) p"])
  have "(\<forall>m\<le>k + Suc j. P m) \<longleftrightarrow> (\<forall>m\<le>j. P m) \<and> (\<forall>m\<le>k. P (m + Suc j))" for P
    using split_run [of k j "\<lambda>m. \<not> P m"] by blast
  moreover note split_run [of k j]
  ultimately show ?thesis
    by (intro set_eqI) (simp only: img Un_iff Int_iff spread_def mem_Collect_eq along_along if_split of_nat_add, 
        auto simp: ac_simps)
qed

section \<open>Coordinates\<close>

text \<open>Points whose boxes have corners that are C shorts.\<close>

definition short_points :: "(int \<times> int) set \<Rightarrow> bool" where
  "short_points A \<longleftrightarrow> (\<forall>(x, y)\<in>A. - 32768 \<le> x \<and> x < 32767 \<and> - 32768 \<le> y \<and> y < 32767)"

lemma short_points_fits:
  assumes "wf_region r" "short_points ((\<lambda>(u, v). (u + x, v + y)) ` points r)" "numRects r \<noteq> 0"
  shows "fits (extents r) x y"
proof -
  have "boxes r \<noteq> []" using assms(3) boxes_Nil_iff [OF assms(1)] by simp
  then have tight: "tight_box (extents r) (row (boxes r))"
    using assms(1) bounding_box_tight [of "boxes r" "extents r"] by (simp add: wf_region_def canonical_def)
  have sh: "- 32768 \<le> u + x \<and> u + x < 32767 \<and> - 32768 \<le> v + y \<and> v + y < 32767" if "u \<in> row (boxes r) v" for u v
    using assms(2) that by (force simp: short_points_def points_def)
  obtain v1 v2 u1 u2 where "bx1 (extents r) \<in> row (boxes r) v1" "bx2 (extents r) - 1 \<in> row (boxes r) v2"
    "u1 \<in> row (boxes r) (by1 (extents r))" "u2 \<in> row (boxes r) (by2 (extents r) - 1)"
    using tight by (auto simp: tight_box_def)
  from this [THEN sh] show ?thesis by (auto simp: fits_def in_short_def)
qed

lemma offset_at_updates:
  assumes "wf_region (deref h p)" "short_points ((\<lambda>(u, v). (u + x, v + y)) ` points (deref h p))"
  shows "updates h (offset_at h p x y) p ((\<lambda>(u, v). (u + x, v + y)) ` points (deref h p))"
proof -
  have f: "numRects (deref h p) \<noteq> 0 \<longrightarrow> fits (extents (deref h p)) x y" using short_points_fits [OF assms] by blast
  show ?thesis
    using XOffsetRegion_shift(2) [OF assms(1) f] XOffsetRegion_points [OF assms(1) f]
    by (simp add: updates_def offset_at_def put_def deref_def)
qed

lemma ZShiftRegion_updates:
  assumes "wf_region (deref h p)" "short_points (along xdir n ` points (deref h p))"
  shows "updates h (ZShiftRegion xdir h p n) p (along xdir n ` points (deref h p))"
proof -
  have "along True n ` B = (\<lambda>(u, v). (u + n, v + 0)) ` B" "along False n ` B = (\<lambda>(u, v). (u + 0, v + n)) ` B" for B
    by (auto simp: along_def image_iff case_prod_beta)
  then show ?thesis
    using assms offset_at_updates [of h p n 0] offset_at_updates [of h p 0 n]
    by (cases xdir) (simp_all add: ZShiftRegion_def)
qed

lemma ZOpRegion_updates:
  assumes "\<forall>n. al n" "wf_region (deref h a)" "wf_region (deref h b)" "a \<noteq> b"
  shows "updates h (ZOpRegion al grow h a b a) a
    (if grow then points (deref h a) \<union> points (deref h b) else points (deref h a) \<inter> points (deref h b))"
  using XUnionRegion_updates [OF assms(1-3)] XIntersectRegion_updates [OF assms(1-3)] assms(4)
  by (simp add: ZOpRegion_def)

lemma short_spread:
  assumes "short_points A" "short_points (along xdir (- int n) ` A)" "k + j \<le> n"
  shows "short_points (along xdir (- int j) ` spread grow xdir k A)"
proof -
  have sh: "short_points {along xdir (- int i) q}" if "q \<in> A" "i \<le> n" for q i
    using assms(1,2) that by (cases q) (fastforce simp: short_points_def along_def)
  have "short_points {along xdir (- int j) p}" if "p \<in> spread grow xdir k A" for p
  proof -
    have "\<exists>m\<le>k. along xdir (int m) p \<in> A" using that by (cases grow) (auto simp: spread_def)
    then obtain m where "m \<le> k" "along xdir (int m) p \<in> A" by blast
    then show ?thesis using sh [of "along xdir (int m) p" "j + m"] assms(3) by simp
  qed
  then show ?thesis by (force simp: short_points_def)
qed

section \<open>The loop\<close>

text \<open>
  The invariant of the loop: \<open>r\<close> holds the runs of the bits done so far, \<open>s\<close> those of length
  \<open>2 ^ i\<close>, and nothing but the three regions has changed.
\<close>

definition holds_runs :: "rheap \<Rightarrow> nat \<Rightarrow> (int \<times> int) set \<Rightarrow> bool" where
  "holds_runs h p S \<longleftrightarrow> wf_region (deref h p) \<and> points (deref h p) = S"

definition untouched :: "nat set \<Rightarrow> rheap \<Rightarrow> rheap \<Rightarrow> bool" where
  "untouched P h h' \<longleftrightarrow> (\<forall>q. q \<notin> P \<longrightarrow> cells h' q = cells h q) \<and> brk h \<le> brk h'"

lemma updates_holds: "updates h h' p S \<Longrightarrow> holds_runs h' p S"
  by (simp add: updates_def holds_runs_def)

lemma updates_keeps: "\<lbrakk>updates h h' p S; holds_runs h q T; q \<noteq> p\<rbrakk> \<Longrightarrow> holds_runs h' q T"
  using updates_deref by (simp add: holds_runs_def)

lemma updates_untouched: "\<lbrakk>updates h h' p S; p \<in> P\<rbrakk> \<Longrightarrow> untouched P h h'"
  by (auto simp: updates_def untouched_def)

lemma untouched_trans: "\<lbrakk>untouched P h h'; untouched P h' h''\<rbrakk> \<Longrightarrow> untouched P h h''"
  by (simp add: untouched_def)

text \<open>One shift and combination: runs of lengths \<open>k\<close> and \<open>j + 1\<close> give runs of their sum.\<close>

lemma combine_step:
  assumes "\<forall>n. al n" "holds_runs h r (spread grow xdir k A)" "holds_runs h s (spread grow xdir j A)" "r \<noteq> s"
    and "short_points A" "short_points (along xdir (- int n) ` A)" "k + Suc j \<le> n"
    and h': "h' = ZOpRegion al grow (ZShiftRegion xdir h r (- int (Suc j))) r s r"
  shows "updates h h' r (spread grow xdir (k + Suc j) A)"
proof -
  let ?h = "ZShiftRegion xdir h r (- int (Suc j))"
  have r: "wf_region (deref h r)" "points (deref h r) = spread grow xdir k A" using assms(2) by (auto simp: holds_runs_def)
  have u: "updates h ?h r (along xdir (- int (Suc j)) ` spread grow xdir k A)"
    using ZShiftRegion_updates [OF r(1), of xdir "- int (Suc j)"] short_spread [OF assms(5-7)] r(2) by simp
  have s: "holds_runs ?h s (spread grow xdir j A)" using updates_keeps [OF u assms(3)] assms(4) by simp
  have "updates ?h h' r (spread grow xdir (k + Suc j) A)"
    using ZOpRegion_updates [OF assms(1) _ _ assms(4), of ?h grow] updates_holds [OF u] s
    unfolding h' spread_step holds_runs_def by (cases grow) (simp_all del: of_nat_Suc)
  then show ?thesis using u by (auto simp: updates_def)
qed

lemma ZCopyRegion_updates:
  "\<lbrakk>\<forall>n. al n; holds_runs h a S\<rbrakk> \<Longrightarrow> updates h (ZCopyRegion al h a b) b S"
  using XUnionRegion_updates [of al h a a b] by (simp add: ZCopyRegion_def holds_runs_def)

lemma bit_of_multiple: "(q * 2 ^ i) AND 2 ^ i \<noteq> (0 :: nat) \<longleftrightarrow> odd q"
proof -
  have "(q * 2 ^ i) AND 2 ^ i \<noteq> 0 \<longleftrightarrow> bit (q * 2 ^ i) i" by (simp add: and_exp_eq_0_iff_not_bit)
  then show ?thesis by (simp add: bit_iff_odd)
qed

lemma compress_loop_runs:
  assumes "\<forall>n. al n" "r \<noteq> s" "r \<noteq> t" "s \<noteq> t" "short_points A" "short_points (along xdir (- int n) ` A)" "n < 4294967296"
    and "holds_runs h r (spread grow xdir k A)" "holds_runs h s (spread grow xdir (2 ^ i - 1) A)"
    and "q < 2 ^ f" "0 < f" "k + q * 2 ^ i = n" "0 < q \<or> k = n"
  shows "\<exists>h'. compress_loop f al r s t xdir grow (q * 2 ^ i) (2 ^ i) h = Some h'
    \<and> holds_runs h' r (spread grow xdir n A) \<and> untouched {r, s, t} h h'"
  using assms(8-13)
proof (induction f arbitrary: h k q i)
  case (Suc f)
  define j where "j = 2 ^ i - (1 :: nat)"
  have j: "Suc j = 2 ^ i" by (simp add: j_def)
  show ?case
  proof (cases "q = 0")
    case True
    then show ?thesis using Suc.prems by (auto simp: untouched_def)
  next
    case False
    define h1 where "h1 = (if odd q then ZOpRegion al grow (ZShiftRegion xdir h r (- int (Suc j))) r s r else h)"
    define k1 where "k1 = (if odd q then k + Suc j else k)"
    have s: "holds_runs h s (spread grow xdir j A)" using Suc.prems(2) by (simp add: j_def)
    have "k1 \<le> n" using Suc.prems(5) False by (cases q) (auto simp: k1_def j)
    then have r1: "holds_runs h1 r (spread grow xdir k1 A)" "holds_runs h1 s (spread grow xdir j A)" "untouched {r, s, t} h h1"
      using combine_step [OF assms(1) Suc.prems(1) s assms(2,5,6) _ refl] Suc.prems(1) s assms(2)
      by (auto simp: h1_def k1_def untouched_def updates_def holds_runs_def deref_def)
    show ?thesis
    proof (cases "q = 1")
      case True
      then show ?thesis
        using Suc.prems(5) r1 bit_of_multiple [of q i] by (auto simp: h1_def k1_def j Let_def)
    next
      case q: False
      define q1 where "q1 = q div 2"
      have q1: "q = 2 * q1 + (if odd q then 1 else 0)" "0 < q1" using \<open>q \<noteq> 0\<close> q by (auto simp: q1_def)
      then have n: "k1 + q1 * 2 ^ Suc i = n" using Suc.prems(5) by (simp add: k1_def j algebra_simps split: if_splits)
      define h2 where "h2 = ZCopyRegion al h1 s t"
      define h4 where "h4 = ZOpRegion al grow (ZShiftRegion xdir h2 s (- int (Suc j))) s t s"
      have u2: "updates h1 h2 t (spread grow xdir j A)" unfolding h2_def by (rule ZCopyRegion_updates [OF assms(1) r1(2)])
      have "j + Suc j \<le> n" using n q1(2) j by (cases q1) auto
      then have u4: "updates h2 h4 s (spread grow xdir (j + Suc j) A)"
        using combine_step [OF assms(1) updates_keeps [OF u2 r1(2)] updates_holds [OF u2] _ assms(5,6) _ h4_def] assms(4) by simp
      have h4: "holds_runs h4 r (spread grow xdir k1 A)" "holds_runs h4 s (spread grow xdir (2 ^ Suc i - 1) A)"
        using updates_keeps [OF u4 updates_keeps [OF u2 r1(1)]] updates_holds [OF u4] assms(2,3)
        by (simp_all add: j_def mult_2)
      have "untouched {r, s, t} h h4"
        using untouched_trans [OF untouched_trans [OF r1(3) updates_untouched [OF u2]] updates_untouched [OF u4]] by simp
      moreover have f: "q1 < 2 ^ f" using Suc.prems(3) by (simp add: q1_def less_mult_imp_div_less mult.commute)
      then have "0 < f" using q1(2) by (cases f) simp_all
      then obtain h' where "compress_loop f al r s t xdir grow (q1 * 2 ^ Suc i) (2 ^ Suc i) h4 = Some h'"
        "holds_runs h' r (spread grow xdir n A)" "untouched {r, s, t} h4 h'"
        using Suc.IH [OF h4 f _ n] q1(2) by blast
      moreover have "2 * 2 ^ i mod 4294967296 = (2 ^ Suc i :: nat)"
        using n q1(2) assms(7) by (cases q1) auto
      moreover have "(if odd q then q * 2 ^ i - 2 ^ i else q * 2 ^ i) = q1 * 2 ^ Suc i"
        by (subst (1 2) q1(1)) (simp add: algebra_simps)
      ultimately show ?thesis
        using False q q1(2) bit_of_multiple [of q i] untouched_trans [of "{r, s, t}" h h4 h']
        by (auto simp: Let_def h1_def h2_def h4_def j)
    qed
  qed
qed simp

lemma Compress_runs:
  assumes "\<forall>n. al n" "r \<noteq> s" "r \<noteq> t" "s \<noteq> t" "short_points A" "short_points (along xdir (- int n) ` A)" "n < 4294967296"
    and "holds_runs h r A"
  obtains h' where "Compress al h r s t n xdir grow = Some h'"
    "holds_runs h' r (spread grow xdir n A)" "untouched {r, s, t} h h'"
proof -
  let ?h = "ZCopyRegion al h r s"
  have u: "updates h ?h s A" by (rule ZCopyRegion_updates [OF assms(1,8)])
  have h: "holds_runs ?h r (spread grow xdir 0 A)" "holds_runs ?h s (spread grow xdir (2 ^ 0 - 1) A)"
    using updates_keeps [OF u assms(8)] updates_holds [OF u] assms(2) by simp_all
  have "n < 2 ^ 32" "0 < (32 :: nat)" "0 + n * 2 ^ 0 = n" "0 < n \<or> 0 = n" using assms(7) by auto
  from compress_loop_runs [OF assms(1-7) h this] that show ?thesis
    using untouched_trans [OF updates_untouched [OF u, of "{r, s, t}"]] by (auto simp: Compress_def)
qed

section \<open>Erosion and dilation\<close>

text \<open>The points all of whose neighbours within \<open>d\<close> steps are in the set; for negative \<open>d\<close>, those with some neighbour.\<close>

definition eroded :: "bool \<Rightarrow> int \<Rightarrow> (int \<times> int) set \<Rightarrow> (int \<times> int) set" where
  "eroded xdir d A =
     {p. if d < 0 then \<exists>m. \<bar>m\<bar> \<le> - d \<and> along xdir m p \<in> A else \<forall>m. \<bar>m\<bar> \<le> d \<longrightarrow> along xdir m p \<in> A}"

text \<open>Room for the doubled step to the left and the step to the right of every point.\<close>

definition roomy :: "bool \<Rightarrow> int \<Rightarrow> (int \<times> int) set \<Rightarrow> bool" where
  "roomy xdir d A \<longleftrightarrow> short_points A \<and> short_points (along xdir (- 2 * \<bar>d\<bar>) ` A) \<and> short_points (along xdir \<bar>d\<bar> ` A)"

lemma ex_shifted: "(\<exists>m\<le>2 * d. P (int m)) \<longleftrightarrow> (\<exists>m. \<bar>m\<bar> \<le> int d \<and> P (m + int d))"
proof
  assume "\<exists>m\<le>2 * d. P (int m)"
  then obtain m where "m \<le> 2 * d" "P (int m)" by blast
  then show "\<exists>m. \<bar>m\<bar> \<le> int d \<and> P (m + int d)" by (intro exI [of _ "int m - int d"]) auto
next
  assume "\<exists>m. \<bar>m\<bar> \<le> int d \<and> P (m + int d)"
  then obtain m where "\<bar>m\<bar> \<le> int d" "P (m + int d)" by blast
  then show "\<exists>m\<le>2 * d. P (int m)" by (intro exI [of _ "nat (m + int d)"]) auto
qed

lemma all_shifted: "(\<forall>m\<le>2 * d. P (int m)) \<longleftrightarrow> (\<forall>m. \<bar>m\<bar> \<le> int d \<longrightarrow> P (m + int d))"
  using ex_shifted [of d "\<lambda>m. \<not> P m"] by blast

lemma eroded_spread: "along xdir \<bar>d\<bar> p \<in> eroded xdir d A \<longleftrightarrow> p \<in> spread (d < 0) xdir (2 * nat \<bar>d\<bar>) A"
  using ex_shifted [of "nat \<bar>d\<bar>" "\<lambda>m. along xdir m p \<in> A"] all_shifted [of "nat \<bar>d\<bar>" "\<lambda>m. along xdir m p \<in> A"]
  by (cases "d < 0") (simp_all add: eroded_def spread_def add.commute)

lemma along_image_iff: "p \<in> along xdir n ` B \<longleftrightarrow> along xdir (- n) p \<in> B"
  by (auto simp: image_iff intro!: bexI [of _ "along xdir (- n) p"])

lemma eroded_image: "eroded xdir d A = along xdir \<bar>d\<bar> ` spread (d < 0) xdir (2 * nat \<bar>d\<bar>) A"
  using eroded_spread [of xdir d "along xdir (- \<bar>d\<bar>) p" A for p] by (intro set_eqI) (simp add: along_image_iff)

lemma compress_axis_spread:
  assumes "\<forall>n. al n" "r \<noteq> s" "r \<noteq> t" "s \<noteq> t" "roomy xdir d A" "\<bar>d\<bar> < 2147483648" "holds_runs h r A"
  obtains h' where "compress_axis al r s t d xdir h = Some h'"
    "holds_runs h' r (spread (d < 0) xdir (2 * nat \<bar>d\<bar>) A)" "untouched {r, s, t} h h'"
proof (cases "d = 0")
  case True
  then show ?thesis using assms(7) that [of h] by (simp add: compress_axis_def untouched_def)
next
  case False
  have "short_points A" "short_points (along xdir (- int (2 * nat \<bar>d\<bar>)) ` A)" "2 * nat \<bar>d\<bar> < 4294967296"
    using assms(5,6) by (simp_all add: roomy_def)
  from Compress_runs [OF assms(1-4) this assms(7), of "d < 0"] that show ?thesis
    using False assms(6) by (auto simp: compress_axis_def)
qed

text \<open>Every point has room in both directions for the steps of XShrinkRegion.\<close>

definition headroom :: "int \<Rightarrow> int \<Rightarrow> (int \<times> int) set \<Rightarrow> bool" where
  "headroom dx dy A \<longleftrightarrow> (\<forall>(x, y)\<in>A. - 32768 \<le> x - 2 * \<bar>dx\<bar> \<and> x + \<bar>dx\<bar> < 32767
     \<and> - 32768 \<le> y - 2 * \<bar>dy\<bar> \<and> y + \<bar>dy\<bar> < 32767)"

lemma headroom_x: "headroom dx dy A \<Longrightarrow> roomy True dx A"
  by (fastforce simp: headroom_def roomy_def short_points_def along_def)

lemma spread_some: "p \<in> spread grow xdir n A \<Longrightarrow> \<exists>m\<le>n. along xdir (int m) p \<in> A"
  by (cases grow) (auto simp: spread_def)

lemma headroom_y:
  assumes "headroom dx dy A"
  shows "roomy False dy (spread g True (2 * nat \<bar>dx\<bar>) A)"
proof -
  have "\<exists>x'. x \<le> x' \<and> x' \<le> x + 2 * \<bar>dx\<bar> \<and> (x', y) \<in> A" if p: "(x, y) \<in> spread g True (2 * nat \<bar>dx\<bar>) A" for x y
  proof -
    obtain m where "m \<le> 2 * nat \<bar>dx\<bar>" "(x + int m, y) \<in> A" using spread_some [OF p] by (auto simp: along_def)
    then show ?thesis by (intro exI [of _ "x + int m"]) auto
  qed
  then have "- 32768 \<le> x \<and> x < 32767 \<and> - 32768 \<le> y - 2 * \<bar>dy\<bar> \<and> y + \<bar>dy\<bar> < 32767"
    if "(x, y) \<in> spread g True (2 * nat \<bar>dx\<bar>) A" for x y
    using that assms by (fastforce simp: headroom_def)
  then show ?thesis by (fastforce simp: roomy_def short_points_def along_def)
qed

lemma room_shift:
  assumes "headroom dx dy A"
  shows "short_points ((\<lambda>(u, v). (u + \<bar>dx\<bar>, v + \<bar>dy\<bar>)) `
    spread g' False (2 * nat \<bar>dy\<bar>) (spread g True (2 * nat \<bar>dx\<bar>) A))"
proof -
  have "\<exists>x' y'. x \<le> x' \<and> x' \<le> x + 2 * \<bar>dx\<bar> \<and> y \<le> y' \<and> y' \<le> y + 2 * \<bar>dy\<bar> \<and> (x', y') \<in> A"
    if p: "(x, y) \<in> spread g' False (2 * nat \<bar>dy\<bar>) (spread g True (2 * nat \<bar>dx\<bar>) A)" for x y
  proof -
    obtain m where m: "m \<le> 2 * nat \<bar>dy\<bar>" "(x, y + int m) \<in> spread g True (2 * nat \<bar>dx\<bar>) A"
      using spread_some [OF p] by (auto simp: along_def)
    obtain n where "n \<le> 2 * nat \<bar>dx\<bar>" "(x + int n, y + int m) \<in> A"
      using spread_some [OF m(2)] by (auto simp: along_def)
    with m(1) show ?thesis by (intro exI [of _ "x + int n"] exI [of _ "y + int m"]) auto
  qed
  then show ?thesis using assms by (fastforce simp: headroom_def short_points_def)
qed

lemma eroded_eroded:
  "eroded False dy (eroded True dx A) =
     (\<lambda>(u, v). (u + \<bar>dx\<bar>, v + \<bar>dy\<bar>)) ` spread (dy < 0) False (2 * nat \<bar>dy\<bar>) (spread (dx < 0) True (2 * nat \<bar>dx\<bar>) A)"
proof -
  have "spread g False n (along True d ` B) = along True d ` spread g False n B" for g n d B
    by (auto simp: spread_def along_image_iff) (auto simp: along_def)
  then show ?thesis
    by (simp add: eroded_image image_image) (auto simp: along_def case_prod_beta)
qed

lemma XShrinkRegion_updates:
  assumes "\<forall>n. al n" "wf_heap h" "r < brk h" "wf_region (deref h r)"
    and "\<bar>dx\<bar> < 2147483648" "\<bar>dy\<bar> < 2147483648" "headroom dx dy (points (deref h r))"
  shows "\<exists>h'. XShrinkRegion al h r dx dy = Some h'
    \<and> updates h h' r (eroded False dy (eroded True dx (points (deref h r))))"
proof (cases "dx = 0 \<and> dy = 0")
  case True
  then show ?thesis using assms(4) by (simp add: XShrinkRegion_def updates_refl eroded_image image_def)
next
  case False
  let ?s = "brk h" and ?t = "Suc (brk h)" and ?A = "points (deref h r)"
  let ?P = "{r, ?s, ?t}"
  obtain h1 h2 where h1: "XCreateRegion al h = Some (h1, ?s)" and h2: "XCreateRegion al h1 = Some (h2, ?t)"
    and un: "untouched ?P h h2" and r2: "deref h2 r = deref h r"
    using assms(1,3) by (fastforce simp: XCreateRegion_def Xmalloc_def untouched_def deref_def)
  have ne: "r \<noteq> ?s" "r \<noteq> ?t" "?s \<noteq> ?t" using assms(3) by simp_all
  have "holds_runs h2 r ?A" using assms(4) r2 by (simp add: holds_runs_def)
  from compress_axis_spread [OF assms(1) ne headroom_x [OF assms(7)] assms(5) this]
  obtain h3 where h3: "compress_axis al r ?s ?t dx True h2 = Some h3"
    "holds_runs h3 r (spread (dx < 0) True (2 * nat \<bar>dx\<bar>) ?A)" "untouched ?P h2 h3" by blast
  from compress_axis_spread [OF assms(1) ne headroom_y [OF assms(7)] assms(6) h3(2)]
  obtain h4 where h4: "compress_axis al r ?s ?t dy False h3 = Some h4"
    "holds_runs h4 r (spread (dy < 0) False (2 * nat \<bar>dy\<bar>) (spread (dx < 0) True (2 * nat \<bar>dx\<bar>) ?A))"
    "untouched ?P h3 h4" by blast
  let ?h = "offset_at h4 r \<bar>dx\<bar> \<bar>dy\<bar>"
  have u: "updates h4 ?h r (eroded False dy (eroded True dx ?A))"
    using offset_at_updates [of h4 r "\<bar>dx\<bar>" "\<bar>dy\<bar>"] h4(2) room_shift [OF assms(7)]
    by (simp add: eroded_eroded holds_runs_def)
  have "untouched ?P h ?h"
    using untouched_trans [OF untouched_trans [OF untouched_trans [OF un h3(3)] h4(3)] updates_untouched [OF u]] by simp
  then have "updates h (XDestroyRegion (XDestroyRegion ?h ?s) ?t) r (eroded False dy (eroded True dx ?A))"
    using u ne assms(2) by (auto simp: updates_def untouched_def XDestroyRegion_def wf_heap_def deref_def)
  then show ?thesis using False h1 h2 h3(1) h4(1) by (auto simp: XShrinkRegion_def)
qed

section \<open>The property\<close>

text \<open>
  XShrinkRegion returns, whatever the steps are, and leaves in \<open>r\<close> the well-formed region of
  the points all of whose neighbours within the steps lie in the old region, first along the
  lines and then across them (of the points with some such neighbour along an axis whose step is
  negative). Its two scratch regions are destroyed and no other region changes. The binary
  decomposition of the steps in Compress is exact.
\<close>

theorem XShrinkRegion_erodes:
  assumes "\<forall>n. al n" "wf_heap h" "r < brk h" "wf_region (deref h r)"
    and "\<bar>dx\<bar> < 2147483648" "\<bar>dy\<bar> < 2147483648" "headroom dx dy (points (deref h r))"
  shows "\<exists>h'. XShrinkRegion al h r dx dy = Some h'
    \<and> updates h h' r (eroded False dy (eroded True dx (points (deref h r))))"
  using assms by (rule XShrinkRegion_updates)

theorem XShrinkRegion_erodes_witness:
  "\<exists>h'. XShrinkRegion (\<lambda>_. True) squares 0 3 (- 2) = Some h'
    \<and> updates squares h' 0 (eroded False (- 2) (eroded True 3 {(x, y). 0 \<le> x \<and> x < 10 \<and> 0 \<le> y \<and> y < 10}))"
  using XShrinkRegion_erodes [of "\<lambda>_. True" squares 0 3 "- 2"] by (simp add: headroom_def)

end
