(* ===== verification/RfbRegion.thy ===== *)
theory RfbRegion
  imports XRegionShrink
begin

text \<open>
  The region class of the RFB server, \<^verbatim>\<open>src/common/rfb/Region.cxx\<close>, and the points and
  rectangles of \<^verbatim>\<open>Rect.h\<close>. An rfb::Region owns one X region; a member function is the X
  routine run on a heap that holds the operands (and, where a new region is returned, a fresh
  one). Memory for regions is taken to be available: the constructors assert it.

  The fields of Point and Rect are C ints. Screen coordinates are at most 16384, so their
  sums stay far from the end of the range and the fields are kept as \<^typ>\<open>int\<close>; where they
  are stored into an X region they are cut to shorts.
\<close>

section \<open>Points and rectangles\<close>

record Point =
  px :: int
  py :: int

record Rect =
  rtl :: Point
  rbr :: Point

definition mkPoint :: "int \<Rightarrow> int \<Rightarrow> Point" where
  "mkPoint x y = \<lparr>px = x, py = y\<rparr>"

definition mkRect :: "int \<Rightarrow> int \<Rightarrow> int \<Rightarrow> int \<Rightarrow> Rect" where
  "mkRect x1 y1 x2 y2 = \<lparr>rtl = mkPoint x1 y1, rbr = mkPoint x2 y2\<rparr>"

definition Point_negate :: "Point \<Rightarrow> Point" where
  "Point_negate p = mkPoint (- px p) (- py p)"

definition Point_translate :: "Point \<Rightarrow> Point \<Rightarrow> Point" where
  "Point_translate p q = mkPoint (px p + px q) (py p + py q)"

definition Point_subtract :: "Point \<Rightarrow> Point \<Rightarrow> Point" where
  "Point_subtract p q = mkPoint (px p - px q) (py p - py q)"

definition rfbmax :: "int \<Rightarrow> int \<Rightarrow> int" where
  "rfbmax a b = (if a > b then a else b)"

definition rfbmin :: "int \<Rightarrow> int \<Rightarrow> int" where
  "rfbmin a b = (if a < b then a else b)"

definition Rect_is_empty :: "Rect \<Rightarrow> bool" where
  "Rect_is_empty r \<longleftrightarrow> px (rtl r) \<ge> px (rbr r) \<or> py (rtl r) \<ge> py (rbr r)"

definition setXYWH :: "int \<Rightarrow> int \<Rightarrow> int \<Rightarrow> int \<Rightarrow> Rect" where
  "setXYWH x y w h = mkRect x y (x + w) (y + h)"

definition Rect_intersect :: "Rect \<Rightarrow> Rect \<Rightarrow> Rect" where
  "Rect_intersect a r =
     (let x1 = rfbmax (px (rtl a)) (px (rtl r)); y1 = rfbmax (py (rtl a)) (py (rtl r))
      in mkRect x1 y1 (rfbmax (rfbmin (px (rbr a)) (px (rbr r))) x1)
           (rfbmax (rfbmin (py (rbr a)) (py (rbr r))) y1))"

definition Rect_union_boundary :: "Rect \<Rightarrow> Rect \<Rightarrow> Rect" where
  "Rect_union_boundary a r =
     (if Rect_is_empty r then a
      else if Rect_is_empty a then r
      else mkRect (rfbmin (px (rtl a)) (px (rtl r))) (rfbmin (py (rtl a)) (py (rtl r)))
             (rfbmax (px (rbr a)) (px (rbr r))) (rfbmax (py (rbr a)) (py (rbr r))))"

definition Rect_translate :: "Rect \<Rightarrow> Point \<Rightarrow> Rect" where
  "Rect_translate r p = \<lparr>rtl = Point_translate (rtl r) p, rbr = Point_translate (rbr r) p\<rparr>"

definition Rect_enclosed_by :: "Rect \<Rightarrow> Rect \<Rightarrow> bool" where
  "Rect_enclosed_by a r \<longleftrightarrow>
     px (rtl a) \<ge> px (rtl r) \<and> py (rtl a) \<ge> py (rtl r) \<and> px (rbr a) \<le> px (rbr r) \<and> py (rbr a) \<le> py (rbr r)"

definition Rect_overlaps :: "Rect \<Rightarrow> Rect \<Rightarrow> bool" where
  "Rect_overlaps a r \<longleftrightarrow>
     px (rtl a) < px (rbr r) \<and> py (rtl a) < py (rbr r) \<and> px (rbr a) > px (rtl r) \<and> py (rbr a) > py (rtl r)"

definition Rect_width :: "Rect \<Rightarrow> int" where
  "Rect_width r = px (rbr r) - px (rtl r)"

definition Rect_height :: "Rect \<Rightarrow> int" where
  "Rect_height r = py (rbr r) - py (rtl r)"

definition Rect_area :: "Rect \<Rightarrow> int" where
  "Rect_area r = (if Rect_is_empty r then 0 else (px (rbr r) - px (rtl r)) * (py (rbr r) - py (rtl r)))"

definition Rect_contains :: "Rect \<Rightarrow> Point \<Rightarrow> bool" where
  "Rect_contains r p \<longleftrightarrow> px (rtl r) \<le> px p \<and> py (rtl r) \<le> py p \<and> px (rbr r) > px p \<and> py (rbr r) > py p"

lemmas rect_sels = mkPoint_def mkRect_def Point_negate_def Point_translate_def Point_subtract_def
  Rect_translate_def setXYWH_def Rect_width_def Rect_height_def

section \<open>The region class\<close>

definition mem_ok :: "nat \<Rightarrow> bool" where
  "mem_ok n \<longleftrightarrow> True"

definition Region_new :: REGION where
  "Region_new = \<lparr>rsize = 1, numRects = 0, rects = [], extents = nullBox, lost = 0\<rparr>"

text \<open>The operands of a call at the addresses 0 and 1, and a new region at 2.\<close>

definition operands :: "REGION \<Rightarrow> REGION \<Rightarrow> rheap" where
  "operands a b = \<lparr>cells = [0 \<mapsto> a, 1 \<mapsto> b, 2 \<mapsto> Region_new], brk = 3\<rparr>"

definition short_box :: "Rect \<Rightarrow> BOX" where
  "short_box r = mkBox (c_short (px (rtl r))) (c_short (py (rtl r))) (c_short (px (rbr r))) (c_short (py (rbr r)))"

definition RectRegion :: "Rect \<Rightarrow> REGION" where
  "RectRegion r =
     \<lparr>rsize = 1, numRects = (if Rect_is_empty r then 0 else 1), rects = [short_box r], extents = short_box r, lost = 0\<rparr>"

definition Region_clear :: "REGION \<Rightarrow> REGION" where
  "Region_clear r = r\<lparr>numRects := 0, extents := nullBox\<rparr>"

text \<open>reset writes the first box of the array, which is there as the size is never 0.\<close>

definition Region_reset :: "REGION \<Rightarrow> Rect \<Rightarrow> REGION" where
  "Region_reset x r =
     (if Rect_is_empty r then Region_clear x
      else x\<lparr>numRects := 1, rects := short_box r # tl (rects x), extents := short_box r\<rparr>)"

definition Region_of_rect :: "Rect \<Rightarrow> REGION" where
  "Region_of_rect r = Region_reset Region_new r"

definition Region_copy :: "REGION \<Rightarrow> REGION" where
  "Region_copy r = deref (XUnionRegion mem_ok (operands Region_new r) 0 1 0) 0"

definition Region_assign :: "REGION \<Rightarrow> REGION \<Rightarrow> REGION" where
  "Region_assign x r = deref (XUnionRegion mem_ok (operands (Region_clear x) r) 0 1 0) 0"

text \<open>operator= with the same object on both sides: the cleared region is united with itself.\<close>

definition Region_assign_self :: "REGION \<Rightarrow> REGION" where
  "Region_assign_self x = deref (XUnionRegion mem_ok (operands (Region_clear x) x) 0 0 0) 0"

definition Region_translate :: "REGION \<Rightarrow> Point \<Rightarrow> REGION" where
  "Region_translate x delta = XOffsetRegion x (px delta) (py delta)"

definition Region_setOrderedRects :: "REGION \<Rightarrow> Rect list \<Rightarrow> REGION" where
  "Region_setOrderedRects x rs =
     fold (\<lambda>r x. deref (XUnionRegion mem_ok (operands x (RectRegion r)) 0 1 0) 0) rs (Region_clear x)"

text \<open>
  setExtentsAndOrderedRects takes extents and boxes that are shorts. When the realloc fails
  the array is freed and the rest of the region is left as it was.
\<close>

definition setExtentsAndOrderedRects :: "(nat \<Rightarrow> bool) \<Rightarrow> REGION \<Rightarrow> BOX \<Rightarrow> BOX list \<Rightarrow> REGION" where
  "setExtentsAndOrderedRects al x e rs =
     (if rsize x < length rs \<and> \<not> Xrealloc al (length rs * sizeof_BOX) then x\<lparr>rects := []\<rparr>
      else x\<lparr>rsize := max (rsize x) (length rs), numRects := length rs, extents := e,
             rects := rs @ drop (length rs) (rects x)\<rparr>)"

definition Region_assign_intersect :: "REGION \<Rightarrow> REGION \<Rightarrow> REGION" where
  "Region_assign_intersect x r = deref (XIntersectRegion mem_ok (operands x r) 0 1 0) 0"

definition Region_assign_union :: "REGION \<Rightarrow> REGION \<Rightarrow> REGION" where
  "Region_assign_union x r = deref (XUnionRegion mem_ok (operands x r) 0 1 0) 0"

definition Region_assign_subtract :: "REGION \<Rightarrow> REGION \<Rightarrow> REGION" where
  "Region_assign_subtract x r = deref (XSubtractRegion mem_ok (operands x r) 0 1 0) 0"

definition Region_intersect :: "REGION \<Rightarrow> REGION \<Rightarrow> REGION" where
  "Region_intersect x r = deref (XIntersectRegion mem_ok (operands x r) 0 1 2) 2"

definition Region_union :: "REGION \<Rightarrow> REGION \<Rightarrow> REGION" where
  "Region_union x r = deref (XUnionRegion mem_ok (operands x r) 0 1 2) 2"

definition Region_subtract :: "REGION \<Rightarrow> REGION \<Rightarrow> REGION" where
  "Region_subtract x r = deref (XSubtractRegion mem_ok (operands x r) 0 1 2) 2"

definition Region_equals :: "REGION \<Rightarrow> REGION \<Rightarrow> bool" where
  "Region_equals x r = XEqualRegion x r"

definition Region_is_empty :: "REGION \<Rightarrow> bool" where
  "Region_is_empty x \<longleftrightarrow> numRects x = 0"

definition get_bounding_rect :: "REGION \<Rightarrow> Rect" where
  "get_bounding_rect x = mkRect (bx1 (extents x)) (by1 (extents x)) (bx2 (extents x)) (by2 (extents x))"

definition Region_contains :: "REGION \<Rightarrow> int \<Rightarrow> int \<Rightarrow> bool" where
  "Region_contains x a b = XPointInRegion x a b"

section \<open>Enumerating the rectangles\<close>

text \<open>
  get\_rects walks the array by index. \<open>band_scan\<close> is its first inner loop (it returns
  firstInNextBand, nRects and nRectsInBand), \<open>push_band\<close> the second one.
\<close>

fun band_scan :: "BOX list \<Rightarrow> int \<Rightarrow> int \<Rightarrow> int \<Rightarrow> nat \<Rightarrow> nat \<Rightarrow> int \<times> nat \<times> nat" where
  "band_scan rs yInc i first nRects nInBand =
     (if nRects > 0 \<and> by1 (rs ! nat first) = by1 (rs ! nat i)
      then band_scan rs yInc i (first + yInc) (nRects - 1) (nInBand + 1)
      else (first, nRects, nInBand))"

declare band_scan.simps [simp del]

definition rect_of_box :: "BOX \<Rightarrow> Rect" where
  "rect_of_box b = mkRect (bx1 b) (by1 b) (bx2 b) (by2 b)"

fun push_band :: "BOX list \<Rightarrow> int \<Rightarrow> int \<Rightarrow> nat \<Rightarrow> Rect list \<Rightarrow> Rect list" where
  "push_band rs xInc i 0 out = out"
| "push_band rs xInc i (Suc n) out = push_band rs xInc (i + xInc) n (out @ [rect_of_box (rs ! nat i)])"

lemma band_scan_le: "fst (snd (band_scan rs yInc i first n k)) \<le> n"
  by (induction rs yInc i first n k rule: band_scan.induct) (subst band_scan.simps, auto)

lemma band_scan_less: "0 < n \<Longrightarrow> fst (snd (band_scan rs yInc i i n k)) < n"
  using band_scan_le [of rs yInc i "i + yInc" "n - 1" "k + 1"] by (subst band_scan.simps) simp

function get_rects_loop :: "BOX list \<Rightarrow> int \<Rightarrow> int \<Rightarrow> int \<Rightarrow> nat \<Rightarrow> Rect list \<Rightarrow> Rect list" where
  "get_rects_loop rs xInc yInc i nRects out =
     (if nRects > 0 then
        (case band_scan rs yInc i i nRects 0 of (first, n, k) \<Rightarrow>
           get_rects_loop rs xInc yInc first n
             (push_band rs xInc (if xInc \<noteq> yInc then first - yInc else i) k out))
      else out)"
  by pat_completeness auto
termination
  by (relation "measure (\<lambda>(rs, xi, yi, i, n, out). n)") (simp, clarsimp, metis band_scan_less fst_conv snd_conv)

declare get_rects_loop.simps [simp del]

definition get_rects :: "REGION \<Rightarrow> bool \<Rightarrow> bool \<Rightarrow> Rect list" where
  "get_rects x left2right topdown =
     get_rects_loop (rects x) (if left2right then 1 else - 1) (if topdown then 1 else - 1)
       (if topdown then 0 else int (numRects x) - 1) (numRects x) []"

end
