(* ===== verification/RfbRegionLaws.thy ===== *)
theory RfbRegionLaws
  imports RfbRegion
begin

text \<open>
  What the member functions of rfb::Region do to the set of points of a region, and the
  invariant they rely on: the array of a region has room for at least one box.
\<close>

section \<open>Arrays only grow while a region is built\<close>

lemma add_box_rsize:
  assumes "\<And>q. rsize q \<le> rsize (k q)"
  shows "rsize p \<le> rsize (add_box al p b k)"
proof (cases "MEMCHECK al p")
  case (Inr r)
  then have "rsize p \<le> rsize r" by (auto simp: MEMCHECK_def split: if_splits)
  also have "\<dots> \<le> rsize (k (store_box r b))" using assms [of "store_box r b"] by (simp add: store_box_def)
  finally show ?thesis using Inr by (simp add: add_box_def)
next
  case (Inl r)
  then have "rsize p = rsize r" by (auto simp: MEMCHECK_def split: if_splits)
  then show ?thesis using Inl by (simp add: add_box_def)
qed

lemma MERGERECT_rsize: "(\<And>q. rsize q \<le> rsize (k q)) \<Longrightarrow> rsize p \<le> rsize (MERGERECT al p r y1 y2 k)"
proof -
  assume k: "\<And>q. rsize q \<le> rsize (k q)"
  then have "rsize p \<le> rsize (k (p\<lparr>rects := rs\<rparr>))" for rs using k [of "p\<lparr>rects := rs\<rparr>"] by simp
  then show ?thesis using k add_box_rsize [OF k, of p] by (simp add: MERGERECT_def Let_def)
qed

lemma miIntersectO_rsize: "rsize p \<le> rsize (miIntersectO al p r1 r2 y1 y2)"
  by (induction al p r1 r2 y1 y2 rule: miIntersectO.induct) (auto simp: Let_def intro!: add_box_rsize)

lemma miUnionNonO_rsize: "rsize p \<le> rsize (miUnionNonO al p r y1 y2)"
  by (induction r arbitrary: p) (auto intro!: add_box_rsize)

lemma miSubtractNonO1_rsize: "rsize p \<le> rsize (miSubtractNonO1 al p r y1 y2)"
  by (induction r arbitrary: p) (auto intro!: add_box_rsize)

lemma miUnionO_rsize: "rsize p \<le> rsize (miUnionO al p r1 r2 y1 y2)"
  by (induction al p r1 r2 y1 y2 rule: miUnionO.induct) (auto intro!: MERGERECT_rsize)

lemma miSubtractO_rsize: "rsize p \<le> rsize (miSubtractO al p r1 r2 y1 y2)"
proof -
  have "rsize p \<le> rsize (miSubtractO_loop al p x1 r1 r2 y1 y2)" for x1
    by (induction al p x1 r1 r2 y1 y2 rule: miSubtractO_loop.induct) (auto intro!: add_box_rsize)
  then show ?thesis by (simp add: miSubtractO_def)
qed

lemma miCoalesce_rsize [simp]: "rsize (fst (coalesce_new p a b)) = rsize p"
  by (simp add: coalesce_new_def miCoalesce_def Let_def)

definition grows_fun :: "nonoverlap_proc option \<Rightarrow> bool" where
  "grows_fun f \<longleftrightarrow> (\<forall>g. f = Some g \<longrightarrow> (\<forall>p r y1 y2. rsize p \<le> rsize (g p r y1 y2)))"

lemma call_nonoverlap_rsize: "grows_fun f \<Longrightarrow> rsize p \<le> rsize (call_nonoverlap f p r y1 y2)"
  by (auto simp: call_nonoverlap_def grows_fun_def split: option.split)

definition grows_ov :: "overlap_proc \<Rightarrow> bool" where
  "grows_ov f \<longleftrightarrow> (\<forall>p r1 r2 y1 y2. rsize p \<le> rsize (f p r1 r2 y1 y2))"

lemma region_op_body_rsize:
  assumes "grows_ov ov" "grows_fun n1" "grows_fun n2"
    and "region_op_body ov n1 n2 r1 r2 yb pb p = (p', pb', yb')"
  shows "rsize p \<le> rsize p'"
proof -
  let ?b1 = "hd r1" and ?b2 = "hd r2"
  let ?s = "if by1 ?b1 < by1 ?b2 then
               (call_nonoverlap n1 p (band r1) (max (by1 ?b1) yb) (min (by2 ?b1) (by1 ?b2)), by1 ?b2)
             else if by1 ?b2 < by1 ?b1 then
               (call_nonoverlap n2 p (band r2) (max (by1 ?b2) yb) (min (by2 ?b2) (by1 ?b1)), by1 ?b1)
             else (p, by1 ?b1)"
  obtain q1 yt where s: "?s = (q1, yt)" by (cases ?s)
  obtain q2 v2 where c2: "coalesce_new q1 pb (numRects p) = (q2, v2)" by (cases "coalesce_new q1 pb (numRects p)")
  define q3 where "q3 = (if min (by2 ?b1) (by2 ?b2) > yt then ov q2 (band r1) (band r2) yt (min (by2 ?b1) (by2 ?b2)) else q2)"
  have "rsize p \<le> rsize q1"
    using s call_nonoverlap_rsize [OF assms(2)] call_nonoverlap_rsize [OF assms(3)] by (auto split: if_splits)
  also have "\<dots> = rsize q2" using c2 miCoalesce_rsize [of q1 pb "numRects p"] by simp
  also have "\<dots> \<le> rsize q3" using assms(1) by (simp add: q3_def grows_ov_def)
  also have "\<dots> = rsize p'"
    using assms(4) s c2 miCoalesce_rsize [of q3 v2 "numRects q2"]
    by (auto simp: region_op_body_def Let_def q3_def split: prod.splits simp del: miCoalesce_rsize)
  finally show ?thesis .
qed

lemma region_op_loop_rsize:
  assumes "grows_ov ov" "grows_fun n1" "grows_fun n2"
  shows "rsize p \<le> rsize (snd (snd (snd (snd (region_op_loop ov n1 n2 r1 r2 yb pb p)))))"
  using assms
proof (induction ov n1 n2 r1 r2 yb pb p rule: region_op_loop.induct)
  case (1 ov n1 n2 r1 r2 yb pb p)
  show ?case
  proof (cases "r1 = [] \<or> r2 = []")
    case False
    obtain p' pb' yb' where b: "region_op_body ov n1 n2 r1 r2 yb pb p = (p', pb', yb')" by (metis prod_cases3)
    show ?thesis
      using "1.IH" [OF False b [symmetric] refl refl "1.prems"] region_op_body_rsize [OF "1.prems" b] False b
      by (subst region_op_loop.simps) (auto intro: order_trans)
  qed (simp add: region_op_loop.simps)
qed

lemma leftover_rsize: "grows_fun (Some g) \<Longrightarrow> rsize p \<le> rsize (leftover g p r yb)"
proof (induction g p r yb rule: leftover.induct)
  case (1 g p r yb)
  show ?case
  proof (cases "r = []")
    case False
    let ?q = "g p (band r) (max (by1 (hd r)) yb) (by2 (hd r))"
    have "rsize p \<le> rsize ?q" using "1.prems" by (simp add: grows_fun_def)
    also have "\<dots> \<le> rsize (leftover g ?q (after_band r) yb)" by (rule "1.IH" [OF False "1.prems"])
    finally show ?thesis using False by (simp add: leftover.simps)
  qed (simp add: leftover.simps)
qed

lemma region_op_tail_rsize:
  "\<lbrakk>grows_fun n1; grows_fun n2\<rbrakk> \<Longrightarrow> rsize p \<le> rsize (region_op_tail n1 n2 r1 r2 yb pb p)"
  by (auto simp: region_op_tail_def Let_def leftover_rsize split: option.splits)

lemma shrink_rects_rsize: "0 < rsize p \<Longrightarrow> 0 < rsize (shrink_rects al p)"
  by (simp add: shrink_rects_def)

lemma miRegionOp_rsize:
  assumes "grows_ov ov" "grows_fun n1" "grows_fun n2" "al = (\<lambda>_. True)"
    and "d \<noteq> r1 \<and> numRects (deref h r1) \<noteq> 0 \<or> d \<noteq> r2 \<and> numRects (deref h r2) \<noteq> 0"
  shows "0 < rsize (deref (miRegionOp al h d r1 r2 ov n1 n2) d)"
proof -
  let ?h = "put h d (EMPTY_REGION (deref h d))"
  let ?sz = "max (numRects (deref ?h r1)) (numRects (deref ?h r2)) * 2"
  let ?p = "(deref ?h d)\<lparr>rsize := ?sz, rects := [], lost := 0\<rparr>"
  let ?yb = "if by1 (extents (deref ?h r1)) < by1 (extents (deref ?h r2))
    then by1 (extents (deref ?h r1)) else by1 (extents (deref ?h r2))"
  obtain a b yb pb p where l:
    "region_op_loop ov n1 n2 (boxes (deref h r1)) (boxes (deref h r2)) ?yb 0 ?p = (a, b, yb, pb, p)"
    by (metis prod_cases5)
  have "0 < ?sz" using assms(5) by (auto simp: less_max_iff_disj)
  also have "\<dots> \<le> rsize p"
    using region_op_loop_rsize [OF assms(1-3), of ?p "boxes (deref h r1)" "boxes (deref h r2)" ?yb 0] by (simp only: l) simp
  also have "\<dots> \<le> rsize (region_op_tail n1 n2 a b yb pb p)" by (rule region_op_tail_rsize [OF assms(2,3)])
  finally show ?thesis
    using l shrink_rects_rsize [of _ "\<lambda>_. True"] by (simp add: miRegionOp_def Let_def Xmalloc_def assms(4))
qed

lemma miRegionCopy_rsize:
  "al = (\<lambda>_. True) \<Longrightarrow> 0 < rsize (deref h d) \<Longrightarrow> 0 < rsize (deref (miRegionCopy al h d r) d)"
  by (auto simp: miRegionCopy_def Let_def Xrealloc_def sizeof_BOX_def)

section \<open>The laws of the class\<close>

text \<open>The invariant of an rfb::Region: a canonical region whose array has room for a box.\<close>

definition rfb_region :: "REGION \<Rightarrow> bool" where
  "rfb_region r \<longleftrightarrow> wf_region r \<and> 0 < rsize r"

definition shifted :: "Point \<Rightarrow> (int \<times> int) set \<Rightarrow> (int \<times> int) set" where
  "shifted d A = {(x, y). (x - px d, y - py d) \<in> A}"

definition rect_area_of :: "Rect \<Rightarrow> (int \<times> int) set" where
  "rect_area_of r = {(x, y). px (rtl r) \<le> x \<and> x < px (rbr r) \<and> py (rtl r) \<le> y \<and> y < py (rbr r)}"

definition short_rect :: "Rect \<Rightarrow> bool" where
  "short_rect r \<longleftrightarrow> in_short (px (rtl r)) \<and> in_short (py (rtl r)) \<and> in_short (px (rbr r)) \<and> in_short (py (rbr r))"

lemma mem_ok_eq: "mem_ok = (\<lambda>_. True)"
  by (simp add: mem_ok_def fun_eq_iff)

lemma mem_ok_all: "\<forall>n. mem_ok n"
  by (simp add: mem_ok_def)

lemma operands_deref [simp]:
  "deref (operands a b) 0 = a" "deref (operands a b) (Suc 0) = b" "deref (operands a b) 2 = Region_new"
  by (simp_all add: operands_def deref_def)

lemma rfb_region_new [simp]: "rfb_region Region_new" "points Region_new = {}"
  by (simp_all add: rfb_region_def Region_new_def wf_empty_region points_def boxes_def)

lemma XUnionRegion_rsize:
  "\<lbrakk>a \<noteq> b; d = a \<or> d \<noteq> b; 0 < rsize (deref h d)\<rbrakk> \<Longrightarrow> 0 < rsize (deref (XUnionRegion mem_ok h a b d) d)"
  unfolding XUnionRegion_def mem_ok_eq
  by (simp add: Let_def miRegionCopy_rsize)
    (auto intro!: miRegionOp_rsize simp: grows_ov_def grows_fun_def miUnionO_rsize miUnionNonO_rsize)

lemma XIntersectRegion_rsize:
  "\<lbrakk>a \<noteq> b; d = a \<or> d \<noteq> b; 0 < rsize (deref h d)\<rbrakk> \<Longrightarrow> 0 < rsize (deref (XIntersectRegion mem_ok h a b d) d)"
  unfolding XIntersectRegion_def mem_ok_eq
  by (simp add: Let_def)
    (auto intro!: miRegionOp_rsize simp: grows_ov_def grows_fun_def miIntersectO_rsize)

lemma XSubtractRegion_rsize:
  "\<lbrakk>a \<noteq> b; d = a \<or> d \<noteq> b; 0 < rsize (deref h d)\<rbrakk> \<Longrightarrow> 0 < rsize (deref (XSubtractRegion mem_ok h a b d) d)"
  unfolding XSubtractRegion_def mem_ok_eq
  by (simp add: Let_def miRegionCopy_rsize)
    (auto intro!: miRegionOp_rsize simp: grows_ov_def grows_fun_def miSubtractO_rsize miSubtractNonO1_rsize)

text \<open>The binary operations, as facts the simplifier uses from here on.\<close>

lemma XUnionRegion_rfb:
  assumes "rfb_region a" "rfb_region b" "d \<noteq> 1" "d \<in> {0, 2}"
  shows "rfb_region (deref (XUnionRegion mem_ok (operands a b) 0 1 d) d)"
    "points (deref (XUnionRegion mem_ok (operands a b) 0 1 d) d) = points a \<union> points b"
  using XUnionRegion_updates [OF mem_ok_all, of "operands a b" 0 1 d]
    XUnionRegion_rsize [of 0 1 d "operands a b"] assms
  by (auto simp: updates_def rfb_region_def Region_new_def)

lemma XIntersectRegion_rfb:
  assumes "rfb_region a" "rfb_region b" "d \<noteq> 1" "d \<in> {0, 2}"
  shows "rfb_region (deref (XIntersectRegion mem_ok (operands a b) 0 1 d) d)"
    "points (deref (XIntersectRegion mem_ok (operands a b) 0 1 d) d) = points a \<inter> points b"
  using XIntersectRegion_updates [OF mem_ok_all, of "operands a b" 0 1 d]
    XIntersectRegion_rsize [of 0 1 d "operands a b"] assms
  by (auto simp: updates_def rfb_region_def Region_new_def)

lemma XSubtractRegion_rfb:
  assumes "rfb_region a" "rfb_region b" "d \<noteq> 1" "d \<in> {0, 2}"
  shows "rfb_region (deref (XSubtractRegion mem_ok (operands a b) 0 1 d) d)"
    "points (deref (XSubtractRegion mem_ok (operands a b) 0 1 d) d) = points a - points b"
  using XSubtractRegion_updates [OF mem_ok_all, of "operands a b" 0 1 d]
    XSubtractRegion_rsize [of 0 1 d "operands a b"] assms
  by (auto simp: updates_def rfb_region_def Region_new_def)

lemma Region_assign_union_laws [simp]:
  assumes "rfb_region a" "rfb_region b"
  shows "rfb_region (Region_assign_union a b)" "points (Region_assign_union a b) = points a \<union> points b"
  using XUnionRegion_rfb [OF assms, of 0] by (simp_all add: Region_assign_union_def)

lemma Region_assign_intersect_laws [simp]:
  assumes "rfb_region a" "rfb_region b"
  shows "rfb_region (Region_assign_intersect a b)" "points (Region_assign_intersect a b) = points a \<inter> points b"
  using XIntersectRegion_rfb [OF assms, of 0] by (simp_all add: Region_assign_intersect_def)

lemma Region_assign_subtract_laws [simp]:
  assumes "rfb_region a" "rfb_region b"
  shows "rfb_region (Region_assign_subtract a b)" "points (Region_assign_subtract a b) = points a - points b"
  using XSubtractRegion_rfb [OF assms, of 0] by (simp_all add: Region_assign_subtract_def)

lemma Region_union_laws [simp]:
  assumes "rfb_region a" "rfb_region b"
  shows "rfb_region (Region_union a b)" "points (Region_union a b) = points a \<union> points b"
  using XUnionRegion_rfb [OF assms, of 2] by (simp_all add: Region_union_def)

lemma Region_intersect_laws [simp]:
  assumes "rfb_region a" "rfb_region b"
  shows "rfb_region (Region_intersect a b)" "points (Region_intersect a b) = points a \<inter> points b"
  using XIntersectRegion_rfb [OF assms, of 2] by (simp_all add: Region_intersect_def)

lemma Region_subtract_laws [simp]:
  assumes "rfb_region a" "rfb_region b"
  shows "rfb_region (Region_subtract a b)" "points (Region_subtract a b) = points a - points b"
  using XSubtractRegion_rfb [OF assms, of 2] by (simp_all add: Region_subtract_def)

text \<open>Clearing, copying and assignment.\<close>

lemma Region_clear_laws [simp]:
  "rfb_region a \<Longrightarrow> rfb_region (Region_clear a)" "points (Region_clear a) = {}"
  by (simp_all add: Region_clear_def rfb_region_def wf_empty_region points_def boxes_def)

lemma Region_copy_laws [simp]:
  assumes "rfb_region r"
  shows "rfb_region (Region_copy r)" "points (Region_copy r) = points r"
  using XUnionRegion_rfb [OF rfb_region_new(1) assms, of 0] by (simp_all add: Region_copy_def)

lemma Region_assign_laws [simp]:
  assumes "rfb_region x" "rfb_region r"
  shows "rfb_region (Region_assign x r)" "points (Region_assign x r) = points r"
  using XUnionRegion_rfb [OF Region_clear_laws(1) [OF assms(1)] assms(2), of 0] by (simp_all add: Region_assign_def)

lemma Region_assign_self_empty: "points (Region_assign_self x) = {}"
  by (simp add: Region_assign_self_def XUnionRegion_def)

lemma Region_is_empty_iff [simp]: "rfb_region r \<Longrightarrow> Region_is_empty r \<longleftrightarrow> points r = {}"
proof -
  assume "rfb_region r"
  then have wf: "wf_region r" by (simp add: rfb_region_def)
  then have "points r \<noteq> {}" if "numRects r \<noteq> 0"
  proof -
    have "boxes r \<noteq> []" using that boxes_Nil_iff [OF wf] by simp
    then obtain b where b: "b \<in> set (boxes r)" by (cases "boxes r") auto
    then have "proper_box b" using wf banded_proper by (auto simp: wf_region_def canonical_def)
    with b have "(bx1 b, by1 b) \<in> points r" by (auto simp: points_def row_def proper_box_def)
    then show ?thesis by blast
  qed
  then show ?thesis using points_empty [OF wf] by (auto simp: Region_is_empty_def)
qed

lemma Region_equals_iff: "\<lbrakk>rfb_region a; rfb_region b\<rbrakk> \<Longrightarrow> Region_equals a b \<longleftrightarrow> points a = points b"
  by (simp add: Region_equals_def rfb_region_def XEqualRegion_iff_points)

lemma Region_contains_iff: "rfb_region a \<Longrightarrow> Region_contains a x y \<longleftrightarrow> (x, y) \<in> points a"
  by (simp add: Region_contains_def rfb_region_def XPointInRegion_iff)

text \<open>Rectangles.\<close>

lemma rect_area_empty: "rect_area_of r = {} \<longleftrightarrow> Rect_is_empty r"
  by (force simp: rect_area_of_def Rect_is_empty_def)

lemma short_box_sels:
  "short_rect r \<Longrightarrow> short_box r = mkBox (px (rtl r)) (py (rtl r)) (px (rbr r)) (py (rbr r))"
  by (simp add: short_box_def short_rect_def)

lemma wf_single:
  assumes "proper_box b" "numRects r = 1" "rects r = b # rest" "extents r = b" "0 < rsize r"
  shows "rfb_region r" "points r = rect_points b"
proof -
  have b: "boxes r = [b]" using assms by (simp add: boxes_def)
  show "points r = rect_points b"
    using points_box_region [of b] boxes_box_region [of b] b by (simp add: points_def)
  have "canonical [b]" "bounding_box b [b]"
    using wf_box_region [OF assms(1)] by (simp_all add: wf_region_def)
  then show "rfb_region r" using assms b by (simp add: rfb_region_def wf_region_def)
qed

lemma Region_reset_laws [simp]:
  assumes "short_rect r" "rfb_region x"
  shows "rfb_region (Region_reset x r)" "points (Region_reset x r) = rect_area_of r"
proof -
  have "rfb_region (Region_reset x r) \<and> points (Region_reset x r) = rect_area_of r"
  proof (cases "Rect_is_empty r")
    case True
    then show ?thesis using assms(2) rect_area_empty [of r] by (simp add: Region_reset_def)
  next
    case False
    then have "proper_box (short_box r)" by (simp add: short_box_sels [OF assms(1)] proper_box_def mkBox_def Rect_is_empty_def)
    moreover have "rect_points (short_box r) = rect_area_of r"
      by (auto simp: short_box_sels [OF assms(1)] rect_points_def rect_area_of_def mkBox_def)
    ultimately show ?thesis
      using False assms(2) wf_single [of "short_box r" "Region_reset x r"] by (simp add: Region_reset_def rfb_region_def)
  qed
  then show "rfb_region (Region_reset x r)" "points (Region_reset x r) = rect_area_of r" by simp_all
qed

lemma Region_of_rect_laws [simp]:
  assumes "short_rect r"
  shows "rfb_region (Region_of_rect r)" "points (Region_of_rect r) = rect_area_of r"
  using assms by (simp_all add: Region_of_rect_def)

lemma RectRegion_laws:
  assumes "short_rect r"
  shows "rfb_region (RectRegion r)" "points (RectRegion r) = rect_area_of r"
proof -
  have "rfb_region (RectRegion r) \<and> points (RectRegion r) = rect_area_of r"
  proof (cases "Rect_is_empty r")
    case True
    then show ?thesis
      using rect_area_empty [of r] by (simp add: rfb_region_def RectRegion_def wf_empty_region points_def boxes_def)
  next
    case False
    then have "Region_reset Region_new r = RectRegion r"
      by (simp add: Region_reset_def RectRegion_def Region_new_def)
    then show ?thesis
      using Region_reset_laws [OF assms rfb_region_new(1)] by (simp only: simp_thms)
  qed
  then show "rfb_region (RectRegion r)" "points (RectRegion r) = rect_area_of r" by simp_all
qed

lemma Region_setOrderedRects_laws:
  assumes "rfb_region x" "\<forall>r\<in>set rs. short_rect r"
  shows "rfb_region (Region_setOrderedRects x rs)"
    "points (Region_setOrderedRects x rs) = (\<Union>r\<in>set rs. rect_area_of r)"
proof -
  have "rfb_region (fold (\<lambda>r x. Region_assign_union x (RectRegion r)) rs x)
     \<and> points (fold (\<lambda>r x. Region_assign_union x (RectRegion r)) rs x) = points x \<union> (\<Union>r\<in>set rs. rect_area_of r)"
    if "rfb_region x" for x
    using that assms(2)
  proof (induction rs arbitrary: x)
    case (Cons r rs)
    then show ?case using RectRegion_laws [of r] by (simp add: Un_assoc)
  qed simp
  from this [of "Region_clear x"] assms(1)
  show "rfb_region (Region_setOrderedRects x rs)"
    "points (Region_setOrderedRects x rs) = (\<Union>r\<in>set rs. rect_area_of r)"
    by (simp_all add: Region_setOrderedRects_def Region_assign_union_def)
qed

text \<open>Translation, for a result whose coordinates are shorts.\<close>

lemma shifted_image: "(\<lambda>(u, v). (u + px d, v + py d)) ` A = shifted d A"
  by (auto simp: shifted_def image_iff intro!: bexI [of _ "(x - px d, y - py d)" for x y])

lemma Region_translate_laws [simp]:
  assumes "rfb_region r" "short_points (shifted d (points r))"
  shows "rfb_region (Region_translate r d)" "points (Region_translate r d) = shifted d (points r)"
proof -
  have wf: "wf_region r" using assms(1) by (simp add: rfb_region_def)
  have f: "numRects r \<noteq> 0 \<longrightarrow> fits (extents r) (px d) (py d)"
    using short_points_fits [OF wf, of "px d" "py d"] assms(2) by (simp add: shifted_image)
  have "rsize (XOffsetRegion r (px d) (py d)) = rsize r" by (simp add: XOffsetRegion_def)
  then show "rfb_region (Region_translate r d)" "points (Region_translate r d) = shifted d (points r)"
    using assms(1) XOffsetRegion_shift(2) [OF wf f] XOffsetRegion_points [OF wf f]
    by (simp_all add: Region_translate_def rfb_region_def shifted_image)
qed

end
