(* ===== verification/RfbGetRects.thy ===== *)
theory RfbGetRects
  imports RfbRegionLaws
begin

text \<open>
  The order in which rfb::Region::get\_rects lists the rectangles of a region: band by band in
  the direction asked for, and in each band in the horizontal direction asked for.
\<close>

section \<open>The loops\<close>

text \<open>The array seen in the vertical direction of the walk: \<open>ds ! k\<close> is the box at index \<open>c + yInc * k\<close>.\<close>

definition walks :: "BOX list \<Rightarrow> int \<Rightarrow> int \<Rightarrow> BOX list \<Rightarrow> bool" where
  "walks rs c yInc ds \<longleftrightarrow> (\<forall>k<length ds. rs ! nat (c + yInc * int k) = ds ! k)"

definition same_band_from :: "BOX list \<Rightarrow> nat \<Rightarrow> nat \<Rightarrow> nat" where
  "same_band_from ds k j = length (takeWhile (\<lambda>b. by1 b = by1 (ds ! k)) (drop j ds))"

lemma band_scan_walk:
  assumes "walks rs c yInc ds" "k < length ds" "j \<le> length ds" "n = length ds - j"
  shows "band_scan rs yInc (c + yInc * int k) (c + yInc * int j) n m =
    (c + yInc * int (j + same_band_from ds k j), n - same_band_from ds k j, m + same_band_from ds k j)"
  using assms(3,4)
proof (induction n arbitrary: j m)
  case 0
  then show ?case by (simp add: band_scan.simps same_band_from_def)
next
  case (Suc n)
  then have j: "j < length ds" by simp
  have d: "drop j ds = ds ! j # drop (Suc j) ds" using j by (simp add: Cons_nth_drop_Suc)
  have "rs ! nat (c + yInc * int i) = ds ! i" if "i < length ds" for i using assms(1) that by (simp add: walks_def)
  note e = this [OF assms(2)] this [OF j]
  have s: "same_band_from ds k j = (if by1 (ds ! j) = by1 (ds ! k) then Suc (same_band_from ds k (Suc j)) else 0)"
    by (simp add: same_band_from_def d)
  have i: "c + yInc * int j + yInc = c + yInc * int (Suc j)" by (simp add: algebra_simps)
  show ?case
    using Suc.IH [of "Suc j" "Suc m"] Suc.prems j
    by (subst band_scan.simps) (simp add: e s i del: of_nat_Suc)
qed

lemma push_band_map:
  "push_band rs xInc i n out = out @ map (\<lambda>j. rect_of_box (rs ! nat (i + xInc * int j))) [0..<n]"
proof (induction n arbitrary: i out)
  case (Suc n)
  have u: "[0..<Suc n] = 0 # map Suc [0..<n]" by (metis map_Suc_upt upt_conv_Cons zero_less_Suc)
  show ?case unfolding u push_band.simps Suc.IH by (simp add: comp_def algebra_simps)
qed simp

function arrange :: "bool \<Rightarrow> BOX list \<Rightarrow> BOX list" where
  "arrange same xs =
     (if xs = [] then [] else (if same then band xs else rev (band xs)) @ arrange same (after_band xs))"
  by pat_completeness auto
termination by (relation "measure (\<lambda>(same, xs). length xs)") (auto simp: length_after_band)

declare arrange.simps [simp del]

lemma push_band_walk:
  assumes "walks rs c yInc ds" "k + t \<le> length ds" "t = 0 \<or> xInc = yInc \<or> xInc = - yInc"
  shows "push_band rs xInc (if xInc \<noteq> yInc then c + yInc * int (k + t) - yInc else c + yInc * int k) t out
    = out @ map rect_of_box (if xInc = yInc then take t (drop k ds) else rev (take t (drop k ds)))"
proof -
  have w: "rs ! nat (c + yInc * int i) = ds ! i" if "i < k + t" for i
    using assms(1,2) that by (simp add: walks_def)
  have len: "length (take t (drop k ds)) = t" using assms(2) by simp
  show ?thesis
  proof (cases "xInc = yInc")
    case True
    have "map (\<lambda>j. rect_of_box (rs ! nat (c + yInc * int k + yInc * int j))) [0..<t] = map rect_of_box (take t (drop k ds))"
      using w [of "k + j" for j] len assms(2) by (intro nth_equalityI) (auto simp: algebra_simps)
    with True show ?thesis by (simp add: push_band_map)
  next
    case False
    have "rs ! nat (c + yInc * int (k + t) - yInc - yInc * int j) = ds ! (k + (t - Suc j))" if "j < t" for j
    proof -
      have "c + yInc * int (k + t) - yInc - yInc * int j = c + yInc * int (k + (t - Suc j))"
        using that by (simp add: of_nat_diff algebra_simps)
      then show ?thesis using w [of "k + (t - Suc j)"] that by (simp only: add_strict_left_mono diff_less)
    qed
    then have "map (\<lambda>j. rect_of_box (rs ! nat (c + yInc * int (k + t) - yInc - yInc * int j))) [0..<t]
       = map rect_of_box (rev (take t (drop k ds)))"
      using len assms(2) by (intro nth_equalityI) (auto simp: rev_nth)
    with False assms(3) show ?thesis by (cases "t = 0") (auto simp: push_band_map)
  qed
qed

lemma get_rects_loop_walk:
  assumes "walks rs c yInc ds" "xInc = yInc \<or> xInc = - yInc" "k \<le> length ds"
  shows "get_rects_loop rs xInc yInc (c + yInc * int k) (length ds - k) out =
    out @ map rect_of_box (arrange (xInc = yInc) (drop k ds))"
  using assms(3)
proof (induction "length ds - k" arbitrary: k out rule: less_induct)
  case less
  show ?case
  proof (cases "k = length ds")
    case True
    then show ?thesis by (simp add: get_rects_loop.simps arrange.simps)
  next
    case False
    then have k: "k < length ds" using less.prems by simp
    define t where "t = same_band_from ds k k"
    have d: "drop k ds \<noteq> []" "hd (drop k ds) = ds ! k" using k by (simp_all add: hd_drop_conv_nth)
    have b: "band (drop k ds) = take t (drop k ds)" "after_band (drop k ds) = drop (k + t) ds"
      using takeWhile_eq_take [of "\<lambda>b. by1 b = by1 (ds ! k)" "drop k ds"] dropWhile_eq_drop [of "\<lambda>b. by1 b = by1 (ds ! k)" "drop k ds"]
      by (simp_all add: band_def after_band_def t_def same_band_from_def d(2) add.commute)
    have t: "0 < t" "k + t \<le> length ds"
      using k length_takeWhile_le [of "\<lambda>b. by1 b = by1 (ds ! k)" "drop k ds"]
      by (simp_all add: t_def same_band_from_def Cons_nth_drop_Suc [symmetric])
    have s: "band_scan rs yInc (c + yInc * int k) (c + yInc * int k) (length ds - k) 0 = (c + yInc * int (k + t), length ds - (k + t), t)"
      using band_scan_walk [OF assms(1) k less_imp_le [OF k] refl, of 0] by (simp add: t_def)
    have "length ds - (k + t) < length ds - k" using t by simp
    from less.hyps [OF this t(2)] show ?thesis
      using k t(2) assms(2)
      by (subst get_rects_loop.simps, subst arrange.simps)
        (simp add: s push_band_walk [OF assms(1) t(2)] d(1) b del: of_nat_add)
  qed
qed

lemma get_rects_arrange:
  assumes "wf_region x"
  shows "get_rects x l2r td = map rect_of_box (arrange (l2r = td) (if td then boxes x else rev (boxes x)))"
proof -
  let ?ds = "if td then boxes x else rev (boxes x)" and ?y = "if td then 1 else - 1 :: int"
  let ?c = "if td then 0 else int (numRects x) - 1"
  have n: "length (boxes x) = numRects x" "numRects x \<le> length (rects x)"
    using assms by (simp_all add: length_boxes wf_region_def)
  have "rects x ! k = boxes x ! k" if "k < numRects x" for k using that n by (simp add: boxes_def)
  moreover have "nat (int (numRects x) - 1 - int k) = numRects x - Suc k" for k by simp
  ultimately have "walks (rects x) ?c ?y ?ds" using n(1) by (auto simp: walks_def rev_nth)
  from get_rects_loop_walk [OF this, of "if l2r then 1 else - 1" 0 "[]"] show ?thesis
    using n(1) by (cases l2r; cases td) (simp_all add: get_rects_def)
qed

section \<open>The order\<close>

text \<open>
  The rectangle \<open>a\<close> comes before \<open>b\<close>: in one band it lies to the left (or to the right), and
  otherwise in a band above (or below).
\<close>

definition precedes :: "bool \<Rightarrow> bool \<Rightarrow> Rect \<Rightarrow> Rect \<Rightarrow> bool" where
  "precedes l2r td a b \<longleftrightarrow>
     (if py (rtl a) = py (rtl b)
      then (if l2r then px (rbr a) \<le> px (rtl b) else px (rbr b) \<le> px (rtl a))
      else if td then py (rbr a) \<le> py (rtl b) else py (rbr b) \<le> py (rtl a))"

definition walk_order :: "bool \<Rightarrow> BOX \<Rightarrow> BOX \<Rightarrow> bool" where
  "walk_order td a b \<longleftrightarrow> (if td then before a b else before b a)"

lemma rect_of_box_sel [simp]:
  "px (rtl (rect_of_box b)) = bx1 b" "py (rtl (rect_of_box b)) = by1 b"
  "px (rbr (rect_of_box b)) = bx2 b" "py (rbr (rect_of_box b)) = by2 b"
  by (simp_all add: rect_of_box_def rect_sels)

lemma after_band_other:
  assumes "sorted_wrt (walk_order td) ds" "\<forall>b\<in>set ds. proper_box b" "c \<in> set (after_band ds)"
  shows "by1 c \<noteq> by1 (hd ds)"
proof -
  obtain e es where ae: "after_band ds = e # es" "by1 e \<noteq> by1 (hd ds)"
    using assms(3) hd_dropWhile [of "\<lambda>b. by1 b = by1 (hd ds)" ds]
    by (metis (mono_tags, lifting) after_band_def empty_iff list.exhaust_sel list.set(1))
  then have "ds \<noteq> []" by (auto simp: after_band_def)
  then have hb: "hd ds \<in> set (band ds)" by (cases ds) (auto simp: band_def)
  have "sorted_wrt (walk_order td) (band ds @ e # es)" using assms(1) band_after_band [of ds] ae(1) by simp
  then have w: "walk_order td (hd ds) e" "c = e \<or> walk_order td e c" "walk_order td (hd ds) c"
    using hb assms(3) ae(1) by (auto simp: sorted_wrt_append)
  have "set ds = set (band ds) \<union> set (after_band ds)" using band_after_band [of ds] by (metis set_append)
  then have "proper_box (hd ds)" "proper_box e" "proper_box c" using assms(2,3) ae(1) hb by auto
  then have "by1 (hd ds) < by2 (hd ds)" "by1 e < by2 e" "by1 c < by2 c" by (simp_all add: proper_box_def)
  moreover have "if td then by2 (hd ds) \<le> by1 e \<and> (by1 c = by1 e \<or> by2 e \<le> by1 c)
      else by2 e \<le> by1 (hd ds) \<and> (by1 c = by1 e \<or> by2 c \<le> by1 e)"
    using w ae(2) unfolding walk_order_def before_def by (cases td) (simp_all, metis+)
  ultimately show ?thesis using ae(2) by (cases td) auto
qed

lemma set_arrange [simp]: "set (arrange same ds) = set ds"
proof (induction same ds rule: arrange.induct)
  case (1 same ds)
  show ?case
  proof (cases "ds = []")
    case False
    have "set ds = set (band ds) \<union> set (after_band ds)" using band_after_band [of ds] by (metis set_append)
    then show ?thesis using "1.IH" [OF False] False by (subst arrange.simps) simp
  qed (simp add: arrange.simps)
qed

lemma sorted_wrt_imp:
  "\<lbrakk>sorted_wrt R xs; \<And>a b. \<lbrakk>a \<in> set xs; b \<in> set xs; R a b\<rbrakk> \<Longrightarrow> S a b\<rbrakk> \<Longrightarrow> sorted_wrt S xs"
  by (induction xs) auto

lemma band_order:
  assumes "sorted_wrt (walk_order td) bs" "\<forall>b\<in>set bs. proper_box b \<and> by1 b = y"
  shows "sorted_wrt (\<lambda>a b. precedes l2r td (rect_of_box a) (rect_of_box b)) (if l2r = td then bs else rev bs)"
proof -
  have "sorted_wrt (\<lambda>a b. if td then bx2 a \<le> bx1 b else bx2 b \<le> bx1 a) bs"
    by (rule sorted_wrt_imp [OF assms(1)]) (use assms(2) in \<open>fastforce simp: walk_order_def before_def proper_box_def split: if_splits\<close>)
  then have "sorted_wrt (\<lambda>a b. if l2r then bx2 a \<le> bx1 b else bx2 b \<le> bx1 a) (if l2r = td then bs else rev bs)"
    by (cases l2r; cases td) (simp_all add: sorted_wrt_rev)
  then show ?thesis
    by (rule sorted_wrt_imp) (use assms(2) in \<open>auto simp: precedes_def split: if_splits\<close>)
qed

lemma arrange_order:
  assumes "sorted_wrt (walk_order td) ds" "\<forall>b\<in>set ds. proper_box b"
  shows "sorted_wrt (\<lambda>a b. precedes l2r td (rect_of_box a) (rect_of_box b)) (arrange (l2r = td) ds)"
  using assms
proof (induction "l2r = td" ds rule: arrange.induct)
  case (1 ds)
  show ?case
  proof (cases "ds = []")
    case False
    have s: "sorted_wrt (walk_order td) (band ds)" "sorted_wrt (walk_order td) (after_band ds)"
      "\<forall>a\<in>set (band ds). \<forall>b\<in>set (after_band ds). walk_order td a b"
      using "1.prems"(1) band_after_band [of ds] by (metis sorted_wrt_append)+
    have p: "\<forall>b\<in>set (band ds). proper_box b \<and> by1 b = by1 (hd ds)" "\<forall>b\<in>set (after_band ds). proper_box b"
      using "1.prems"(2) by (auto simp: band_def after_band_def dest: set_takeWhileD set_dropWhileD)
    have "precedes l2r td (rect_of_box a) (rect_of_box b)" if "a \<in> set (band ds)" "b \<in> set (after_band ds)" for a b
      using s(3) that after_band_other [OF "1.prems" that(2)] p(1)
      by (fastforce simp: precedes_def walk_order_def before_def split: if_splits)
    then show ?thesis
      using "1.hyps" [OF False s(2) p(2)] band_order [OF s(1) p(1), of l2r] False
      by (subst arrange.simps) (auto simp: sorted_wrt_append split: if_splits)
  qed (simp add: arrange.simps)
qed

lemma get_rects_laws:
  assumes "rfb_region x"
  shows "(\<Union>r\<in>set (get_rects x l2r td). rect_area_of r) = points x"
    and "sorted_wrt (precedes l2r td) (get_rects x l2r td)"
    and "\<forall>r\<in>set (get_rects x l2r td). \<not> Rect_is_empty r"
proof -
  have wf: "wf_region x" using assms by (simp add: rfb_region_def)
  let ?ds = "if td then boxes x else rev (boxes x)"
  have b: "banded (boxes x)" using wf by (simp add: wf_region_def canonical_def)
  then have s: "sorted_wrt (walk_order td) ?ds" "\<forall>b\<in>set ?ds. proper_box b"
    by (auto simp: walk_order_def banded_def sorted_wrt_rev intro: sorted_wrt_imp)
  have eq: "get_rects x l2r td = map rect_of_box (arrange (l2r = td) ?ds)" by (rule get_rects_arrange [OF wf])
  show "sorted_wrt (precedes l2r td) (get_rects x l2r td)"
    using arrange_order [OF s, of l2r] by (simp add: eq sorted_wrt_map)
  show "\<forall>r\<in>set (get_rects x l2r td). \<not> Rect_is_empty r"
    using s(2) by (auto simp: eq Rect_is_empty_def proper_box_def split: if_splits)
  show "(\<Union>r\<in>set (get_rects x l2r td). rect_area_of r) = points x"
    by (auto simp: eq points_def row_def rect_area_of_def split: if_splits)
qed

lemma length_arrange [simp]: "length (arrange same ds) = length ds"
proof (induction same ds rule: arrange.induct)
  case (1 same ds)
  show ?case
  proof (cases "ds = []")
    case False
    have "length ds = length (band ds) + length (after_band ds)" using band_after_band [of ds] by (metis length_append)
    then show ?thesis using "1.IH" [OF False] False by (subst arrange.simps) simp
  qed (simp add: arrange.simps)
qed

lemma length_get_rects: "rfb_region x \<Longrightarrow> length (get_rects x l2r td) = numRects x"
  by (simp add: rfb_region_def get_rects_arrange length_boxes)

end
