(* ===== verification/RfbTracker.thy ===== *)
theory RfbTracker
  imports RfbGetRects
begin

text \<open>
  The update trackers of \<^verbatim>\<open>src/common/rfb/UpdateTracker.cxx\<close>. A tracker records what happened to
  the screen since the client was last told: a region that changed, and a region that is a copy
  of another part of the screen, with the offset of the copy.
\<close>

section \<open>The code\<close>

record CopyPassRect =
  cp_rect :: Rect
  src_x :: nat
  src_y :: nat

record UpdateInfo =
  ui_changed :: REGION
  ui_copied :: REGION
  ui_copy_delta :: Point
  ui_copypassed :: "CopyPassRect list"

definition UpdateInfo_is_empty :: "UpdateInfo \<Rightarrow> bool" where
  "UpdateInfo_is_empty ui \<longleftrightarrow>
     Region_is_empty (ui_copied ui) \<and> Region_is_empty (ui_changed ui) \<and> ui_copypassed ui = []"

record SimpleUpdateTracker =
  changed :: REGION
  copied :: REGION
  copy_delta :: Point
  copy_enabled :: bool

definition SimpleUpdateTracker_new :: "bool \<Rightarrow> SimpleUpdateTracker" where
  "SimpleUpdateTracker_new use_copyrect =
     \<lparr>changed = Region_new, copied = Region_new, copy_delta = mkPoint 0 0, copy_enabled = use_copyrect\<rparr>"

definition add_changed :: "SimpleUpdateTracker \<Rightarrow> REGION \<Rightarrow> SimpleUpdateTracker" where
  "add_changed t region = t\<lparr>changed := Region_assign_union (changed t) region\<rparr>"

definition enable_copyrect :: "SimpleUpdateTracker \<Rightarrow> bool \<Rightarrow> SimpleUpdateTracker" where
  "enable_copyrect t enable =
     (let t1 = (if \<not> enable \<and> copy_enabled t
                then (let u = add_changed t (copied t) in u\<lparr>copied := Region_clear (copied u)\<rparr>) else t)
      in t1\<lparr>copy_enabled := enable\<rparr>)"

definition add_copied :: "SimpleUpdateTracker \<Rightarrow> REGION \<Rightarrow> Point \<Rightarrow> SimpleUpdateTracker" where
  "add_copied t dest delta =
     (if \<not> copy_enabled t then add_changed t dest
      else if Region_is_empty dest then t
      else
        let src = Region_translate (Region_copy dest) (Point_negate delta);
            overlap = Region_intersect src (copied t)
        in if Region_is_empty overlap then
             (let newbr = get_bounding_rect dest; oldbr = get_bounding_rect (copied t)
              in if Rect_area oldbr > Rect_area newbr
                 then t\<lparr>changed := Region_assign_union (changed t) dest\<rparr>
                 else
                   let invalid_src = Region_translate (Region_intersect src (changed t)) delta;
                       ch1 = Region_assign_union (changed t) invalid_src;
                       ch2 = Region_assign_union ch1 (copied t)
                   in t\<lparr>changed := ch2, copied := Region_assign (copied t) dest, copy_delta := delta\<rparr>)
           else
             let invalid_src = Region_translate (Region_intersect overlap (changed t)) delta;
                 ch1 = Region_assign_union (changed t) invalid_src;
                 overlap' = Region_translate overlap delta;
                 nonoverlapped_copied = Region_subtract (Region_union dest (copied t)) overlap';
                 ch2 = Region_assign_union ch1 nonoverlapped_copied
             in t\<lparr>changed := ch2, copied := Region_assign (copied t) overlap',
                  copy_delta := Point_translate (copy_delta t) delta\<rparr>)"

definition tracker_subtract :: "SimpleUpdateTracker \<Rightarrow> REGION \<Rightarrow> SimpleUpdateTracker" where
  "tracker_subtract t region =
     t\<lparr>copied := Region_assign_subtract (copied t) region, changed := Region_assign_subtract (changed t) region\<rparr>"

definition getUpdateInfo :: "SimpleUpdateTracker \<Rightarrow> UpdateInfo \<Rightarrow> REGION \<Rightarrow> SimpleUpdateTracker \<times> UpdateInfo" where
  "getUpdateInfo t info cliprgn =
     (let t1 = t\<lparr>copied := Region_assign_subtract (copied t) (changed t)\<rparr>
      in (t1, info\<lparr>ui_changed := Region_assign (ui_changed info) (Region_intersect (changed t1) cliprgn),
                   ui_copied := Region_assign (ui_copied info) (Region_intersect (copied t1) cliprgn),
                   ui_copy_delta := copy_delta t1\<rparr>))"

text \<open>copyTo calls the add operations of another tracker, which are arguments here.\<close>

definition copyTo ::
  "('t \<Rightarrow> REGION \<Rightarrow> 't) \<Rightarrow> ('t \<Rightarrow> REGION \<Rightarrow> Point \<Rightarrow> 't) \<Rightarrow> SimpleUpdateTracker \<Rightarrow> 't \<Rightarrow> 't"
where
  "copyTo chg cpy t ut =
     (let u = (if \<not> Region_is_empty (copied t) then cpy ut (copied t) (copy_delta t) else ut)
      in if \<not> Region_is_empty (changed t) then chg u (changed t) else u)"

definition tracker_translate :: "SimpleUpdateTracker \<Rightarrow> Point \<Rightarrow> SimpleUpdateTracker" where
  "tracker_translate t p = t\<lparr>changed := Region_translate (changed t) p, copied := Region_translate (copied t) p\<rparr>"

definition tracker_is_empty :: "SimpleUpdateTracker \<Rightarrow> bool" where
  "tracker_is_empty t \<longleftrightarrow> Region_is_empty (changed t) \<and> Region_is_empty (copied t)"

definition tracker_clear :: "SimpleUpdateTracker \<Rightarrow> SimpleUpdateTracker" where
  "tracker_clear t = t\<lparr>changed := Region_clear (changed t), copied := Region_clear (copied t)\<rparr>"

text \<open>ClippingUpdateTracker, on the operations of its child.\<close>

definition Clipping_add_changed :: "('t \<Rightarrow> REGION \<Rightarrow> 't) \<Rightarrow> Rect \<Rightarrow> 't \<Rightarrow> REGION \<Rightarrow> 't" where
  "Clipping_add_changed chg clipRect ut region = chg ut (Region_intersect region (Region_of_rect clipRect))"

definition Clipping_add_copied ::
  "('t \<Rightarrow> REGION \<Rightarrow> 't) \<Rightarrow> ('t \<Rightarrow> REGION \<Rightarrow> Point \<Rightarrow> 't) \<Rightarrow> Rect \<Rightarrow> 't \<Rightarrow> REGION \<Rightarrow> Point \<Rightarrow> 't"
where
  "Clipping_add_copied chg cpy clipRect ut dest delta =
     (let clipdest = Region_intersect dest (Region_of_rect clipRect)
      in if Region_is_empty clipdest then ut
         else
           let tmp = Region_copy clipdest;
               tmp1 = Region_translate tmp (Point_negate delta);
               tmp2 = Region_assign_intersect tmp1 (Region_of_rect clipRect);
               (ut1, tmp3) =
                 (if \<not> Region_is_empty tmp2
                  then (cpy ut (Region_translate tmp2 delta) delta, Region_translate tmp2 delta)
                  else (ut, tmp2));
               tmp4 = Region_assign tmp3 (Region_subtract clipdest tmp3)
           in if \<not> Region_is_empty tmp4 then chg ut1 tmp4 else ut1)"

section \<open>What a tracker knows\<close>

type_synonym 'p screen = "int \<times> int \<Rightarrow> 'p"

definition area :: "int \<Rightarrow> int \<Rightarrow> (int \<times> int) set" where
  "area W H = {(x, y). 0 \<le> x \<and> x < W \<and> 0 \<le> y \<and> y < H}"

definition from_src :: "Point \<Rightarrow> int \<times> int \<Rightarrow> int \<times> int" where
  "from_src d p = (fst p - px d, snd p - py d)"

definition copy_area :: "(int \<times> int) set \<Rightarrow> Point \<Rightarrow> 'p screen \<Rightarrow> 'p screen" where
  "copy_area A d s = (\<lambda>p. if p \<in> A then s (from_src d p) else s p)"

text \<open>The source of a copy to \<open>A\<close>.\<close>

definition src_area :: "Point \<Rightarrow> (int \<times> int) set \<Rightarrow> (int \<times> int) set" where
  "src_area d A = {p. (fst p + px d, snd p + py d) \<in> A}"

text \<open>
  A tracker for a screen of the given size describes how to get from the client's screen \<open>c\<close> to
  the server's screen \<open>s\<close>: outside the changed region, the server's screen is the client's after
  the recorded copy. Its regions lie on the screen, and so does the source of the copy.
\<close>

definition tracks :: "int \<Rightarrow> int \<Rightarrow> SimpleUpdateTracker \<Rightarrow> 'p screen \<Rightarrow> 'p screen \<Rightarrow> bool" where
  "tracks W H t s c \<longleftrightarrow>
     W \<le> 16384 \<and> H \<le> 16384 \<and> rfb_region (changed t) \<and> rfb_region (copied t)
     \<and> points (changed t) \<subseteq> area W H \<and> points (copied t) \<subseteq> area W H
     \<and> src_area (copy_delta t) (points (copied t)) \<subseteq> area W H
     \<and> (\<forall>p\<in>area W H. p \<notin> points (changed t) \<longrightarrow> s p = copy_area (points (copied t)) (copy_delta t) c p)"

text \<open>What the X server does to the screen, and how it is reported to a tracker.\<close>

datatype 'p screen_op =
    Draw REGION "'p screen"
  | Copy REGION Point

fun apply_op :: "'p screen_op \<Rightarrow> 'p screen \<Rightarrow> 'p screen" where
  "apply_op (Draw r img) s = (\<lambda>p. if p \<in> points r then img p else s p)"
| "apply_op (Copy r d) s = copy_area (points r) d s"

fun report_op :: "('t \<Rightarrow> REGION \<Rightarrow> 't) \<Rightarrow> ('t \<Rightarrow> REGION \<Rightarrow> Point \<Rightarrow> 't) \<Rightarrow> 'p screen_op \<Rightarrow> 't \<Rightarrow> 't" where
  "report_op chg cpy (Draw r img) t = chg t r"
| "report_op chg cpy (Copy r d) t = cpy t r d"

fun op_on_screen :: "int \<Rightarrow> int \<Rightarrow> 'p screen_op \<Rightarrow> bool" where
  "op_on_screen W H (Draw r img) = (rfb_region r \<and> points r \<subseteq> area W H)"
| "op_on_screen W H (Copy r d) = (rfb_region r \<and> points r \<subseteq> area W H \<and> src_area d (points r) \<subseteq> area W H)"

fun op_anywhere :: "'p screen_op \<Rightarrow> bool" where
  "op_anywhere (Draw r img) = rfb_region r"
| "op_anywhere (Copy r d) = (rfb_region r \<and> \<bar>px d\<bar> < 16384 \<and> \<bar>py d\<bar> < 16384)"

section \<open>The interface\<close>

text \<open>
  The contract of UpdateTracker, the class the server talks to: after a region is reported as
  changed or as copied the tracker knows the new screen.
\<close>

locale update_tracker =
  fixes add_ch :: "'t \<Rightarrow> REGION \<Rightarrow> 't" and add_cp :: "'t \<Rightarrow> REGION \<Rightarrow> Point \<Rightarrow> 't"
    and knows :: "'t \<Rightarrow> 'p screen \<Rightarrow> 'p screen \<Rightarrow> bool" and W :: int and H :: int
  assumes small: "knows t s c \<Longrightarrow> W \<le> 16384 \<and> H \<le> 16384"
    and agree_law: "\<lbrakk>knows t s c; \<forall>p\<in>area W H. s' p = s p\<rbrakk> \<Longrightarrow> knows t s' c"
    and changed_law: "\<lbrakk>knows t s c; rfb_region r; points r \<subseteq> area W H;
        \<forall>p\<in>area W H. p \<notin> points r \<longrightarrow> s' p = s p\<rbrakk> \<Longrightarrow> knows (add_ch t r) s' c"
    and copied_law: "\<lbrakk>knows t s c; rfb_region r; points r \<subseteq> area W H; src_area d (points r) \<subseteq> area W H;
        \<forall>p\<in>area W H. s' p = copy_area (points r) d s p\<rbrakk> \<Longrightarrow> knows (add_cp t r d) s' c"
begin

lemma ops_law:
  assumes "knows t s c" "\<forall>x\<in>set ops. op_on_screen W H x"
  shows "knows (fold (report_op add_ch add_cp) ops t) (fold apply_op ops s) c"
  using assms
proof (induction ops arbitrary: t s)
  case (Cons x ops)
  have "knows (report_op add_ch add_cp x t) (apply_op x s) c"
    using Cons.prems changed_law [OF Cons.prems(1)] copied_law [OF Cons.prems(1)] by (cases x) auto
  then show ?case using Cons by simp
qed simp

text \<open>Trackers compose: what one tracker knows can be added to another one that knows its start.\<close>

lemma copyTo_law:
  assumes "tracks W H a s c" "knows t c c0"
  shows "knows (copyTo add_ch add_cp a t) s c0"
proof -
  let ?t = "if \<not> Region_is_empty (copied a) then add_cp t (copied a) (copy_delta a) else t"
  let ?c = "copy_area (points (copied a)) (copy_delta a) c"
  have a: "rfb_region (changed a)" "rfb_region (copied a)" "points (changed a) \<subseteq> area W H"
    "points (copied a) \<subseteq> area W H" "src_area (copy_delta a) (points (copied a)) \<subseteq> area W H"
    "\<forall>p\<in>area W H. p \<notin> points (changed a) \<longrightarrow> s p = ?c p"
    using assms(1) by (simp_all add: tracks_def)
  have k: "knows ?t ?c c0"
  proof (cases "Region_is_empty (copied a)")
    case True
    then have "?c = c" using a(2) by (auto simp: copy_area_def)
    then show ?thesis using True assms(2) by simp
  next
    case False
    then show ?thesis using copied_law [OF assms(2) a(2,4,5)] by simp
  qed
  show ?thesis
  proof (cases "Region_is_empty (changed a)")
    case True
    then have "\<forall>p\<in>area W H. s p = ?c p" using a(1,6) by simp
    then show ?thesis using agree_law [OF k] True by (simp add: copyTo_def Let_def)
  next
    case False
    then show ?thesis using changed_law [OF k a(1,3,6)] by (simp add: copyTo_def Let_def)
  qed
qed

end

section \<open>The simple tracker\<close>

lemma area_short: "\<lbrakk>A \<subseteq> area W H; W \<le> 16384; H \<le> 16384\<rbrakk> \<Longrightarrow> short_points A"
  by (fastforce simp: area_def short_points_def)

lemma shifted_negate: "shifted (Point_negate d) A = src_area d A"
  by (auto simp: shifted_def src_area_def rect_sels)

lemma shifted_src: "shifted d (src_area d A) = A"
  by (auto simp: shifted_def src_area_def)

lemma mem_shifted: "p \<in> shifted d A \<longleftrightarrow> from_src d p \<in> A"
  by (cases p) (simp add: shifted_def from_src_def)

lemma shifted_mono: "A \<subseteq> B \<Longrightarrow> shifted d A \<subseteq> shifted d B"
  by (auto simp: shifted_def)

lemma shifted_part: "A \<subseteq> src_area d B \<Longrightarrow> shifted d A \<subseteq> B"
  using shifted_mono [of A "src_area d B" d] by (simp add: shifted_src)

lemma tracks_agree: "\<lbrakk>tracks W H t s c; \<forall>p\<in>area W H. s' p = s p\<rbrakk> \<Longrightarrow> tracks W H t s' c"
  by (simp add: tracks_def)

lemma tracks_changed:
  "\<lbrakk>tracks W H t s c; rfb_region r; points r \<subseteq> area W H; \<forall>p\<in>area W H. p \<notin> points r \<longrightarrow> s' p = s p\<rbrakk>
   \<Longrightarrow> tracks W H (add_changed t r) s' c"
  by (simp add: tracks_def add_changed_def)

text \<open>The two ways a copy is recorded, on the sets of points.\<close>

definition agrees :: "(int \<times> int) set \<Rightarrow> (int \<times> int) set \<Rightarrow> (int \<times> int) set \<Rightarrow> Point \<Rightarrow> 'p screen \<Rightarrow> 'p screen \<Rightarrow> bool" where
  "agrees A Ch Cp d s c \<longleftrightarrow> (\<forall>p\<in>A. p \<notin> Ch \<longrightarrow> s p = copy_area Cp d c p)"

lemma from_src_src_area: "p \<in> R \<Longrightarrow> from_src d p \<in> src_area d R"
  by (simp add: from_src_def src_area_def)

lemma from_src_translate: "from_src (Point_translate e d) p = from_src e (from_src d p)"
  by (simp add: from_src_def rect_sels algebra_simps)

lemma src_area_translate: "src_area (Point_translate e d) (shifted d B) = src_area e B"
  by (auto simp: src_area_def shifted_def rect_sels algebra_simps)

lemma agrees_new_copy:
  assumes "agrees A Ch Cp e s c" "src_area d R \<subseteq> A" "src_area d R \<inter> Cp = {}" "\<forall>p\<in>A. s' p = copy_area R d s p"
    and "Ch' = Ch \<union> shifted d (src_area d R \<inter> Ch) \<union> Cp"
  shows "agrees A Ch' R d s' c"
  unfolding agrees_def
proof (intro ballI impI)
  fix p assume p: "p \<in> A" "p \<notin> Ch'"
  show "s' p = copy_area R d c p"
  proof (cases "p \<in> R")
    case True
    let ?q = "from_src d p"
    have "?q \<in> src_area d R" by (rule from_src_src_area [OF True])
    then have "?q \<in> A" "?q \<notin> Cp" "?q \<notin> Ch" using assms(2,3,5) p(2) by (auto simp: mem_shifted)
    then have "s ?q = c ?q" using assms(1) by (simp add: agrees_def copy_area_def)
    then show ?thesis using True assms(4) p(1) by (simp add: copy_area_def)
  next
    case False
    then show ?thesis using assms(1,4,5) p by (simp add: agrees_def copy_area_def)
  qed
qed

lemma agrees_continued_copy:
  assumes "agrees A Ch Cp e s c" "src_area d R \<subseteq> A" "\<forall>p\<in>A. s' p = copy_area R d s p"
    and "Ov = src_area d R \<inter> Cp" "Ch' = Ch \<union> shifted d (Ov \<inter> Ch) \<union> (R \<union> Cp - shifted d Ov)"
  shows "agrees A Ch' (shifted d Ov) (Point_translate e d) s' c"
  unfolding agrees_def
proof (intro ballI impI)
  fix p assume p: "p \<in> A" "p \<notin> Ch'"
  show "s' p = copy_area (shifted d Ov) (Point_translate e d) c p"
  proof (cases "p \<in> shifted d Ov")
    case True
    let ?q = "from_src d p"
    have q: "?q \<in> Ov" using True by (simp add: mem_shifted)
    then have "p \<in> R" using assms(4) by (auto simp: src_area_def from_src_def)
    moreover have "?q \<in> A" "?q \<in> Cp" "?q \<notin> Ch" using q assms(2,4,5) p(2) by (auto simp: mem_shifted)
    then have "s ?q = c (from_src e ?q)" using assms(1) by (simp add: agrees_def copy_area_def)
    ultimately show ?thesis using True assms(3) p(1) by (simp add: copy_area_def from_src_translate)
  next
    case False
    then show ?thesis using assms(1,3,5) p by (simp add: agrees_def copy_area_def)
  qed
qed

lemma tracks_copied:
  assumes "tracks W H t s c" "rfb_region r" "points r \<subseteq> area W H" "src_area d (points r) \<subseteq> area W H"
    and "\<forall>p\<in>area W H. s' p = copy_area (points r) d s p"
  shows "tracks W H (add_copied t r d) s' c"
proof -
  note t = assms(1) [unfolded tracks_def]
  define src where "src = Region_translate (Region_copy r) (Point_negate d)"
  have sh: "short_points A" if "A \<subseteq> area W H" for A using area_short [OF that] t by blast
  have src: "rfb_region src" "points src = src_area d (points r)"
    using assms(2) sh [OF assms(4)] by (simp_all add: src_def shifted_negate)
  define ov where "ov = Region_intersect src (copied t)"
  have ov: "rfb_region ov" "points ov = src_area d (points r) \<inter> points (copied t)"
    using src t by (simp_all add: ov_def)
  define inv where "inv B = Region_translate (Region_intersect B (changed t)) d" for B
  have sub: "shifted d A \<subseteq> points r" if "A \<subseteq> src_area d (points r)" for A using shifted_part [OF that] .
  have inv: "rfb_region (inv B)" "points (inv B) = shifted d (points B \<inter> points (changed t))" "points (inv B) \<subseteq> points r"
    if "rfb_region B" "points B \<subseteq> src_area d (points r)" for B
  proof -
    have "shifted d (points B \<inter> points (changed t)) \<subseteq> points r" by (rule sub) (use that in blast)
    moreover from this have "short_points (shifted d (points B \<inter> points (changed t)))" using sh assms(3) by blast
    ultimately show "rfb_region (inv B)" "points (inv B) = shifted d (points B \<inter> points (changed t))"
      "points (inv B) \<subseteq> points r" using that t by (simp_all add: inv_def)
  qed
  have ov': "rfb_region (Region_translate ov d)" "points (Region_translate ov d) = shifted d (points ov)"
    "shifted d (points ov) \<subseteq> points r"
  proof -
    show "shifted d (points ov) \<subseteq> points r" by (rule sub) (simp add: ov)
    moreover from this have "short_points (shifted d (points ov))" using sh assms(3) by blast
    ultimately show "rfb_region (Region_translate ov d)" "points (Region_translate ov d) = shifted d (points ov)"
      using ov by simp_all
  qed
  have ag: "agrees (area W H) (points (changed t)) (points (copied t)) (copy_delta t) s c"
    using t by (simp add: agrees_def)
  let ?t = "add_copied t r d"
  have first: "?t = (if Rect_area (get_bounding_rect (copied t)) > Rect_area (get_bounding_rect r) then add_changed t r
      else t\<lparr>changed := Region_assign_union (Region_assign_union (changed t) (inv src)) (copied t),
              copied := Region_assign (copied t) r, copy_delta := d\<rparr>)"
    if "copy_enabled t" "points r \<noteq> {}" "points ov = {}"
    using assms(2) ov(1) that by (simp add: add_copied_def add_changed_def Let_def inv_def flip: src_def ov_def)
  consider (off) "\<not> copy_enabled t" | (none) "copy_enabled t" "points r = {}"
    | (old) "copy_enabled t" "points r \<noteq> {}" "points ov = {}" "?t = add_changed t r"
    | (new) "copy_enabled t" "points r \<noteq> {}" "points ov = {}"
        "?t = t\<lparr>changed := Region_assign_union (Region_assign_union (changed t) (inv src)) (copied t),
              copied := Region_assign (copied t) r, copy_delta := d\<rparr>"
    | (more) "copy_enabled t" "points r \<noteq> {}" "points ov \<noteq> {}"
    using first by (metis (no_types))
  then show ?thesis
  proof cases
    case off
    then show ?thesis using tracks_changed [OF assms(1-3)] assms(5) by (simp add: add_copied_def copy_area_def)
  next
    case none
    then have "?t = t" using assms(2) by (simp add: add_copied_def)
    moreover have "\<forall>p\<in>area W H. s' p = s p" using assms(5) none by (simp add: copy_area_def)
    ultimately show ?thesis using tracks_agree [OF assms(1)] by simp
  next
    case old
    then show ?thesis using tracks_changed [OF assms(1-3)] assms(5) by (simp add: copy_area_def)
  next
    case new
    have "agrees (area W H) (points (changed ?t)) (points r) d s' c"
      by (rule agrees_new_copy [OF ag assms(4) _ assms(5)]) (use new inv [OF src(1)] src t ov in simp_all)
    then show ?thesis
      using new(4) inv [OF src(1)] src t assms(2-4) by (simp add: tracks_def agrees_def subset_trans [OF inv(3)])
  next
    case more
    then have eq: "?t = t\<lparr>changed := Region_assign_union (Region_assign_union (changed t) (inv ov))
          (Region_subtract (Region_union r (copied t)) (Region_translate ov d)),
        copied := Region_assign (copied t) (Region_translate ov d), copy_delta := Point_translate (copy_delta t) d\<rparr>"
      using assms(2) ov(1) by (simp add: add_copied_def Let_def inv_def flip: src_def ov_def)
    have "agrees (area W H) (points (changed ?t)) (shifted d (points ov)) (Point_translate (copy_delta t) d) s' c"
      by (rule agrees_continued_copy [OF ag assms(4,5) ov(2)]) (use eq inv [OF ov(1)] ov ov' t assms(2) in simp)
    then show ?thesis
      using eq inv [OF ov(1)] ov ov' t assms(2,3) src_area_translate [of "copy_delta t" d "points ov"]
      by (simp add: tracks_def agrees_def) (auto simp: src_area_def)
  qed
qed

interpretation simple: update_tracker add_changed add_copied "tracks W H" W H for W H
proof
  show "W \<le> 16384 \<and> H \<le> 16384" if "tracks W H t s c" for t and s c :: "'a screen"
    using that by (simp add: tracks_def)
qed (rule tracks_agree tracks_changed tracks_copied; assumption)+

section \<open>The clipping tracker\<close>

lemma rect_area_screen: "rect_area_of (mkRect 0 0 W H) = area W H"
  by (simp add: rect_area_of_def area_def rect_sels)

lemma short_screen: "\<lbrakk>0 \<le> W; 0 \<le> H; W \<le> 16384; H \<le> 16384\<rbrakk> \<Longrightarrow> short_rect (mkRect 0 0 W H)"
  by (simp add: short_rect_def rect_sels in_short_def)

context update_tracker
begin

text \<open>
  A clipping tracker on the whole screen makes a tracker safe for every region and copy: what
  lies outside the screen is dropped, and a copy from outside the screen becomes a change.
\<close>

lemma clipping_changed:
  assumes "0 \<le> W" "0 \<le> H" "knows t s c" "rfb_region r" "\<forall>p\<in>area W H. p \<notin> points r \<longrightarrow> s' p = s p"
  shows "knows (Clipping_add_changed add_ch (mkRect 0 0 W H) t r) s' c"
  using changed_law [OF assms(3), of "Region_intersect r (Region_of_rect (mkRect 0 0 W H))" s']
    short_screen [OF assms(1,2)] small [OF assms(3)] assms(4,5)
  by (simp add: Clipping_add_changed_def rect_area_screen)

lemma clipping_copied:
  assumes "0 \<le> W" "0 \<le> H" "knows t s c" "rfb_region r" "\<bar>px d\<bar> < 16384" "\<bar>py d\<bar> < 16384"
    and "\<forall>p\<in>area W H. s' p = copy_area (points r) d s p"
  shows "knows (Clipping_add_copied add_ch add_cp (mkRect 0 0 W H) t r d) s' c"
proof -
  have WH: "W \<le> 16384" "H \<le> 16384" using small [OF assms(3)] by simp_all
  let ?R = "Region_of_rect (mkRect 0 0 W H)" and ?A = "area W H"
  have R: "rfb_region ?R" "points ?R = ?A" using short_screen [OF assms(1,2) WH] by (simp_all add: rect_area_screen)
  define cd where "cd = Region_intersect r ?R"
  have cd: "rfb_region cd" "points cd = points r \<inter> ?A" using R assms(4) by (simp_all add: cd_def)
  define tmp2 where "tmp2 = Region_assign_intersect (Region_translate (Region_copy cd) (Point_negate d)) ?R"
  have "short_points (src_area d (points cd))"
    unfolding short_points_def src_area_def cd(2) area_def
  proof clarsimp
    fix x y assume "0 \<le> x + px d" "x + px d < W" "0 \<le> y + py d" "y + py d < H"
    with assms(5,6) WH show "- 32768 \<le> x \<and> x < 32767 \<and> - 32768 \<le> y \<and> y < 32767" by linarith
  qed
  then have tmp2: "rfb_region tmp2" "points tmp2 = src_area d (points cd) \<inter> ?A"
    using cd R by (simp_all add: tmp2_def shifted_negate)
  define tmp3 where "tmp3 = (if Region_is_empty tmp2 then tmp2 else Region_translate tmp2 d)"
  have "shifted d (points tmp2) \<subseteq> points cd" by (rule shifted_part) (simp add: tmp2)
  then have sh: "shifted d (points tmp2) \<subseteq> ?A" "shifted d (points tmp2) \<subseteq> points r" "short_points (shifted d (points tmp2))"
    using cd area_short [of _ W H] WH by auto
  then have tmp3: "rfb_region tmp3" "points tmp3 = shifted d (points tmp2)"
    using tmp2(1) by (simp_all add: tmp3_def) (auto simp: shifted_def)
  define t1 where "t1 = (if Region_is_empty tmp2 then t else add_cp t tmp3 d)"
  let ?s = "copy_area (points tmp3) d s"
  have "src_area d (points tmp3) \<subseteq> ?A" using tmp3(2) tmp2(2) by (auto simp: src_area_def shifted_def)
  then have k1: "knows t1 ?s c"
    using copied_law [OF assms(3) tmp3(1), of d ?s] tmp3 sh(1) assms(3) tmp2(1)
    by (auto simp: t1_def copy_area_def shifted_def)
  define tmp4 where "tmp4 = Region_assign tmp3 (Region_subtract cd tmp3)"
  have tmp4: "rfb_region tmp4" "points tmp4 = points r \<inter> ?A - points tmp3" using cd tmp3 by (simp_all add: tmp4_def)
  have "\<forall>p\<in>?A. p \<notin> points tmp4 \<longrightarrow> s' p = ?s p"
    using assms(7) tmp4(2) tmp3(2) sh(2) by (auto simp: copy_area_def)
  note eq = this
  have k2: "knows (if Region_is_empty tmp4 then t1 else add_ch t1 tmp4) s' c"
  proof (cases "Region_is_empty tmp4")
    case True
    then show ?thesis using agree_law [OF k1, of s'] eq tmp4(1) by simp
  next
    case False
    then show ?thesis using changed_law [OF k1 tmp4(1) _ eq] tmp4(2) by auto
  qed
  show ?thesis
  proof (cases "Region_is_empty cd")
    case True
    then have "\<forall>p\<in>?A. s' p = s p" using assms(7) cd by (auto simp: copy_area_def)
    then show ?thesis using True agree_law [OF assms(3)] by (simp add: Clipping_add_copied_def flip: cd_def)
  next
    case False
    then have "Clipping_add_copied add_ch add_cp (mkRect 0 0 W H) t r d =
        (if Region_is_empty tmp4 then t1 else add_ch t1 tmp4)"
      by (simp add: Clipping_add_copied_def Let_def t1_def tmp4_def tmp3_def flip: cd_def tmp2_def)
    then show ?thesis using k2 by simp
  qed
qed

lemma clipping_ops_law:
  assumes "0 \<le> W" "0 \<le> H" "knows t s c" "\<forall>x\<in>set ops. op_anywhere x"
  shows "knows (fold (report_op (Clipping_add_changed add_ch (mkRect 0 0 W H)) (Clipping_add_copied add_ch add_cp (mkRect 0 0 W H))) ops t)
    (fold apply_op ops s) c"
  using assms(3,4)
proof (induction ops arbitrary: t s)
  case (Cons x ops)
  let ?rep = "report_op (Clipping_add_changed add_ch (mkRect 0 0 W H)) (Clipping_add_copied add_ch add_cp (mkRect 0 0 W H))"
  have "knows (?rep x t) (apply_op x s) c"
    using Cons.prems clipping_changed [OF assms(1,2) Cons.prems(1)] clipping_copied [OF assms(1,2) Cons.prems(1)] by (cases x) auto
  then show ?case using Cons by simp
qed simp

end

text \<open>So a clipping tracker keeps the contract of the tracker below it.\<close>

lemma nonempty_delta:
  assumes "points r \<subseteq> area W H" "src_area d (points r) \<subseteq> area W H" "points r \<noteq> {}" "W \<le> 16384" "H \<le> 16384"
  shows "\<bar>px d\<bar> < 16384" "\<bar>py d\<bar> < 16384"
proof -
  obtain x y where xy: "(x, y) \<in> points r" using assms(3) by auto
  then have "(x - px d, y - py d) \<in> src_area d (points r)" by (simp add: src_area_def)
  then have "(x, y) \<in> area W H" "(x - px d, y - py d) \<in> area W H" using xy assms(1,2) by blast+
  with assms(4,5) show "\<bar>px d\<bar> < 16384" "\<bar>py d\<bar> < 16384" by (auto simp: area_def)
qed

lemma clipped_copied:
  assumes "tracks (int m) (int n) t s c" "rfb_region r" "points r \<subseteq> area (int m) (int n)"
    and "src_area d (points r) \<subseteq> area (int m) (int n)" "\<forall>p\<in>area (int m) (int n). s' p = copy_area (points r) d s p"
  shows "tracks (int m) (int n) (Clipping_add_copied add_changed add_copied (mkRect 0 0 (int m) (int n)) t r d) s' c"
proof (cases "points r = {}")
  case True
  then have "Clipping_add_copied add_changed add_copied (mkRect 0 0 (int m) (int n)) t r d = t"
    using assms(2) short_screen [of "int m" "int n"] simple.small [OF assms(1)] by (simp add: Clipping_add_copied_def)
  moreover have "\<forall>p\<in>area (int m) (int n). s' p = s p" using assms(5) True by (simp add: copy_area_def)
  ultimately show ?thesis using tracks_agree [OF assms(1)] by simp
next
  case False
  then show ?thesis
    using simple.clipping_copied [OF _ _ assms(1,2) _ _ assms(5)] nonempty_delta [OF assms(3,4)] simple.small [OF assms(1)] by simp
qed

lemma clipped_changed:
  "\<lbrakk>tracks (int m) (int n) t s c; rfb_region r; points r \<subseteq> area (int m) (int n);
    \<forall>p\<in>area (int m) (int n). p \<notin> points r \<longrightarrow> s' p = s p\<rbrakk>
   \<Longrightarrow> tracks (int m) (int n) (Clipping_add_changed add_changed (mkRect 0 0 (int m) (int n)) t r) s' c"
  using simple.clipping_changed [of "int m" "int n" t s c r s'] by simp

interpretation clipped: update_tracker
  "Clipping_add_changed add_changed (mkRect 0 0 (int m) (int n))"
  "Clipping_add_copied add_changed add_copied (mkRect 0 0 (int m) (int n))"
  "tracks (int m) (int n)" "int m" "int n" for m n
  by unfold_locales (rule simple.small tracks_agree clipped_changed clipped_copied; assumption)+

section \<open>Taking an update\<close>

text \<open>
  What the client's screen is after an update: the copy is made first, then the changed pixels
  are drawn as they are on the server.
\<close>

definition client_update :: "UpdateInfo \<Rightarrow> 'p screen \<Rightarrow> 'p screen \<Rightarrow> 'p screen" where
  "client_update ui s c =
     (\<lambda>p. if p \<in> points (ui_changed ui) then s p
          else copy_area (points (ui_copied ui)) (ui_copy_delta ui) c p)"

definition fresh_info :: "UpdateInfo \<Rightarrow> bool" where
  "fresh_info ui \<longleftrightarrow> rfb_region (ui_changed ui) \<and> rfb_region (ui_copied ui)"

lemma getUpdateInfo_laws:
  assumes "rfb_region (changed t)" "rfb_region (copied t)" "fresh_info ui" "rfb_region cl"
    and "getUpdateInfo t ui cl = (t', ui')"
  shows "points (changed t') = points (changed t)" "points (copied t') = points (copied t) - points (changed t)"
    "points (ui_changed ui') = points (changed t) \<inter> points cl"
    "points (ui_copied ui') = (points (copied t) - points (changed t)) \<inter> points cl"
    "ui_copy_delta ui' = copy_delta t" "copy_delta t' = copy_delta t"
    "rfb_region (changed t')" "rfb_region (copied t')" "fresh_info ui'"
  using assms by (auto simp: getUpdateInfo_def Let_def fresh_info_def)

lemma getUpdateInfo_tracks:
  assumes "tracks W H t s c" "fresh_info ui" "rfb_region cl" "getUpdateInfo t ui cl = (t', ui')"
  shows "tracks W H t' s c"
proof -
  note t = assms(1) [unfolded tracks_def]
  have l: "points (changed t') = points (changed t)" "points (copied t') = points (copied t) - points (changed t)"
    "copy_delta t' = copy_delta t" "rfb_region (changed t')" "rfb_region (copied t')"
    using getUpdateInfo_laws [OF _ _ assms(2-4)] t by simp_all
  have "src_area (copy_delta t) (points (copied t) - points (changed t)) \<subseteq> src_area (copy_delta t) (points (copied t))"
    by (auto simp: src_area_def)
  then show ?thesis using t l(4,5) unfolding tracks_def l(1-3) by (auto simp: copy_area_def)
qed

lemma client_update_correct:
  assumes "tracks W H t s c" "fresh_info ui" "rfb_region cl" "getUpdateInfo t ui cl = (t', ui')"
    and "p \<in> area W H" "p \<in> points cl"
  shows "client_update ui' s c p = s p"
proof -
  note t = assms(1) [unfolded tracks_def]
  have l: "points (ui_changed ui') = points (changed t) \<inter> points cl"
    "points (ui_copied ui') = (points (copied t) - points (changed t)) \<inter> points cl" "ui_copy_delta ui' = copy_delta t"
    using getUpdateInfo_laws [OF _ _ assms(2-4)] t by simp_all
  show ?thesis using t assms(5,6) by (simp add: client_update_def copy_area_def l)
qed

lemma subtract_tracks:
  assumes "tracks W H t s c" "fresh_info ui" "rfb_region cl" "getUpdateInfo t ui cl = (t', ui')"
    and "points (copied t) \<subseteq> points cl \<union> points (changed t)"
  shows "tracks W H (tracker_subtract t' cl) s (client_update ui' s c)"
proof -
  note l = getUpdateInfo_laws [OF _ _ assms(2-4)]
  have t: "rfb_region (changed t)" "rfb_region (copied t)" using assms(1) by (simp_all add: tracks_def)
  have emp: "points (copied (tracker_subtract t' cl)) = {}"
    using l [OF t] assms(3,5) by (auto simp: tracker_subtract_def)
  have "s p = client_update ui' s c p" if "p \<in> area W H" "p \<notin> points (changed t) - points cl" for p
  proof (cases "p \<in> points cl")
    case True
    then show ?thesis using client_update_correct [OF assms(1-4) that(1)] by simp
  next
    case False
    then have "p \<notin> points (copied t)" "p \<notin> points (changed t)" using that assms(5) by auto
    then show ?thesis using assms(1) that(1) l [OF t] False by (simp add: tracks_def client_update_def copy_area_def)
  qed
  moreover have "points (changed (tracker_subtract t' cl)) = points (changed t) - points cl"
    using l [OF t] assms(3) by (simp add: tracker_subtract_def)
  moreover have "rfb_region (changed (tracker_subtract t' cl))" "rfb_region (copied (tracker_subtract t' cl))"
    using l [OF t] assms(3) by (simp_all add: tracker_subtract_def)
  ultimately show ?thesis
    using assms(1) emp by (auto simp: tracks_def copy_area_def src_area_def)
qed

end
