(* ===== verification/RfbCopy.thy ===== *)
theory RfbCopy
  imports RfbTracker
begin

text \<open>
  Sending a copy: writeCopyRects and writeCopyPassRects of \<^verbatim>\<open>src/common/rfb/EncodeManager.cxx\<close>.
  The copied region is sent as one CopyRect per rectangle, and the client makes the copies one
  after the other on its own screen. The order of the rectangles is chosen so that no copy
  destroys the source of a later one.
\<close>

section \<open>The code\<close>

record CopyRectMsg =
  cr_rect :: Rect
  cr_srcX :: int
  cr_srcY :: int

record CopyStats =
  st_rects :: nat
  st_pixels :: int
  st_equivalent :: int

record EncodeCopy =
  lossyRegion :: REGION
  copyStats :: CopyStats
  sent :: "CopyRectMsg list"

definition count_copy :: "int \<Rightarrow> Rect \<Rightarrow> CopyStats \<Rightarrow> CopyStats" where
  "count_copy bpp r st =
     \<lparr>st_rects = st_rects st + 1, st_pixels = st_pixels st + Rect_area r,
      st_equivalent = st_equivalent st + (12 + Rect_area r * (bpp div 8))\<rparr>"

definition send_copy :: "int \<Rightarrow> Rect \<Rightarrow> int \<Rightarrow> int \<Rightarrow> EncodeCopy \<Rightarrow> EncodeCopy" where
  "send_copy bpp r x y e =
     e\<lparr>copyStats := count_copy bpp r (copyStats e),
       sent := sent e @ [\<lparr>cr_rect = r, cr_srcX = x, cr_srcY = y\<rparr>]\<rparr>"

definition writeCopyRects :: "int \<Rightarrow> EncodeCopy \<Rightarrow> REGION \<Rightarrow> Point \<Rightarrow> EncodeCopy" where
  "writeCopyRects bpp e cpd delta =
     (let rs = get_rects cpd (px delta \<le> 0) (py delta \<le> 0);
          e1 = fold (\<lambda>r. send_copy bpp r (px (rtl r) - px delta) (py (rtl r) - py delta)) rs e;
          lossyCopy = Region_assign Region_new (lossyRegion e1);
          lossyCopy1 = Region_translate lossyCopy delta;
          lossyCopy2 = Region_assign_intersect lossyCopy1 cpd
      in e1\<lparr>lossyRegion := Region_assign_union (lossyRegion e1) lossyCopy2\<rparr>)"

text \<open>One round of the loop of writeCopyPassRects; lossyCopy keeps its value between the rounds.\<close>

definition copypass_step :: "int \<Rightarrow> CopyPassRect \<Rightarrow> EncodeCopy \<times> REGION \<Rightarrow> EncodeCopy \<times> REGION" where
  "copypass_step bpp c el =
     (let e1 = send_copy bpp (cp_rect c) (int (src_x c)) (int (src_y c)) (fst el);
          l1 = Region_assign (snd el) (lossyRegion e1);
          l2 = Region_translate l1 (mkPoint (px (rtl (cp_rect c)) - int (src_x c)) (py (rtl (cp_rect c)) - int (src_y c)));
          l3 = Region_assign_intersect l2 (Region_of_rect (cp_rect c))
      in (e1\<lparr>lossyRegion := Region_assign_union (lossyRegion e1) l3\<rparr>, l3))"

definition writeCopyPassRects :: "int \<Rightarrow> EncodeCopy \<Rightarrow> CopyPassRect list \<Rightarrow> EncodeCopy" where
  "writeCopyPassRects bpp e cs = fst (fold (copypass_step bpp) cs (e, Region_new))"

section \<open>The client\<close>

text \<open>The client makes one copy, as its frame buffer does it.\<close>

definition client_copy :: "CopyRectMsg \<Rightarrow> 'p screen \<Rightarrow> 'p screen" where
  "client_copy m =
     copy_area (rect_area_of (cr_rect m))
       (mkPoint (px (rtl (cr_rect m)) - cr_srcX m) (py (rtl (cr_rect m)) - cr_srcY m))"

lemma source_not_destroyed:
  assumes "precedes (px d \<le> 0) (py d \<le> 0) a b" "p \<in> rect_area_of b"
  shows "from_src d p \<notin> rect_area_of a"
  using assms by (auto simp: precedes_def rect_area_of_def from_src_def split: if_splits)

lemma copies_in_order:
  assumes "sorted_wrt (precedes (px d \<le> 0) (py d \<le> 0)) rs"
  shows "fold (\<lambda>r. copy_area (rect_area_of r) d) rs c = copy_area (\<Union>r\<in>set rs. rect_area_of r) d c"
  using assms
proof (induction rs arbitrary: c)
  case Nil
  then show ?case by (simp add: copy_area_def)
next
  case (Cons a rs)
  let ?U = "\<Union>r\<in>set rs. rect_area_of r"
  have "from_src d p \<notin> rect_area_of a" if "p \<in> ?U" for p
    using source_not_destroyed Cons.prems that by fastforce
  then have "copy_area ?U d (copy_area (rect_area_of a) d c) = copy_area (rect_area_of a \<union> ?U) d c"
    by (auto simp: copy_area_def fun_eq_iff)
  then show ?case using Cons by simp
qed

lemma fold_send_copy:
  "sent (fold (\<lambda>r. send_copy bpp r (f r) (g r)) rs e) =
     sent e @ map (\<lambda>r. \<lparr>cr_rect = r, cr_srcX = f r, cr_srcY = g r\<rparr>) rs"
  "lossyRegion (fold (\<lambda>r. send_copy bpp r (f r) (g r)) rs e) = lossyRegion e"
  by (induction rs arbitrary: e) (simp_all add: send_copy_def)

lemma sent_writeCopyRects:
  "sent (writeCopyRects bpp e cpd d) = sent e @ map (\<lambda>r. \<lparr>cr_rect = r, cr_srcX = px (rtl r) - px d,
     cr_srcY = py (rtl r) - py d\<rparr>) (get_rects cpd (px d \<le> 0) (py d \<le> 0))"
  by (simp add: writeCopyRects_def Let_def fold_send_copy)

lemma client_copies:
  assumes "rfb_region cpd" "sent e = []"
  shows "fold client_copy (sent (writeCopyRects bpp e cpd d)) c = copy_area (points cpd) d c"
proof -
  have d: "mkPoint (px d) (py d) = d" by (simp add: mkPoint_def)
  have "fold client_copy (sent (writeCopyRects bpp e cpd d)) c =
      fold (\<lambda>r. copy_area (rect_area_of r) d) (get_rects cpd (px d \<le> 0) (py d \<le> 0)) c"
    using assms(2) by (simp add: sent_writeCopyRects fold_map comp_def client_copy_def d)
  also have "\<dots> = copy_area (points cpd) d c"
    using copies_in_order [OF get_rects_laws(2) [OF assms(1)], of d c] get_rects_laws(1) [OF assms(1)] by simp
  finally show ?thesis .
qed

text \<open>Every source rectangle is on the screen, so it can be sent as two unsigned 16-bit numbers.\<close>

lemma rect_corner: "\<not> Rect_is_empty r \<Longrightarrow> (px (rtl r), py (rtl r)) \<in> rect_area_of r"
  by (simp add: Rect_is_empty_def rect_area_of_def)

lemma copy_sources_on_screen:
  assumes "rfb_region cpd" "src_area d (points cpd) \<subseteq> area W H" "sent e = []" "m \<in> set (sent (writeCopyRects bpp e cpd d))"
  shows "0 \<le> cr_srcX m \<and> cr_srcX m < W \<and> 0 \<le> cr_srcY m \<and> cr_srcY m < H"
proof -
  obtain r where r: "r \<in> set (get_rects cpd (px d \<le> 0) (py d \<le> 0))" "cr_srcX m = px (rtl r) - px d" "cr_srcY m = py (rtl r) - py d"
    using assms(3,4) by (auto simp: sent_writeCopyRects)
  then have "(px (rtl r), py (rtl r)) \<in> points cpd"
    using get_rects_laws(1,3) [OF assms(1), of "px d \<le> 0" "py d \<le> 0"] rect_corner by blast
  then have "(px (rtl r) - px d, py (rtl r) - py d) \<in> area W H" using assms(2) by (auto simp: src_area_def)
  then show ?thesis using r(2,3) by (simp add: area_def)
qed

text \<open>
  The lossy region after the copies: the pixels that were lossy and those copied from lossy
  ones.
\<close>

lemma writeCopyRects_lossy:
  assumes "rfb_region cpd" "rfb_region (lossyRegion e)" "short_points (shifted d (points (lossyRegion e)))"
  shows "rfb_region (lossyRegion (writeCopyRects bpp e cpd d))"
    "points (lossyRegion (writeCopyRects bpp e cpd d)) =
      points (lossyRegion e) \<union> {p \<in> points cpd. from_src d p \<in> points (lossyRegion e)}"
  using assms by (auto simp: writeCopyRects_def Let_def fold_send_copy mem_shifted)

end
