(* ===== verification/PixelBuffer.thy ===== *)
theory PixelBuffer
  imports RfbCopy
begin

text \<open>
  The frame buffers of \<^verbatim>\<open>src/common/rfb/PixelBuffer.cxx\<close>. The buffer is a list of pixels: every
  offset and length of the code is a multiple of the bytes of a pixel, which is divided out
  here. A copy that leaves the buffer, a memcpy between overlapping blocks and a loop on a
  negative count are the error Undefined.
\<close>

section \<open>Memory\<close>

datatype pb_error = RectExceedsFramebuffer | Undefined

definition put_block :: "'p list \<Rightarrow> nat \<Rightarrow> 'p list \<Rightarrow> 'p list" where
  "put_block d k xs = take k d @ xs @ drop (k + length xs) d"

definition memmove :: "int \<Rightarrow> int \<Rightarrow> int \<Rightarrow> 'p list \<Rightarrow> pb_error + 'p list" where
  "memmove n dst src d =
     (if 0 \<le> n \<and> 0 \<le> dst \<and> 0 \<le> src \<and> dst + n \<le> int (length d) \<and> src + n \<le> int (length d)
      then Inr (put_block d (nat dst) (take (nat n) (drop (nat src) d))) else Inl Undefined)"

definition memcpy_within :: "int \<Rightarrow> int \<Rightarrow> int \<Rightarrow> 'p list \<Rightarrow> pb_error + 'p list" where
  "memcpy_within n dst src d =
     (if dst + n \<le> src \<or> src + n \<le> dst then memmove n dst src d else Inl Undefined)"

text \<open>memcpy from another buffer.\<close>

definition memcpy_from :: "'p list \<Rightarrow> int \<Rightarrow> int \<Rightarrow> int \<Rightarrow> 'p list \<Rightarrow> pb_error + 'p list" where
  "memcpy_from sd n dst src d =
     (if 0 \<le> n \<and> 0 \<le> dst \<and> 0 \<le> src \<and> dst + n \<le> int (length d) \<and> src + n \<le> int (length sd)
      then Inr (put_block d (nat dst) (take (nat n) (drop (nat src) sd))) else Inl Undefined)"

section \<open>The code\<close>

record 'p PixelBuffer =
  pb_width :: int
  pb_height :: int
  pb_stride :: int
  pb_data :: "'p list"

definition getRect :: "'p PixelBuffer \<Rightarrow> Rect" where
  "getRect pb = mkRect 0 0 (pb_width pb) (pb_height pb)"

definition getBuffer :: "'p PixelBuffer \<Rightarrow> Rect \<Rightarrow> pb_error + int" where
  "getBuffer pb r =
     (if \<not> Rect_enclosed_by r (getRect pb) then Inl RectExceedsFramebuffer
      else Inr (px (rtl r) + py (rtl r) * pb_stride pb))"

text \<open>The row loops: \<open>f dst src\<close> is done \<open>h\<close> times, with the two offsets stepping along.\<close>

fun row_loop :: "(int \<Rightarrow> int \<Rightarrow> 'p list \<Rightarrow> pb_error + 'p list) \<Rightarrow> int \<Rightarrow> int \<Rightarrow> nat \<Rightarrow> int \<Rightarrow> int \<Rightarrow> 'p list \<Rightarrow> pb_error + 'p list"
where
  "row_loop f dstep sstep 0 dst src d = Inr d"
| "row_loop f dstep sstep (Suc h) dst src d =
     (case f dst src d of Inl e \<Rightarrow> Inl e | Inr d' \<Rightarrow> row_loop f dstep sstep h (dst + dstep) (src + sstep) d')"

definition counted :: "int \<Rightarrow> (nat \<Rightarrow> pb_error + 'a) \<Rightarrow> pb_error + 'a" where
  "counted h k = (if h < 0 then Inl Undefined else k (nat h))"

definition with_data :: "'p PixelBuffer \<Rightarrow> pb_error + 'p list \<Rightarrow> pb_error + 'p PixelBuffer" where
  "with_data pb r = (case r of Inl e \<Rightarrow> Inl e | Inr d \<Rightarrow> Inr (pb\<lparr>pb_data := d\<rparr>))"

text \<open>getImage: the rows of a rectangle into a buffer of the caller (in the same pixel format).\<close>

definition getImage :: "'p PixelBuffer \<Rightarrow> 'p list \<Rightarrow> Rect \<Rightarrow> int \<Rightarrow> pb_error + 'p list" where
  "getImage pb imageBuf r outStride =
     (case getBuffer pb r of Inl e \<Rightarrow> Inl e
      | Inr off \<Rightarrow>
          let os = (if outStride = 0 then Rect_width r else outStride)
          in row_loop (memcpy_from (pb_data pb) (Rect_width r)) os (pb_stride pb) (nat (Rect_height r)) 0 off imageBuf)"

text \<open>imageRect: the rows of a buffer of the caller into a rectangle.\<close>

definition imageRect :: "'p PixelBuffer \<Rightarrow> Rect \<Rightarrow> 'p list \<Rightarrow> int \<Rightarrow> pb_error + 'p PixelBuffer" where
  "imageRect pb r pixs srcStride =
     (case getBuffer pb r of Inl e \<Rightarrow> Inl e
      | Inr off \<Rightarrow>
          let ss = (if srcStride = 0 then Rect_width r else srcStride)
          in with_data pb
               (row_loop (memcpy_from pixs (Rect_width r)) (pb_stride pb) ss (nat (Rect_height r)) off 0 (pb_data pb)))"

text \<open>
  fillRect. With one byte per pixel every row is a memset; otherwise the first row is written
  pixel by pixel and then copied to the others.
\<close>

definition fill_row :: "'p \<Rightarrow> int \<Rightarrow> int \<Rightarrow> int \<Rightarrow> 'p list \<Rightarrow> pb_error + 'p list" where
  "fill_row pix w dst src d = memcpy_from (replicate (nat w) pix) w dst 0 d"

definition fillRect :: "nat \<Rightarrow> 'p PixelBuffer \<Rightarrow> Rect \<Rightarrow> 'p \<Rightarrow> pb_error + 'p PixelBuffer" where
  "fillRect b pb r pix =
     (case getBuffer pb r of Inl e \<Rightarrow> Inl e
      | Inr buf \<Rightarrow>
          let w = Rect_width r; h = Rect_height r; S = pb_stride pb
          in if h = 0 then Inr pb
             else if b = 1 then
               with_data pb (counted h (\<lambda>n. row_loop (fill_row pix w) S S n buf buf (pb_data pb)))
             else
               with_data pb (case fill_row pix w buf buf (pb_data pb) of Inl e \<Rightarrow> Inl e
                 | Inr d \<Rightarrow> counted (h - 1) (\<lambda>n.
                     row_loop (\<lambda>dst src. memcpy_within w dst buf) S S n (buf + S) (buf + S) d)))"

definition copyRect :: "'p PixelBuffer \<Rightarrow> Rect \<Rightarrow> Point \<Rightarrow> pb_error + 'p PixelBuffer" where
  "copyRect pb drect delta =
     (case getBuffer pb drect of Inl e \<Rightarrow> Inl e
      | Inr dst \<Rightarrow>
          (case getBuffer pb (Rect_translate drect (Point_negate delta)) of Inl e \<Rightarrow> Inl e
           | Inr src \<Rightarrow>
               let w = Rect_width drect; h = Rect_height drect; S = pb_stride pb
               in with_data pb (counted h (\<lambda>n.
                    if py delta = 0 then row_loop (memmove w) S S n dst src (pb_data pb)
                    else if py delta < 0 then row_loop (memcpy_within w) S S n dst src (pb_data pb)
                    else row_loop (memcpy_within w) (- S) (- S) n (dst + (h - 1) * S) (src + (h - 1) * S) (pb_data pb)))))"

section \<open>Pixels\<close>

definition pixel_at :: "int \<Rightarrow> 'p list \<Rightarrow> 'p screen" where
  "pixel_at S d p = d ! nat (fst p + snd p * S)"

definition pixels :: "'p PixelBuffer \<Rightarrow> 'p screen" where
  "pixels pb = pixel_at (pb_stride pb) (pb_data pb)"

definition wf_pb :: "'p PixelBuffer \<Rightarrow> bool" where
  "wf_pb pb \<longleftrightarrow> 0 \<le> pb_width pb \<and> 0 \<le> pb_height pb \<and> pb_width pb \<le> pb_stride pb
     \<and> int (length (pb_data pb)) \<ge> pb_height pb * pb_stride pb"

text \<open>One row of a rectangle, and the block of the buffer it occupies.\<close>

definition row_rect :: "int \<Rightarrow> int \<Rightarrow> int \<Rightarrow> Rect" where
  "row_rect x1 x2 y = mkRect x1 y x2 (y + 1)"

lemma nth_put_block:
  "\<lbrakk>k + length xs \<le> length d; i < length d\<rbrakk> \<Longrightarrow>
   put_block d k xs ! i = (if k \<le> i \<and> i < k + length xs then xs ! (i - k) else d ! i)"
  by (auto simp: put_block_def nth_append)

lemma length_put_block [simp]: "k + length xs \<le> length d \<Longrightarrow> length (put_block d k xs) = length d"
  by (simp add: put_block_def)

lemma row_index:
  assumes "0 \<le> (u :: int)" "u < W" "0 \<le> v" "v < H" "W \<le> S" "0 \<le> x1" "x1 \<le> x2" "x2 \<le> W" "0 \<le> y" "y < H"
  shows "x1 + y * S \<le> u + v * S \<and> u + v * S < x2 + y * S \<longleftrightarrow> v = y \<and> x1 \<le> u \<and> u < x2"
proof -
  have "v * S + S \<le> y * S" if "v < y" using mult_right_mono [of "v + 1" y S] that assms by (simp add: algebra_simps)
  moreover have "y * S + S \<le> v * S" if "y < v" using mult_right_mono [of "y + 1" v S] that assms by (simp add: algebra_simps)
  ultimately show ?thesis using assms by (cases v y rule: linorder_cases) auto
qed

lemma index_bound:
  assumes "0 \<le> (u :: int)" "u < W" "0 \<le> v" "v < H" "W \<le> S" "int L \<ge> H * S"
  shows "0 \<le> u + v * S" "u + v * S < int L"
proof -
  have "0 \<le> v * S" using assms by simp
  then show "0 \<le> u + v * S" using assms by simp
  have "v * S + S \<le> H * S" using mult_right_mono [of "v + 1" H S] assms by (simp add: algebra_simps)
  then show "u + v * S < int L" using assms by linarith
qed

text \<open>A block of pixels written to one row.\<close>

definition displays :: "int \<Rightarrow> int \<Rightarrow> int \<Rightarrow> 'p list \<Rightarrow> 'p screen \<Rightarrow> bool" where
  "displays W H S d s \<longleftrightarrow> W \<le> S \<and> int (length d) \<ge> H * S \<and> (\<forall>p\<in>area W H. pixel_at S d p = s p)"

lemma write_row:
  assumes "displays W H S d s" "0 \<le> x1" "x1 \<le> x2" "x2 \<le> W" "0 \<le> y" "y < H" "int (length xs) = x2 - x1"
    and "\<And>u. \<lbrakk>x1 \<le> u; u < x2\<rbrakk> \<Longrightarrow> xs ! nat (u - x1) = s' (u, y)"
    and "\<And>p. \<lbrakk>p \<in> area W H; p \<notin> rect_area_of (row_rect x1 x2 y)\<rbrakk> \<Longrightarrow> s' p = s p"
  shows "x1 + y * S + (x2 - x1) \<le> int (length d)" "0 \<le> x1 + y * S"
    and "displays W H S (put_block d (nat (x1 + y * S)) xs) s'"
proof -
  have S: "W \<le> S" "int (length d) \<ge> H * S" using assms(1) by (simp_all add: displays_def)
  have "y * S + S \<le> H * S" using mult_right_mono [of "y + 1" H S] assms S by (simp add: algebra_simps)
  then show b: "x1 + y * S + (x2 - x1) \<le> int (length d)" using S assms(4) by simp
  have "0 \<le> y * S" using assms S by simp
  then show nn: "0 \<le> x1 + y * S" using assms(2) by simp
  have len: "nat (x1 + y * S) + length xs \<le> length d" using b nn assms(7) by linarith
  have "pixel_at S (put_block d (nat (x1 + y * S)) xs) (u, v) = s' (u, v)" if "(u, v) \<in> area W H" for u v
  proof -
    have uv: "0 \<le> u" "u < W" "0 \<le> v" "v < H" using that by (auto simp: area_def)
    let ?i = "nat (u + v * S)"
    have i: "0 \<le> u + v * S" "?i < length d" using index_bound [OF uv S] by auto
    have in_row: "nat (x1 + y * S) \<le> ?i \<and> ?i < nat (x1 + y * S) + length xs \<longleftrightarrow> v = y \<and> x1 \<le> u \<and> u < x2"
      using row_index [OF uv S(1) assms(2-6)] i(1) nn assms(7) by linarith
    show ?thesis
    proof (cases "v = y \<and> x1 \<le> u \<and> u < x2")
      case True
      then have "?i - nat (x1 + y * S) = nat (u - x1)" using i(1) nn by (simp add: nat_diff_distrib' [symmetric] flip: nat_diff_distrib)
      then show ?thesis
        using True in_row assms(8) nth_put_block [OF len i(2)] by (simp add: pixel_at_def)
    next
      case False
      then have "s' (u, v) = s (u, v)"
        using assms(9) [OF that] by (auto simp: rect_area_of_def row_rect_def rect_sels)
      moreover have "pixel_at S d (u, v) = s (u, v)" using assms(1) that by (simp add: displays_def)
      ultimately show ?thesis
        using False in_row nth_put_block [OF len i(2)] by (auto simp: pixel_at_def)
    qed
  qed
  then show "displays W H S (put_block d (nat (x1 + y * S)) xs) s'" using S len by (auto simp: displays_def)
qed

text \<open>Rows in any order: the effects of the row operations add up.\<close>

definition row_op :: "int \<Rightarrow> int \<Rightarrow> int \<Rightarrow> (int \<Rightarrow> int \<Rightarrow> 'p list \<Rightarrow> pb_error + 'p list)
    \<Rightarrow> (int \<Rightarrow> int) \<Rightarrow> (int \<Rightarrow> int) \<Rightarrow> (int \<Rightarrow> 'p screen \<Rightarrow> 'p screen) \<Rightarrow> int set \<Rightarrow> bool" where
  "row_op W H S f D Sr g Y \<longleftrightarrow>
     (\<forall>y\<in>Y. \<forall>d s. displays W H S d s \<longrightarrow> (\<exists>d'. f (D y) (Sr y) d = Inr d' \<and> length d' = length d \<and> displays W H S d' (g y s)))"

lemma row_loop_rows:
  assumes "row_op W H S f D Sr g Y" "displays W H S d s" "\<forall>i<n. y + st * int i \<in> Y"
    and "\<And>z. D (z + st) = D z + dstep" "\<And>z. Sr (z + st) = Sr z + sstep"
  shows "\<exists>d'. row_loop f dstep sstep n (D y) (Sr y) d = Inr d' \<and> length d' = length d
    \<and> displays W H S d' (fold g (map (\<lambda>i. y + st * int i) [0..<n]) s)"
  using assms(2,3)
proof (induction n arbitrary: y d s)
  case (Suc n)
  have "y \<in> Y" using Suc.prems(2) [rule_format, of 0] by simp
  then obtain d1 where d1: "f (D y) (Sr y) d = Inr d1" "length d1 = length d" "displays W H S d1 (g y s)"
    using assms(1) Suc.prems(1) unfolding row_op_def by blast
  have "\<forall>i<n. y + st + st * int i \<in> Y"
    using Suc.prems(2) by (metis Suc_mono add.assoc distrib_left mult.right_neutral of_nat_Suc)
  then obtain d2 where d2: "row_loop f dstep sstep n (D (y + st)) (Sr (y + st)) d1 = Inr d2" "length d2 = length d1"
    "displays W H S d2 (fold g (map (\<lambda>i. y + st + st * int i) [0..<n]) (g y s))"
    using Suc.IH [OF d1(3)] by blast
  have m: "map (\<lambda>i. y + st * int i) [0..<Suc n] = y # map (\<lambda>i. y + st + st * int i) [0..<n]"
  proof -
    have "[0..<Suc n] = 0 # map Suc [0..<n]" by (metis map_Suc_upt upt_conv_Cons zero_less_Suc)
    then show ?thesis by (simp only: list.map map_map comp_def of_nat_Suc) (simp add: algebra_simps)
  qed
  show ?case using d1 d2 assms(4,5) unfolding m by simp
qed simp

section \<open>Copying a rectangle\<close>

lemma take_drop_nth: "\<lbrakk>k < n; j + n \<le> length d\<rbrakk> \<Longrightarrow> take n (drop j d) ! k = d ! (j + k)"
  by simp

lemma move_row:
  assumes "displays W H S d s" "0 \<le> x1" "x1 \<le> x2" "x2 \<le> W" "0 \<le> y" "y < H"
    and "0 \<le> x1 - px e" "x2 - px e \<le> W" "0 \<le> y - py e" "y - py e < H"
  shows "\<exists>d'. memmove (x2 - x1) (x1 + y * S) (x1 - px e + (y - py e) * S) d = Inr d' \<and> length d' = length d
    \<and> displays W H S d' (copy_area (rect_area_of (row_rect x1 x2 y)) e s)"
proof -
  let ?n = "x2 - x1" and ?dst = "x1 + y * S" and ?src = "x1 - px e + (y - py e) * S"
  let ?xs = "take (nat ?n) (drop (nat ?src) d)" and ?s = "copy_area (rect_area_of (row_rect x1 x2 y)) e s"
  have S: "W \<le> S" "int (length d) \<ge> H * S" using assms(1) by (simp_all add: displays_def)
  have "(y - py e) * S + S \<le> H * S" using mult_right_mono [of "y - py e + 1" H S] assms S by (simp add: algebra_simps)
  moreover have "0 \<le> (y - py e) * S" using assms S by simp
  ultimately have b: "?src + ?n \<le> int (length d)" "0 \<le> ?src" using S assms by linarith+
  have len: "int (length ?xs) = ?n" using b assms(3) by (simp add: min_def) linarith
  have xs: "?xs ! nat (u - x1) = ?s (u, y)" if u: "x1 \<le> u" "u < x2" for u
  proof -
    have "?xs ! nat (u - x1) = d ! (nat ?src + nat (u - x1))" using u b by (intro take_drop_nth) linarith+
    also have "nat ?src + nat (u - x1) = nat (u - px e + (y - py e) * S)" using u b(2) by (simp add: nat_add_distrib [symmetric])
    also have "d ! \<dots> = s (u - px e, y - py e)"
    proof -
      have "(u - px e, y - py e) \<in> area W H" using u assms by (simp add: area_def)
      then have "pixel_at S d (u - px e, y - py e) = s (u - px e, y - py e)" using assms(1) by (simp add: displays_def)
      then show ?thesis by (simp add: pixel_at_def)
    qed
    finally show ?thesis using u by (simp add: copy_area_def from_src_def rect_area_of_def row_rect_def rect_sels)
  qed
  have out: "?s p = s p" if "p \<notin> rect_area_of (row_rect x1 x2 y)" for p using that by (simp add: copy_area_def)
  note w = write_row [OF assms(1-6) len xs out]
  have "nat ?dst + length ?xs \<le> length d" using w(1,2) len by linarith
  then show ?thesis using w b assms(3) by (simp add: memmove_def)
qed

lemma copy_rows:
  assumes "row_op W H S f D Sr (\<lambda>y. copy_area (rect_area_of (row_rect x1 x2 y)) e) Y" "displays W H S d s"
    and "\<forall>i<n. y + st * int i \<in> Y" "\<And>z. D (z + st) = D z + dstep" "\<And>z. Sr (z + st) = Sr z + sstep"
    and "st = (if py e \<le> 0 then 1 else - 1)"
  shows "\<exists>d'. row_loop f dstep sstep n (D y) (Sr y) d = Inr d' \<and> length d' = length d
    \<and> displays W H S d' (copy_area (\<Union>i<n. rect_area_of (row_rect x1 x2 (y + st * int i))) e s)"
proof -
  let ?rs = "map (\<lambda>i. row_rect x1 x2 (y + st * int i)) [0..<n]"
  have "sorted_wrt (precedes (px e \<le> 0) (py e \<le> 0)) ?rs"
    using assms(6) by (auto simp: sorted_wrt_iff_nth_less precedes_def row_rect_def rect_sels)
  from copies_in_order [OF this] have
    "fold (\<lambda>y. copy_area (rect_area_of (row_rect x1 x2 y)) e) (map (\<lambda>i. y + st * int i) [0..<n]) s
      = copy_area (\<Union>i<n. rect_area_of (row_rect x1 x2 (y + st * int i))) e s"
    by (simp add: fold_map comp_def atLeast0LessThan)
  then show ?thesis using row_loop_rows [OF assms(1-5)] by simp
qed

lemma rows_up:
  assumes "y1 \<le> y2"
  shows "(\<Union>i<nat (y2 - y1). rect_area_of (row_rect x1 x2 (y1 + 1 * int i))) = rect_area_of (mkRect x1 y1 x2 y2)" (is "?U = ?R")
proof -
  have "p \<in> ?U" if "p \<in> ?R" for p
  proof -
    obtain x y where p: "p = (x, y)" by fastforce
    then have "nat (y - y1) < nat (y2 - y1)" "p \<in> rect_area_of (row_rect x1 x2 (y1 + 1 * int (nat (y - y1))))"
      using that by (auto simp: rect_area_of_def row_rect_def rect_sels)
    then show ?thesis by blast
  qed
  moreover have "?U \<subseteq> ?R" by (auto simp: rect_area_of_def row_rect_def rect_sels)
  ultimately show ?thesis by blast
qed

lemma rows_down:
  assumes "y1 \<le> y2"
  shows "(\<Union>i<nat (y2 - y1). rect_area_of (row_rect x1 x2 (y2 - 1 + - 1 * int i))) = rect_area_of (mkRect x1 y1 x2 y2)" (is "?U = ?R")
proof -
  have "p \<in> ?U" if "p \<in> ?R" for p
  proof -
    obtain x y where p: "p = (x, y)" by fastforce
    then have "nat (y2 - 1 - y) < nat (y2 - y1)" "p \<in> rect_area_of (row_rect x1 x2 (y2 - 1 + - 1 * int (nat (y2 - 1 - y))))"
      using that by (auto simp: rect_area_of_def row_rect_def rect_sels)
    then show ?thesis by blast
  qed
  moreover have "?U \<subseteq> ?R" by (auto simp: rect_area_of_def row_rect_def rect_sels)
  ultimately show ?thesis by blast
qed

lemma wf_displays: "wf_pb pb \<Longrightarrow> displays (pb_width pb) (pb_height pb) (pb_stride pb) (pb_data pb) (pixels pb)"
  by (simp add: wf_pb_def displays_def pixels_def)

text \<open>What a drawing operation has done: the buffer shows the new screen and is still well-formed.\<close>

definition draws :: "'p PixelBuffer \<Rightarrow> pb_error + 'p PixelBuffer \<Rightarrow> 'p screen \<Rightarrow> bool" where
  "draws pb r s \<longleftrightarrow> (\<exists>pb'. r = Inr pb' \<and> wf_pb pb' \<and> pb_width pb' = pb_width pb \<and> pb_height pb' = pb_height pb
     \<and> (\<forall>p\<in>area (pb_width pb) (pb_height pb). pixels pb' p = s p))"

lemma drawsI:
  assumes "wf_pb pb" "r = Inr d" "length d = length (pb_data pb)"
    and "displays (pb_width pb) (pb_height pb) (pb_stride pb) d s"
  shows "draws pb (with_data pb r) s"
  using assms by (simp add: draws_def with_data_def wf_pb_def displays_def pixels_def)

definition sane_rect :: "Rect \<Rightarrow> bool" where
  "sane_rect r \<longleftrightarrow> px (rtl r) \<le> px (rbr r) \<and> py (rtl r) \<le> py (rbr r)"

lemma rows_apart:
  assumes "0 \<le> n" "n \<le> S" "0 \<le> a" "a + n \<le> S" "0 \<le> b" "b + n \<le> S" "(y :: int) \<noteq> z"
  shows "a + y * S + n \<le> b + z * S \<or> b + z * S + n \<le> a + y * S"
proof -
  have "y * S + S \<le> z * S" if "y < z" using mult_right_mono [of "y + 1" z S] that assms by (simp add: algebra_simps)
  moreover have "z * S + S \<le> y * S" if "z < y" using mult_right_mono [of "z + 1" y S] that assms by (simp add: algebra_simps)
  ultimately show ?thesis using assms by (cases y z rule: linorder_cases) auto
qed

lemma copyRect_draws:
  fixes pb :: "'p PixelBuffer"
  assumes "wf_pb pb" "sane_rect r" "Rect_enclosed_by r (getRect pb)"
    and "Rect_enclosed_by (Rect_translate r (Point_negate e)) (getRect pb)"
  shows "draws pb (copyRect pb r e) (copy_area (rect_area_of r) e (pixels pb))"
proof -
  let ?W = "pb_width pb" and ?H = "pb_height pb" and ?S = "pb_stride pb"
  let ?x1 = "px (rtl r)" and ?x2 = "px (rbr r)" and ?y1 = "py (rtl r)" and ?y2 = "py (rbr r)"
  let ?n = "?x2 - ?x1" and ?h = "nat (?y2 - ?y1)"
  let ?D = "\<lambda>y. ?x1 + y * ?S" and ?Sr = "\<lambda>y. ?x1 - px e + (y - py e) * ?S"
  let ?g = "\<lambda>y (s :: 'p screen). copy_area (rect_area_of (row_rect ?x1 ?x2 y)) e s"
  have b: "0 \<le> ?x1" "?x1 \<le> ?x2" "?x2 \<le> ?W" "0 \<le> ?y1" "?y1 \<le> ?y2" "?y2 \<le> ?H"
    "0 \<le> ?x1 - px e" "?x2 - px e \<le> ?W" "0 \<le> ?y1 - py e" "?y2 - py e \<le> ?H"
    using assms(2-4) by (auto simp: Rect_enclosed_by_def getRect_def sane_rect_def rect_sels)
  have S: "?W \<le> ?S" using assms(1) by (simp add: wf_pb_def)
  have mv: "row_op ?W ?H ?S (memmove ?n) ?D ?Sr ?g {?y1..<?y2}"
    unfolding row_op_def using move_row b by (intro ballI allI impI) (simp add: move_row)
  have cp: "row_op ?W ?H ?S (memcpy_within ?n) ?D ?Sr ?g {?y1..<?y2}" if "py e \<noteq> 0"
  proof -
    have "memcpy_within ?n (?D y) (?Sr y) d = memmove ?n (?D y) (?Sr y) d" for y and d :: "'p list"
      using rows_apart [of ?n ?S ?x1 "?x1 - px e" y "y - py e"] b S that by (auto simp: memcpy_within_def)
    then show ?thesis using mv by (simp only: row_op_def)
  qed
  have D: "?D (z + 1) = ?D z + ?S" "?Sr (z + 1) = ?Sr z + ?S" "?D (z + - 1) = ?D z + - ?S" "?Sr (z + - 1) = ?Sr z + - ?S" for z
    by (simp_all add: algebra_simps)
  let ?R = "if py e = 0 then row_loop (memmove ?n) ?S ?S ?h (?D ?y1) (?Sr ?y1) (pb_data pb)
    else if py e < 0 then row_loop (memcpy_within ?n) ?S ?S ?h (?D ?y1) (?Sr ?y1) (pb_data pb)
    else row_loop (memcpy_within ?n) (- ?S) (- ?S) ?h (?D (?y2 - 1)) (?Sr (?y2 - 1)) (pb_data pb)"
  have up: "\<forall>i<?h. ?y1 + 1 * int i \<in> {?y1..<?y2}" and down: "\<forall>i<?h. ?y2 - 1 + - 1 * int i \<in> {?y1..<?y2}" by auto
  have r: "mkRect ?x1 ?y1 ?x2 ?y2 = r" by (simp add: rect_sels)
  note w = wf_displays [OF assms(1)]
  have "\<exists>d'. ?R = Inr d' \<and> length d' = length (pb_data pb)
      \<and> displays ?W ?H ?S d' (copy_area (rect_area_of r) e (pixels pb))"
    using copy_rows [OF mv w up D(1,2)] copy_rows [OF cp w up D(1,2)] copy_rows [OF cp w down D(3,4)]
      rows_up [OF b(5), of ?x1 ?x2] rows_down [OF b(5), of ?x1 ?x2] by (auto simp: r)
  then obtain d' where d': "?R = Inr d'" "length d' = length (pb_data pb)"
    "displays ?W ?H ?S d' (copy_area (rect_area_of r) e (pixels pb))" by blast
  have "copyRect pb r e = with_data pb ?R"
    using assms(3,4) b(5) by (simp add: copyRect_def getBuffer_def counted_def Let_def rect_sels algebra_simps)
  then show ?thesis using drawsI [OF assms(1) d'] by simp
qed

section \<open>Drawing and reading images\<close>

definition overlay :: "(int \<times> int) set \<Rightarrow> 'p screen \<Rightarrow> 'p screen \<Rightarrow> 'p screen" where
  "overlay A img s = (\<lambda>p. if p \<in> A then img p else s p)"

lemma paint_row:
  assumes "displays W H S d s" "0 \<le> x1" "x1 \<le> x2" "x2 \<le> W" "0 \<le> y" "y < H"
    and "0 \<le> src" "src + (x2 - x1) \<le> int (length sd)"
    and "\<And>u. \<lbrakk>x1 \<le> u; u < x2\<rbrakk> \<Longrightarrow> sd ! nat (src + (u - x1)) = img (u, y)"
  shows "\<exists>d'. memcpy_from sd (x2 - x1) (x1 + y * S) src d = Inr d' \<and> length d' = length d
    \<and> displays W H S d' (overlay (rect_area_of (row_rect x1 x2 y)) img s)"
proof -
  let ?n = "x2 - x1" and ?s = "overlay (rect_area_of (row_rect x1 x2 y)) img s"
  let ?xs = "take (nat ?n) (drop (nat src) sd)"
  have len: "int (length ?xs) = ?n" using assms(3,7,8) by (simp add: min_def) linarith
  have xs: "?xs ! nat (u - x1) = ?s (u, y)" if u: "x1 \<le> u" "u < x2" for u
  proof -
    have "?xs ! nat (u - x1) = sd ! (nat src + nat (u - x1))" using u assms(7,8) by (intro take_drop_nth) linarith+
    also have "nat src + nat (u - x1) = nat (src + (u - x1))" using u assms(7) by (simp add: nat_add_distrib)
    finally show ?thesis using u assms(9) by (simp add: overlay_def rect_area_of_def row_rect_def rect_sels)
  qed
  have out: "?s p = s p" if "p \<notin> rect_area_of (row_rect x1 x2 y)" for p using that by (simp add: overlay_def)
  note w = write_row [OF assms(1-6) len xs out]
  have "nat (x1 + y * S) + length ?xs \<le> length d" using w(1,2) len by linarith
  then show ?thesis using w assms(3,7,8) by (simp add: memcpy_from_def)
qed

lemma overlay_rows:
  "fold (\<lambda>y. overlay (R y) img) ys s = overlay (\<Union>y\<in>set ys. R y) img s"
proof (induction ys arbitrary: s)
  case (Cons y ys)
  have "overlay (\<Union>y\<in>set ys. R y) img (overlay (R y) img s) = overlay (R y \<union> (\<Union>y\<in>set ys. R y)) img s"
    by (auto simp: overlay_def fun_eq_iff)
  then show ?case using Cons by simp
qed (simp add: overlay_def)

lemma paint_rows:
  assumes "row_op W H S f D Sr (\<lambda>y. overlay (rect_area_of (row_rect x1 x2 y)) img) {y1..<y2}" "displays W H S d s" "y1 \<le> y2"
    and "\<And>z. D (z + 1) = D z + dstep" "\<And>z. Sr (z + 1) = Sr z + sstep"
  shows "\<exists>d'. row_loop f dstep sstep (nat (y2 - y1)) (D y1) (Sr y1) d = Inr d' \<and> length d' = length d
    \<and> displays W H S d' (overlay (rect_area_of (mkRect x1 y1 x2 y2)) img s)"
proof -
  have "\<forall>i<nat (y2 - y1). y1 + 1 * int i \<in> {y1..<y2}" by auto
  from row_loop_rows [OF assms(1,2) this assms(4,5)] show ?thesis
    using rows_up [OF assms(3), of x1 x2]
    by (simp add: overlay_rows [where R = "\<lambda>y. rect_area_of (row_rect x1 x2 y)"] atLeast0LessThan image_image)
qed

lemma strides_ok:
  assumes "0 \<le> a" "0 \<le> ss" "0 \<le> w" "a + (h - 1) * ss + w \<le> L" "0 \<le> i" "i < (h :: int)"
  shows "0 \<le> a + i * ss" "a + i * ss + w \<le> L"
proof -
  have "i * ss \<le> (h - 1) * ss" using assms by (intro mult_right_mono) auto
  then show "0 \<le> a + i * ss" "a + i * ss + w \<le> L" using assms by auto
qed

text \<open>The picture in a caller's buffer, as it appears when it is drawn at the rectangle.\<close>

definition picture :: "'p list \<Rightarrow> int \<Rightarrow> Rect \<Rightarrow> 'p screen" where
  "picture pixs ss r p = pixs ! nat (fst p - px (rtl r) + (snd p - py (rtl r)) * ss)"

lemma imageRect_draws:
  fixes pb :: "'p PixelBuffer"
  assumes "wf_pb pb" "sane_rect r" "Rect_enclosed_by r (getRect pb)" "ss = (if srcStride = 0 then Rect_width r else srcStride)"
    and "0 \<le> ss" "(Rect_height r - 1) * ss + Rect_width r \<le> int (length pixs)"
  shows "draws pb (imageRect pb r pixs srcStride) (overlay (rect_area_of r) (picture pixs ss r) (pixels pb))"
proof -
  let ?W = "pb_width pb" and ?H = "pb_height pb" and ?S = "pb_stride pb"
  let ?x1 = "px (rtl r)" and ?x2 = "px (rbr r)" and ?y1 = "py (rtl r)" and ?y2 = "py (rbr r)"
  let ?D = "\<lambda>y. ?x1 + y * ?S" and ?Sr = "\<lambda>y. (y - ?y1) * ss"
  have b: "0 \<le> ?x1" "?x1 \<le> ?x2" "?x2 \<le> ?W" "0 \<le> ?y1" "?y1 \<le> ?y2" "?y2 \<le> ?H"
    using assms(2,3) by (auto simp: Rect_enclosed_by_def getRect_def sane_rect_def rect_sels)
  have op: "row_op ?W ?H ?S (memcpy_from pixs (?x2 - ?x1)) ?D ?Sr
      (\<lambda>y. overlay (rect_area_of (row_rect ?x1 ?x2 y)) (picture pixs ss r)) {?y1..<?y2}"
    unfolding row_op_def
  proof (intro ballI allI impI)
    fix y and d :: "'p list" and s assume y: "y \<in> {?y1..<?y2}" and d: "displays ?W ?H ?S d s"
    have "0 \<le> (y - ?y1) * ss" "(y - ?y1) * ss + (?x2 - ?x1) \<le> int (length pixs)"
      using strides_ok [of 0 ss "?x2 - ?x1" "?y2 - ?y1" "int (length pixs)" "y - ?y1"] assms(5,6) b y
      by (simp_all add: rect_sels)
    then show "\<exists>d'. memcpy_from pixs (?x2 - ?x1) (?D y) (?Sr y) d = Inr d' \<and> length d' = length d
        \<and> displays ?W ?H ?S d' (overlay (rect_area_of (row_rect ?x1 ?x2 y)) (picture pixs ss r) s)"
      using paint_row [OF d b(1-3), of y "?Sr y" pixs "picture pixs ss r"] b y by (simp add: picture_def add.commute)
  qed
  have D: "?D (z + 1) = ?D z + ?S" "?Sr (z + 1) = ?Sr z + ss" for z by (simp_all add: algebra_simps)
  have r: "mkRect ?x1 ?y1 ?x2 ?y2 = r" by (simp add: rect_sels)
  obtain d' where d': "row_loop (memcpy_from pixs (?x2 - ?x1)) ?S ss (nat (?y2 - ?y1)) (?D ?y1) (?Sr ?y1) (pb_data pb) = Inr d'"
    "length d' = length (pb_data pb)" "displays ?W ?H ?S d' (overlay (rect_area_of r) (picture pixs ss r) (pixels pb))"
    using paint_rows [OF op wf_displays [OF assms(1)] b(5) D] by (auto simp: r)
  then show ?thesis
    using drawsI [OF assms(1) d'] assms(3,4)
    by (simp add: imageRect_def getBuffer_def Let_def Rect_width_def Rect_height_def)
qed

text \<open>getImage reads the rectangle into a buffer seen as a screen of its own.\<close>

lemma getImage_reads:
  fixes pb :: "'p PixelBuffer"
  assumes "wf_pb pb" "sane_rect r" "Rect_enclosed_by r (getRect pb)" "os = (if outStride = 0 then Rect_width r else outStride)"
    and "Rect_width r \<le> os" "Rect_height r * os \<le> int (length buf)"
  shows "\<exists>d. getImage pb buf r outStride = Inr d \<and> length d = length buf
    \<and> (\<forall>(u, v)\<in>area (Rect_width r) (Rect_height r). pixel_at os d (u, v) = pixels pb (px (rtl r) + u, py (rtl r) + v))"
proof -
  let ?w = "Rect_width r" and ?h = "Rect_height r" and ?S = "pb_stride pb" and ?x1 = "px (rtl r)" and ?y1 = "py (rtl r)"
  let ?D = "\<lambda>y. 0 + y * os" and ?Sr = "\<lambda>y. ?x1 + (?y1 + y) * ?S" and ?img = "\<lambda>(u, v). pixels pb (?x1 + u, ?y1 + v)"
  have b: "0 \<le> ?x1" "0 \<le> ?w" "?x1 + ?w \<le> pb_width pb" "0 \<le> ?y1" "0 \<le> ?h" "?y1 + ?h \<le> pb_height pb"
    using assms(2,3) by (auto simp: Rect_enclosed_by_def getRect_def sane_rect_def rect_sels)
  have S: "pb_width pb \<le> ?S" "pb_height pb * ?S \<le> int (length (pb_data pb))" using assms(1) by (auto simp: wf_pb_def)
  have op: "row_op ?w ?h os (memcpy_from (pb_data pb) (?w - 0)) ?D ?Sr (\<lambda>y. overlay (rect_area_of (row_rect 0 ?w y)) ?img) {0..<?h}"
    unfolding row_op_def
  proof (intro ballI allI impI)
    fix y and d :: "'p list" and s assume y: "y \<in> {0..<?h}" and d: "displays ?w ?h os d s"
    have "(?y1 + y) * ?S + ?S \<le> pb_height pb * ?S" "0 \<le> (?y1 + y) * ?S"
      using mult_right_mono [of "?y1 + y + 1" "pb_height pb" ?S] b y S by (simp_all add: algebra_simps)
    then have "0 \<le> ?Sr y" "?Sr y + (?w - 0) \<le> int (length (pb_data pb))" using b S by linarith+
    then show "\<exists>d'. memcpy_from (pb_data pb) (?w - 0) (?D y) (?Sr y) d = Inr d' \<and> length d' = length d
        \<and> displays ?w ?h os d' (overlay (rect_area_of (row_rect 0 ?w y)) ?img s)"
      using paint_row [OF d, of 0 ?w y "?Sr y" "pb_data pb" ?img] b y
      by (simp add: pixels_def pixel_at_def algebra_simps)
  qed
  have D: "?D (z + 1) = ?D z + os" "?Sr (z + 1) = ?Sr z + ?S" for z by (simp_all add: algebra_simps)
  have "displays ?w ?h os buf (pixel_at os buf)" using assms(5,6) by (simp add: displays_def)
  from paint_rows [OF op this b(5) D] obtain d where
    "row_loop (memcpy_from (pb_data pb) ?w) os ?S (nat ?h) 0 (?x1 + ?y1 * ?S) buf = Inr d" "length d = length buf"
    "displays ?w ?h os d (overlay (rect_area_of (mkRect 0 0 ?w ?h)) ?img (pixel_at os buf))" by auto
  then show ?thesis
    using assms(3,4) by (auto simp: getImage_def getBuffer_def Let_def displays_def overlay_def rect_area_screen)
qed

section \<open>Filling a rectangle\<close>

lemma fill_rows:
  assumes "\<And>u. \<lbrakk>x1 \<le> u; u < x2\<rbrakk> \<Longrightarrow> s (u, y1) = pix" "y1 \<notin> set ys"
  shows "fold (\<lambda>y. copy_area (rect_area_of (row_rect x1 x2 y)) (mkPoint 0 (y - y1))) ys s
    = overlay (\<Union>y\<in>set ys. rect_area_of (row_rect x1 x2 y)) (\<lambda>_. pix) s"
  using assms
proof (induction ys arbitrary: s)
  case (Cons y ys)
  let ?R = "\<lambda>y. rect_area_of (row_rect x1 x2 y)"
  let ?s = "copy_area (?R y) (mkPoint 0 (y - y1)) s"
  have s1: "?s = overlay (?R y) (\<lambda>_. pix) s"
    using Cons.prems(1) by (auto simp: fun_eq_iff copy_area_def overlay_def from_src_def rect_area_of_def row_rect_def rect_sels)
  have "?s (u, y1) = pix" if "x1 \<le> u" "u < x2" for u
    unfolding s1 using Cons.prems that by (simp add: overlay_def rect_area_of_def row_rect_def rect_sels)
  then have "fold (\<lambda>y. copy_area (?R y) (mkPoint 0 (y - y1))) ys ?s = overlay (\<Union>y\<in>set ys. ?R y) (\<lambda>_. pix) ?s"
    using Cons.IH [of ?s] Cons.prems(2) by simp
  also have "\<dots> = overlay (?R y \<union> (\<Union>y\<in>set ys. ?R y)) (\<lambda>_. pix) s" by (auto simp: s1 overlay_def fun_eq_iff)
  finally show ?case by simp
qed (simp add: overlay_def)

lemma fill_one_row:
  assumes "displays W H S d s" "0 \<le> x1" "x1 \<le> x2" "x2 \<le> W" "0 \<le> y" "y < H"
  shows "\<exists>d'. fill_row pix (x2 - x1) (x1 + y * S) src d = Inr d' \<and> length d' = length d
    \<and> displays W H S d' (overlay (rect_area_of (row_rect x1 x2 y)) (\<lambda>_. pix) s)"
  using paint_row [OF assms, of 0 "replicate (nat (x2 - x1)) pix" "\<lambda>_. pix"] assms(3) by (simp add: fill_row_def)

text \<open>The rows below the first one, each a copy of it.\<close>

lemma fill_by_copy:
  fixes d :: "'p list"
  assumes "displays W H S d (overlay (rect_area_of (row_rect x1 x2 y1)) (\<lambda>_. pix) s)"
    and "0 \<le> x1" "x1 \<le> x2" "x2 \<le> W" "0 \<le> y1" "y1 < y2" "y2 \<le> H"
  shows "\<exists>d'. row_loop (\<lambda>dst src. memcpy_within (x2 - x1) dst (x1 + y1 * S)) S S (nat (y2 - y1 - 1))
      (x1 + y1 * S + S) (x1 + y1 * S + S) d = Inr d' \<and> length d' = length d
    \<and> displays W H S d' (overlay (rect_area_of (mkRect x1 y1 x2 y2)) (\<lambda>_. pix) s)"
proof -
  let ?R = "\<lambda>y. rect_area_of (row_rect x1 x2 y)" and ?D = "\<lambda>y. x1 + y * S" and ?w = "x2 - x1"
  let ?s1 = "overlay (?R y1) (\<lambda>_. pix) s"
  let ?f = "\<lambda>dst (src :: int). memcpy_within ?w dst (?D y1) :: 'p list \<Rightarrow> _"
  let ?g = "\<lambda>y (s :: 'p screen). copy_area (?R y) (mkPoint 0 (y - y1)) s"
  let ?ys = "map (\<lambda>i. y1 + 1 + 1 * int i) [0..<nat (y2 - (y1 + 1))]"
  have S: "W \<le> S" using assms(1) by (simp add: displays_def)
  have op: "row_op W H S ?f ?D ?D ?g {y1 + 1..<y2}"
    unfolding row_op_def
  proof (intro ballI allI impI)
    fix y and d :: "'p list" and s assume y: "y \<in> {y1 + 1..<y2}" and d: "displays W H S d s"
    have "memcpy_within ?w (?D y) (?D y1) d = memmove ?w (?D y) (?D y1) d"
      using rows_apart [of ?w S x1 x1 y y1] assms(2-7) S y by (auto simp: memcpy_within_def)
    then show "\<exists>d'. memcpy_within ?w (?D y) (?D y1) d = Inr d' \<and> length d' = length d \<and> displays W H S d' (?g y s)"
      using move_row [OF d assms(2-4), of y "mkPoint 0 (y - y1)"] assms(2-7) y by (simp add: mkPoint_def)
  qed
  have idx: "\<forall>i<nat (y2 - (y1 + 1)). y1 + 1 + 1 * int i \<in> {y1 + 1..<y2}" by auto
  have D: "?D (z + 1) = ?D z + S" for z by (simp add: algebra_simps)
  obtain d' where d': "row_loop ?f S S (nat (y2 - (y1 + 1))) (?D (y1 + 1)) (?D (y1 + 1)) d = Inr d'"
    "length d' = length d" "displays W H S d' (fold ?g ?ys ?s1)"
    using row_loop_rows [OF op assms(1) idx D D] by blast
  have "?s1 (u, y1) = pix" if "x1 \<le> u" "u < x2" for u
    using that by (simp add: overlay_def rect_area_of_def row_rect_def rect_sels)
  then have "fold ?g ?ys ?s1 = overlay (\<Union>y\<in>set ?ys. ?R y) (\<lambda>_. pix) ?s1" by (rule fill_rows) auto
  also have "(\<Union>y\<in>set ?ys. ?R y) = rect_area_of (mkRect x1 (y1 + 1) x2 y2)"
    using rows_up [of "y1 + 1" y2 x1 x2] assms(6) by (simp add: atLeast0LessThan)
  also have "overlay \<dots> (\<lambda>_. pix) ?s1 = overlay (rect_area_of (mkRect x1 y1 x2 y2)) (\<lambda>_. pix) s"
    using assms(6) by (auto simp: overlay_def fun_eq_iff rect_area_of_def row_rect_def rect_sels)
  finally show ?thesis using d' by (simp add: algebra_simps)
qed

lemma fillRect_draws:
  assumes "wf_pb pb" "sane_rect r" "Rect_enclosed_by r (getRect pb)"
  shows "draws pb (fillRect b pb r pix) (overlay (rect_area_of r) (\<lambda>_. pix) (pixels pb))"
proof (cases "py (rtl r) = py (rbr r)")
  case True
  then have "rect_area_of r = {}" by (simp add: rect_area_empty Rect_is_empty_def)
  then show ?thesis
    using True assms by (simp add: fillRect_def getBuffer_def draws_def overlay_def Rect_height_def Let_def)
next
  case False
  let ?W = "pb_width pb" and ?H = "pb_height pb" and ?S = "pb_stride pb"
  let ?x1 = "px (rtl r)" and ?x2 = "px (rbr r)" and ?y1 = "py (rtl r)" and ?y2 = "py (rbr r)"
  let ?D = "\<lambda>y. ?x1 + y * ?S" and ?w = "?x2 - ?x1"
  have bd: "0 \<le> ?x1" "?x1 \<le> ?x2" "?x2 \<le> ?W" "0 \<le> ?y1" "?y1 < ?y2" "?y2 \<le> ?H"
    using assms False by (auto simp: Rect_enclosed_by_def getRect_def sane_rect_def rect_sels)
  have r: "mkRect ?x1 ?y1 ?x2 ?y2 = r" by (simp add: rect_sels)
  have D: "?D (z + 1) = ?D z + ?S" for z by (simp add: algebra_simps)
  note w = wf_displays [OF assms(1)] and unf = fillRect_def getBuffer_def counted_def Let_def Rect_width_def Rect_height_def
  show ?thesis
  proof (cases "b = 1")
    case True
    have "row_op ?W ?H ?S (fill_row pix ?w) ?D ?D (\<lambda>y. overlay (rect_area_of (row_rect ?x1 ?x2 y)) (\<lambda>_. pix)) {?y1..<?y2}"
      unfolding row_op_def by (intro ballI allI impI fill_one_row [OF _ bd(1-3)]) (use bd in simp_all)
    from paint_rows [OF this w less_imp_le [OF bd(5)] D D] obtain d' where
      d': "row_loop (fill_row pix ?w) ?S ?S (nat (?y2 - ?y1)) (?D ?y1) (?D ?y1) (pb_data pb) = Inr d'"
      "length d' = length (pb_data pb)" "displays ?W ?H ?S d' (overlay (rect_area_of r) (\<lambda>_. pix) (pixels pb))" by (auto simp: r)
    then show ?thesis using drawsI [OF assms(1) d'] True False assms(3) bd(5) by (simp add: unf)
  next
    case b: False
    obtain d1 where d1: "fill_row pix ?w (?D ?y1) (?D ?y1) (pb_data pb) = Inr d1" "length d1 = length (pb_data pb)"
      "displays ?W ?H ?S d1 (overlay (rect_area_of (row_rect ?x1 ?x2 ?y1)) (\<lambda>_. pix) (pixels pb))"
      using fill_one_row [OF w bd(1-4)] bd(5,6) by fastforce
    from fill_by_copy [OF d1(3) bd] obtain d' where
      d': "row_loop (\<lambda>dst src. memcpy_within ?w dst (?D ?y1)) ?S ?S (nat (?y2 - ?y1 - 1)) (?D ?y1 + ?S) (?D ?y1 + ?S) d1 = Inr d'"
      "length d' = length d1" "displays ?W ?H ?S d' (overlay (rect_area_of r) (\<lambda>_. pix) (pixels pb))" by (auto simp: r)
    then show ?thesis
      using drawsI [OF assms(1) d'(1)] d1(1,2) b False assms(3) bd(5) by (simp add: unf)
  qed
qed

section \<open>Managed buffers\<close>

text \<open>
  ManagedPixelBuffer allocates when the size grows; the contents of a new buffer are not
  initialised (\<open>junk\<close>), and a smaller size keeps the old block.
\<close>

definition checkDataSize :: "'p \<Rightarrow> 'p PixelBuffer \<Rightarrow> 'p PixelBuffer" where
  "checkDataSize junk pb =
     (if int (length (pb_data pb)) < pb_width pb * pb_height pb
      then pb\<lparr>pb_data := replicate (nat (pb_width pb * pb_height pb)) junk\<rparr> else pb)"

definition setSize :: "'p \<Rightarrow> 'p PixelBuffer \<Rightarrow> int \<Rightarrow> int \<Rightarrow> 'p PixelBuffer" where
  "setSize junk pb w h = checkDataSize junk (pb\<lparr>pb_width := w, pb_height := h, pb_stride := w\<rparr>)"

lemma setSize_wf: "\<lbrakk>0 \<le> w; 0 \<le> h\<rbrakk> \<Longrightarrow> wf_pb (setSize junk pb w h)"
  by (auto simp: setSize_def checkDataSize_def wf_pb_def mult.commute)

end
