(* ===== verification/RfbSolid.thy ===== *)
theory RfbSolid
  imports PixelBuffer
begin

text \<open>
  The search for solid rectangles in \<^verbatim>\<open>src/common/rfb/EncodeManager.cxx\<close>: writeSolidRects,
  findSolidRect, extendSolidAreaByBlock and extendSolidAreaByPixel, and checkSolidTile of
  \<^verbatim>\<open>EncodeManagerBPP.cxx\<close>. The solid rectangles found are sent at once and taken out of the
  changed region. Here they are collected in a list with their colour; how the encoder packs
  one is not part of the search.
\<close>

section \<open>The code\<close>

definition SolidSearchBlock :: int where
  "SolidSearchBlock = 16"

definition SolidBlockMinArea :: int where
  "SolidBlockMinArea = 2048"

text \<open>checkSolidTile: \<open>buf\<close> is the offset of the pixel the two loops are at.\<close>

fun solid_run :: "'p list \<Rightarrow> 'p \<Rightarrow> int \<Rightarrow> nat \<Rightarrow> bool" where
  "solid_run d c buf 0 = True"
| "solid_run d c buf (Suc w) = (if d ! nat buf \<noteq> c then False else solid_run d c (buf + 1) w)"

fun solid_rows :: "'p list \<Rightarrow> 'p \<Rightarrow> int \<Rightarrow> int \<Rightarrow> int \<Rightarrow> nat \<Rightarrow> bool" where
  "solid_rows d c w pd buf 0 = True"
| "solid_rows d c w pd buf (Suc h) =
     (if \<not> solid_run d c buf (nat w) then False else solid_rows d c w pd (buf + w + pd) h)"

definition checkSolidTile :: "'p PixelBuffer \<Rightarrow> 'p \<Rightarrow> Rect \<Rightarrow> pb_error + bool" where
  "checkSolidTile pb c r =
     (case getBuffer pb r of Inl e \<Rightarrow> Inl e
      | Inr buf \<Rightarrow> counted (Rect_width r) (\<lambda>_. counted (Rect_height r) (\<lambda>h.
          Inr (solid_rows (pb_data pb) c (Rect_width r) (pb_stride pb - Rect_width r) buf h))))"

definition getPixel :: "'p PixelBuffer \<Rightarrow> int \<Rightarrow> int \<Rightarrow> pb_error + 'p" where
  "getPixel pb x y =
     (case getBuffer pb (mkRect x y (x + 1) (y + 1)) of Inl e \<Rightarrow> Inl e | Inr off \<Rightarrow> Inr (pb_data pb ! nat off))"

text \<open>The loop over dx in extendSolidAreaByBlock; \<open>xe\<close> is \<^verbatim>\<open>r.tl.x + w_prev\<close>.\<close>

function extend_x :: "(Rect \<Rightarrow> pb_error + bool) \<Rightarrow> int \<Rightarrow> int \<Rightarrow> int \<Rightarrow> int \<Rightarrow> pb_error + int" where
  "extend_x chk xe dx dy dh =
     (if dx < xe then
        let dw = (if dx + SolidSearchBlock > xe then xe - dx else SolidSearchBlock)
        in case chk (setXYWH dx dy dw dh) of Inl e \<Rightarrow> Inl e
           | Inr ok \<Rightarrow> if \<not> ok then Inr dx else extend_x chk xe (dx + dw) dy dh
      else Inr dx)"
  by pat_completeness auto
termination
  by (relation "measure (\<lambda>(chk, xe, dx, dy, dh). nat (xe - dx))") (auto simp: SolidSearchBlock_def)

declare extend_x.simps [simp del]

text \<open>The height of a block at dy and the width of the first block of a band, cut to what is left.\<close>

definition block_height :: "Rect \<Rightarrow> int \<Rightarrow> int" where
  "block_height r dy = (if dy + SolidSearchBlock > py (rbr r) then py (rbr r) - dy else SolidSearchBlock)"

definition block_width :: "int \<Rightarrow> int" where
  "block_width w_prev = (if SolidSearchBlock > w_prev then w_prev else SolidSearchBlock)"

text \<open>The loop over dy; it returns w\_best and h\_best.\<close>

function extend_y :: "(Rect \<Rightarrow> pb_error + bool) \<Rightarrow> Rect \<Rightarrow> int \<Rightarrow> int \<Rightarrow> int \<Rightarrow> int \<Rightarrow> pb_error + int \<times> int" where
  "extend_y chk r dy w_prev w_best h_best =
     (if dy < py (rbr r) then
        case chk (setXYWH (px (rtl r)) dy (block_width w_prev) (block_height r dy)) of Inl e \<Rightarrow> Inl e
        | Inr ok \<Rightarrow>
            if \<not> ok then Inr (w_best, h_best)
            else (case extend_x chk (px (rtl r) + w_prev) (px (rtl r) + block_width w_prev) dy (block_height r dy) of Inl e \<Rightarrow> Inl e
              | Inr dx \<Rightarrow>
                  let w = dx - px (rtl r); h = dy + block_height r dy - py (rtl r)
                  in if w * h > w_best * h_best
                     then extend_y chk r (dy + SolidSearchBlock) w w h
                     else extend_y chk r (dy + SolidSearchBlock) w w_best h_best)
      else Inr (w_best, h_best))"
  by pat_completeness auto
termination
  by (relation "measure (\<lambda>(chk, r, dy, wp, w, h). nat (py (rbr r) - dy))") (auto simp: SolidSearchBlock_def)

declare extend_y.simps [simp del]

definition extendSolidAreaByBlock :: "(Rect \<Rightarrow> pb_error + bool) \<Rightarrow> Rect \<Rightarrow> pb_error + Rect" where
  "extendSolidAreaByBlock chk r =
     (case extend_y chk r (py (rtl r)) (Rect_width r) 0 0 of Inl e \<Rightarrow> Inl e
      | Inr (w, h) \<Rightarrow> Inr (setXYWH (px (rtl r)) (py (rtl r)) w h))"

text \<open>
  The four loops of extendSolidAreaByPixel: \<open>line z\<close> is the row or column at \<open>z\<close>, and the loop
  runs while it is inside the rectangle (\<open>n\<close> lines) and solid.
\<close>

fun extend_lines :: "(int \<Rightarrow> pb_error + bool) \<Rightarrow> int \<Rightarrow> int \<Rightarrow> nat \<Rightarrow> pb_error + int" where
  "extend_lines line st z 0 = Inr z"
| "extend_lines line st z (Suc n) =
     (case line z of Inl e \<Rightarrow> Inl e | Inr ok \<Rightarrow> if \<not> ok then Inr z else extend_lines line st (z + st) n)"

definition extendSolidAreaByPixel :: "(Rect \<Rightarrow> pb_error + bool) \<Rightarrow> Rect \<Rightarrow> Rect \<Rightarrow> pb_error + Rect" where
  "extendSolidAreaByPixel chk r sr =
     (let x1 = px (rtl sr); w = Rect_width sr in
      case extend_lines (\<lambda>cy. chk (setXYWH x1 cy w 1)) (- 1) (py (rtl sr) - 1) (nat (py (rtl sr) - py (rtl r))) of
        Inl e \<Rightarrow> Inl e
      | Inr cy \<Rightarrow>
          (case extend_lines (\<lambda>cy. chk (setXYWH x1 cy w 1)) 1 (py (rbr sr)) (nat (py (rbr r) - py (rbr sr))) of
             Inl e \<Rightarrow> Inl e
           | Inr by \<Rightarrow>
               let ty = cy + 1; h = by - ty in
               case extend_lines (\<lambda>cx. chk (setXYWH cx ty 1 h)) (- 1) (x1 - 1) (nat (x1 - px (rtl r))) of
                 Inl e \<Rightarrow> Inl e
               | Inr cx \<Rightarrow>
                   (case extend_lines (\<lambda>cx. chk (setXYWH cx ty 1 h)) 1 (px (rbr sr)) (nat (px (rbr r) - px (rbr sr))) of
                      Inl e \<Rightarrow> Inl e
                    | Inr bx \<Rightarrow> Inr (mkRect (cx + 1) ty bx by))))"

text \<open>
  The search of findSolidRect over the blocks of a rectangle: the first solid block that can
  be extended to the whole rectangle or to a large enough one.
\<close>

definition try_block :: "'p PixelBuffer \<Rightarrow> Rect \<Rightarrow> int \<Rightarrow> int \<Rightarrow> int \<Rightarrow> int \<Rightarrow> pb_error + ('p \<times> Rect) option" where
  "try_block pb rect dx dy dw dh =
     (case getPixel pb dx dy of Inl e \<Rightarrow> Inl e
      | Inr c \<Rightarrow>
          (case checkSolidTile pb c (setXYWH dx dy dw dh) of Inl e \<Rightarrow> Inl e
           | Inr ok \<Rightarrow>
               if \<not> ok then Inr None
               else (case extendSolidAreaByBlock (checkSolidTile pb c)
                       (setXYWH dx dy (px (rbr rect) - dx) (py (rbr rect) - dy)) of Inl e \<Rightarrow> Inl e
                 | Inr erb \<Rightarrow>
                     if erb = rect then Inr (Some (c, erb))
                     else if Rect_area erb < SolidBlockMinArea then Inr None
                     else (case extendSolidAreaByPixel (checkSolidTile pb c) rect erb of Inl e \<Rightarrow> Inl e
                       | Inr erp \<Rightarrow> Inr (Some (c, erp))))))"

function search_x :: "'p PixelBuffer \<Rightarrow> Rect \<Rightarrow> int \<Rightarrow> int \<Rightarrow> int \<Rightarrow> pb_error + ('p \<times> Rect) option" where
  "search_x pb rect dy dh dx =
     (if dx < px (rbr rect) then
        let dw = (if dx + SolidSearchBlock > px (rbr rect) then px (rbr rect) - dx else SolidSearchBlock)
        in case try_block pb rect dx dy dw dh of Inl e \<Rightarrow> Inl e
           | Inr None \<Rightarrow> search_x pb rect dy dh (dx + SolidSearchBlock)
           | Inr (Some a) \<Rightarrow> Inr (Some a)
      else Inr None)"
  by pat_completeness auto
termination
  by (relation "measure (\<lambda>(pb, rect, dy, dh, dx). nat (px (rbr rect) - dx))") (auto simp: SolidSearchBlock_def)

declare search_x.simps [simp del]

function search_y :: "'p PixelBuffer \<Rightarrow> Rect \<Rightarrow> int \<Rightarrow> pb_error + ('p \<times> Rect) option" where
  "search_y pb rect dy =
     (if dy < py (rbr rect) then
        let dh = (if dy + SolidSearchBlock > py (rbr rect) then py (rbr rect) - dy else SolidSearchBlock)
        in case search_x pb rect dy dh (px (rtl rect)) of Inl e \<Rightarrow> Inl e
           | Inr None \<Rightarrow> search_y pb rect (dy + SolidSearchBlock)
           | Inr (Some a) \<Rightarrow> Inr (Some a)
      else Inr None)"
  by pat_completeness auto
termination
  by (relation "measure (\<lambda>(pb, rect, dy). nat (py (rbr rect) - dy))") (auto simp: SolidSearchBlock_def)

declare search_y.simps [simp del]

text \<open>
  findSolidRect calls itself on what is left of the rectangle; the first argument bounds the
  depth. A solid rectangle is sent and taken out of the changed region.
\<close>

type_synonym 'p solids = "REGION \<times> (Rect \<times> 'p) list"

definition if_rect :: "bool \<Rightarrow> (Rect \<Rightarrow> 'p solids \<Rightarrow> (pb_error + 'p solids) option) \<Rightarrow> Rect
    \<Rightarrow> (pb_error + 'p solids) option \<Rightarrow> (pb_error + 'p solids) option" where
  "if_rect b f sr st = (case st of None \<Rightarrow> None | Some (Inl e) \<Rightarrow> Some (Inl e)
     | Some (Inr s) \<Rightarrow> if b then f sr s else Some (Inr s))"

fun findSolidRect :: "nat \<Rightarrow> 'p PixelBuffer \<Rightarrow> Rect \<Rightarrow> 'p solids \<Rightarrow> (pb_error + 'p solids) option" where
  "findSolidRect 0 pb rect st = None"
| "findSolidRect (Suc fuel) pb rect st =
     (case search_y pb rect (py (rtl rect)) of
        Inl e \<Rightarrow> Some (Inl e)
      | Inr None \<Rightarrow> Some (Inr st)
      | Inr (Some (c, erp)) \<Rightarrow>
          let st1 = (Region_assign_subtract (fst st) (Region_of_rect erp), snd st @ [(erp, c)]);
              left = setXYWH (px (rtl rect)) (py (rtl erp) + SolidSearchBlock)
                       (px (rtl erp) - px (rtl rect)) (Rect_height erp - SolidSearchBlock);
              right = setXYWH (px (rbr erp)) (py (rtl erp)) (px (rbr rect) - px (rbr erp)) (Rect_height erp);
              below = setXYWH (px (rtl rect)) (py (rbr erp)) (Rect_width rect) (py (rbr rect) - py (rbr erp))
          in if_rect (py (rbr erp) \<noteq> py (rbr rect)) (findSolidRect fuel pb) below
               (if_rect (px (rbr erp) \<noteq> px (rbr rect)) (findSolidRect fuel pb) right
                 (if_rect (px (rtl erp) \<noteq> px (rtl rect) \<and> Rect_height erp > SolidSearchBlock)
                   (findSolidRect fuel pb) left (Some (Inr st1)))))"

definition writeSolidRects :: "nat \<Rightarrow> 'p PixelBuffer \<Rightarrow> REGION \<Rightarrow> (pb_error + 'p solids) option" where
  "writeSolidRects fuel pb ch =
     fold (\<lambda>r st. if_rect True (findSolidRect fuel pb) r st) (get_rects ch True True) (Some (Inr (ch, [])))"

end
