(* ===== verification/RfbSolidProps.thy ===== *)
theory RfbSolidProps
  imports RfbSolid
begin

text \<open>
  The solid rectangles that are found are solid, disjoint, and inside the changed region's
  rectangle; the search ends without an error.
\<close>

section \<open>Checking a tile\<close>

lemma mkRect_sel:
  "px (rtl (mkRect a b c d)) = a" "py (rtl (mkRect a b c d)) = b" "px (rbr (mkRect a b c d)) = c" "py (rbr (mkRect a b c d)) = d"
  "Rect_width (mkRect a b c d) = c - a" "Rect_height (mkRect a b c d) = d - b"
  by (simp_all add: rect_sels)

definition solid_box :: "'p screen \<Rightarrow> 'p \<Rightarrow> int \<Rightarrow> int \<Rightarrow> int \<Rightarrow> int \<Rightarrow> bool" where
  "solid_box s c x1 y1 x2 y2 \<longleftrightarrow> (\<forall>x y. x1 \<le> x \<and> x < x2 \<and> y1 \<le> y \<and> y < y2 \<longrightarrow> s (x, y) = c)"

definition inside :: "Rect \<Rightarrow> int \<Rightarrow> int \<Rightarrow> int \<Rightarrow> int \<Rightarrow> bool" where
  "inside R x1 y1 x2 y2 \<longleftrightarrow> px (rtl R) \<le> x1 \<and> x1 \<le> x2 \<and> x2 \<le> px (rbr R) \<and> py (rtl R) \<le> y1 \<and> y1 \<le> y2 \<and> y2 \<le> py (rbr R)"

lemma solid_run_iff: "solid_run d c buf n \<longleftrightarrow> (\<forall>i<n. d ! nat (buf + int i) = c)"
  by (induction n arbitrary: buf) (auto simp: All_less_Suc2 algebra_simps)

lemma solid_rows_iff:
  "solid_rows d c w pd buf h \<longleftrightarrow> (\<forall>j<h. \<forall>i<nat w. d ! nat (buf + int j * (w + pd) + int i) = c)"
proof (induction h arbitrary: buf)
  case (Suc h)
  have "buf + w + pd + int j * (w + pd) = buf + int (Suc j) * (w + pd)" for j by (simp add: algebra_simps)
  then show ?case using Suc.IH [of "buf + w + pd"] by (simp only: solid_rows.simps solid_run_iff All_less_Suc2) auto
qed simp

lemma checkSolidTile_iff:
  assumes "wf_pb pb" "inside (getRect pb) x1 y1 x2 y2"
  shows "checkSolidTile pb c (mkRect x1 y1 x2 y2) = Inr (solid_box (pixels pb) c x1 y1 x2 y2)"
proof -
  let ?S = "pb_stride pb"
  have ix: "x1 + y1 * ?S + int j * ?S + int i = x1 + int i + (y1 + int j) * ?S" for i j by (simp add: algebra_simps)
  have "(\<forall>j<nat (y2 - y1). \<forall>i<nat (x2 - x1). pixels pb (x1 + int i, y1 + int j) = c) \<longleftrightarrow>
      solid_box (pixels pb) c x1 y1 x2 y2" (is "?L \<longleftrightarrow> ?R")
  proof
    assume l: ?L
    have "pixels pb (x, y) = c" if "x1 \<le> x \<and> x < x2 \<and> y1 \<le> y \<and> y < y2" for x y
      using l [rule_format, of "nat (y - y1)" "nat (x - x1)"] that by simp
    then show ?R by (simp add: solid_box_def)
  next
    assume ?R
    then show ?L by (simp add: solid_box_def zless_nat_eq_int_zless algebra_simps)
  qed
  moreover have "Rect_enclosed_by (mkRect x1 y1 x2 y2) (getRect pb)" "x1 \<le> x2" "y1 \<le> y2"
    using assms(2) by (auto simp: inside_def Rect_enclosed_by_def getRect_def rect_sels)
  ultimately show ?thesis
    by (simp add: checkSolidTile_def getBuffer_def counted_def solid_rows_iff rect_sels ix pixels_def pixel_at_def)
qed

text \<open>A check that is right on the rectangles inside \<open>R\<close>.\<close>

definition checks :: "Rect \<Rightarrow> (Rect \<Rightarrow> pb_error + bool) \<Rightarrow> 'p screen \<Rightarrow> 'p \<Rightarrow> bool" where
  "checks R chk s c \<longleftrightarrow>
     (\<forall>x1 y1 x2 y2. inside R x1 y1 x2 y2 \<longrightarrow> chk (mkRect x1 y1 x2 y2) = Inr (solid_box s c x1 y1 x2 y2))"

lemma checksD: "\<lbrakk>checks R chk s c; inside R x y (x + w) (y + h)\<rbrakk> \<Longrightarrow> chk (setXYWH x y w h) = Inr (solid_box s c x y (x + w) (y + h))"
  by (simp add: checks_def setXYWH_def)

section \<open>Extending by blocks\<close>

lemma extend_x_solid:
  assumes "checks R chk s c" "inside R dx dy xe (dy + dh)"
  shows "\<exists>x'. extend_x chk xe dx dy dh = Inr x' \<and> dx \<le> x' \<and> x' \<le> xe \<and> solid_box s c dx dy x' (dy + dh)"
  using assms
proof (induction chk xe dx dy dh rule: extend_x.induct)
  case (1 chk xe dx dy dh)
  show ?case
  proof (cases "dx < xe")
    case False
    then show ?thesis using "1.prems" by (subst extend_x.simps) (auto simp: solid_box_def inside_def)
  next
    case True
    define dw where "dw = (if dx + SolidSearchBlock > xe then xe - dx else SolidSearchBlock)"
    have dw: "0 < dw" "dx + dw \<le> xe" using True by (auto simp: dw_def SolidSearchBlock_def)
    have chk: "chk (setXYWH dx dy dw dh) = Inr (solid_box s c dx dy (dx + dw) (dy + dh))"
      by (rule checksD [OF "1.prems"(1)]) (use "1.prems"(2) dw in \<open>auto simp: inside_def\<close>)
    show ?thesis
    proof (cases "solid_box s c dx dy (dx + dw) (dy + dh)")
      case False
      then show ?thesis
        using True chk by (subst extend_x.simps) (auto simp: Let_def dw_def [symmetric] solid_box_def)
    next
      case solid: True
      have "inside R (dx + dw) dy xe (dy + dh)" using "1.prems"(2) dw by (auto simp: inside_def)
      from "1.IH" [OF True dw_def chk _ "1.prems"(1) this] solid
      obtain x' where x': "extend_x chk xe (dx + dw) dy dh = Inr x'" "dx + dw \<le> x'" "x' \<le> xe"
        "solid_box s c (dx + dw) dy x' (dy + dh)" by auto
      have "solid_box s c dx dy x' (dy + dh)" using solid x'(4) unfolding solid_box_def by (metis not_le)
      then show ?thesis
        using True chk solid x' dw by (subst extend_x.simps) (auto simp: Let_def dw_def [symmetric])
    qed
  qed
qed

lemma solid_join_y: "\<lbrakk>solid_box s c x1 y1 x2 y2; solid_box s c x1 y2 x2 y3\<rbrakk> \<Longrightarrow> solid_box s c x1 y1 x2 y3"
  unfolding solid_box_def by (metis not_le)

lemma solid_join_x: "\<lbrakk>solid_box s c x1 y1 x2 y2; solid_box s c x2 y1 x3 y2\<rbrakk> \<Longrightarrow> solid_box s c x1 y1 x3 y2"
  unfolding solid_box_def by (metis not_le)

lemma solid_sub: "\<lbrakk>solid_box s c x1 y1 x2 y2; x1 \<le> a1; a2 \<le> x2; y1 \<le> b1; b2 \<le> y2\<rbrakk> \<Longrightarrow> solid_box s c a1 b1 a2 b2"
  by (auto simp: solid_box_def)

text \<open>The best rectangle so far, from the corner of \<open>r\<close>.\<close>

definition best_ok :: "Rect \<Rightarrow> 'p screen \<Rightarrow> 'p \<Rightarrow> int \<Rightarrow> int \<Rightarrow> bool" where
  "best_ok r s c w h \<longleftrightarrow> 0 \<le> w \<and> 0 \<le> h \<and> w \<le> Rect_width r \<and> h \<le> Rect_height r
     \<and> solid_box s c (px (rtl r)) (py (rtl r)) (px (rtl r) + w) (py (rtl r) + h)"

text \<open>One band of blocks, below a solid rectangle that ends at dy.\<close>

lemma extend_band:
  assumes "checks R chk s c" "inside R (px (rtl r)) (py (rtl r)) (px (rbr r)) (py (rbr r))"
    and "py (rtl r) \<le> dy" "dy < py (rbr r)" "0 < w_prev" "w_prev \<le> Rect_width r"
    and "solid_box s c (px (rtl r)) (py (rtl r)) (px (rtl r) + w_prev) dy"
  shows "chk (setXYWH (px (rtl r)) dy (block_width w_prev) (block_height r dy))
      = Inr (solid_box s c (px (rtl r)) dy (px (rtl r) + block_width w_prev) (dy + block_height r dy))"
    and "solid_box s c (px (rtl r)) dy (px (rtl r) + block_width w_prev) (dy + block_height r dy) \<Longrightarrow>
      \<exists>w. extend_x chk (px (rtl r) + w_prev) (px (rtl r) + block_width w_prev) dy (block_height r dy) = Inr (px (rtl r) + w)
        \<and> 0 < w \<and> w \<le> w_prev \<and> best_ok r s c w (dy + block_height r dy - py (rtl r))"
proof -
  let ?x = "px (rtl r)" and ?y = "py (rtl r)" and ?dw = "block_width w_prev" and ?dh = "block_height r dy"
  have d: "0 < ?dh" "dy + ?dh \<le> py (rbr r)" "0 < ?dw" "?dw \<le> w_prev"
    using assms(4,5) by (auto simp: block_height_def block_width_def SolidSearchBlock_def)
  have wr: "?x + w_prev \<le> px (rbr r)" using assms(6) by (simp add: Rect_width_def)
  show "chk (setXYWH ?x dy ?dw ?dh) = Inr (solid_box s c ?x dy (?x + ?dw) (dy + ?dh))"
    by (rule checksD [OF assms(1)]) (use assms(2,3) d wr in \<open>auto simp: inside_def\<close>)
  assume solid: "solid_box s c ?x dy (?x + ?dw) (dy + ?dh)"
  have "inside R (?x + ?dw) dy (?x + w_prev) (dy + ?dh)" using assms(2,3) d wr by (auto simp: inside_def)
  from extend_x_solid [OF assms(1) this] obtain dx where dx: "extend_x chk (?x + w_prev) (?x + ?dw) dy ?dh = Inr dx"
    "?x + ?dw \<le> dx" "dx \<le> ?x + w_prev" "solid_box s c (?x + ?dw) dy dx (dy + ?dh)" by blast
  have "solid_box s c ?x ?y dx dy" by (rule solid_sub [OF assms(7)]) (use dx in auto)
  from solid_join_y [OF this solid_join_x [OF solid dx(4)]] have "best_ok r s c (dx - ?x) (dy + ?dh - ?y)"
    using dx d assms(3) wr by (auto simp: best_ok_def Rect_height_def Rect_width_def)
  then show "\<exists>w. extend_x chk (?x + w_prev) (?x + ?dw) dy ?dh = Inr (?x + w) \<and> 0 < w \<and> w \<le> w_prev
      \<and> best_ok r s c w (dy + ?dh - ?y)"
    using dx d by (intro exI [of _ "dx - ?x"]) auto
qed

lemma extend_y_solid:
  assumes "checks R chk s c" "inside R (px (rtl r)) (py (rtl r)) (px (rbr r)) (py (rbr r))"
    and "py (rtl r) \<le> dy" "0 < w_prev" "w_prev \<le> Rect_width r" "best_ok r s c w_best h_best"
    and "dy < py (rbr r) \<longrightarrow> solid_box s c (px (rtl r)) (py (rtl r)) (px (rtl r) + w_prev) dy"
  shows "\<exists>w h. extend_y chk r dy w_prev w_best h_best = Inr (w, h) \<and> best_ok r s c w h \<and> w_best * h_best \<le> w * h"
  using assms(3-7)
proof (induction "nat (py (rbr r) - dy)" arbitrary: dy w_prev w_best h_best rule: less_induct)
  case less
  let ?x = "px (rtl r)" and ?y = "py (rtl r)" and ?dh = "block_height r dy"
  show ?case
  proof (cases "dy < py (rbr r) \<and> solid_box s c ?x dy (?x + block_width w_prev) (dy + ?dh)")
    case False
    then show ?thesis
      using less.prems extend_band(1) [OF assms(1,2) less.prems(1) _ less.prems(2,3)]
      by (subst extend_y.simps) auto
  next
    case True
    note band = extend_band [OF assms(1,2) less.prems(1) _ less.prems(2,3)]
    obtain w where w: "extend_x chk (?x + w_prev) (?x + block_width w_prev) dy ?dh = Inr (?x + w)" "0 < w" "w \<le> w_prev"
      "best_ok r s c w (dy + ?dh - ?y)" using band(2) True less.prems(5) by blast
    have "dy + SolidSearchBlock < py (rbr r) \<longrightarrow> solid_box s c ?x ?y (?x + w) (dy + SolidSearchBlock)"
      using w(4) by (auto simp: best_ok_def block_height_def split: if_splits)
    moreover have "nat (py (rbr r) - (dy + SolidSearchBlock)) < nat (py (rbr r) - dy)" "?y \<le> dy + SolidSearchBlock" "w \<le> Rect_width r"
      using True w(3) less.prems(1,3) by (auto simp: SolidSearchBlock_def)
    ultimately have ih: "\<exists>w' h'. extend_y chk r (dy + SolidSearchBlock) w wb hb = Inr (w', h') \<and> best_ok r s c w' h' \<and> wb * hb \<le> w' * h'"
      if "best_ok r s c wb hb" for wb hb using less.hyps w(2) that by blast
    show ?thesis
      using ih [OF w(4)] ih [OF less.prems(4)] True band(1) less.prems(5) w(1)
      by (subst extend_y.simps) (force simp: Let_def)
  qed
qed

text \<open>The rectangle found by blocks: solid, inside, at the corner, and not empty if its first block is solid.\<close>

lemma extendSolidAreaByBlock_solid:
  assumes "checks R chk s c" "inside R x y x2 y2" "x < x2" "y < y2"
    and "solid_box s c x y (x + block_width (x2 - x)) (y + block_height (mkRect x y x2 y2) y)"
  shows "\<exists>w h. extendSolidAreaByBlock chk (setXYWH x y (x2 - x) (y2 - y)) = Inr (setXYWH x y w h)
    \<and> 0 < w \<and> 0 < h \<and> x + w \<le> x2 \<and> y + h \<le> y2 \<and> solid_box s c x y (x + w) (y + h)"
proof -
  let ?r = "mkRect x y x2 y2" and ?w = "x2 - x"
  have r: "px (rtl ?r) = x" "py (rtl ?r) = y" "px (rbr ?r) = x2" "py (rbr ?r) = y2" "Rect_width ?r = ?w" "Rect_height ?r = y2 - y"
    "setXYWH x y (x2 - x) (y2 - y) = ?r" by (simp_all add: rect_sels)
  have e: "solid_box s c x y (x + ?w) y" by (auto simp: solid_box_def)
  obtain w1 where w1: "extend_x chk (x + ?w) (x + block_width ?w) y (block_height ?r y) = Inr (x + w1)" "0 < w1" "w1 \<le> ?w"
    "best_ok ?r s c w1 (y + block_height ?r y - y)"
    using extend_band(2) [OF assms(1), of ?r y ?w] assms e by (auto simp: r)
  have h1: "0 < block_height ?r y" using assms(4) by (auto simp: block_height_def SolidSearchBlock_def r)
  have "dy < y2 \<longrightarrow> solid_box s c x y (x + w1) dy" if "dy = y + SolidSearchBlock" for dy
    using w1(4) that by (auto simp: best_ok_def block_height_def r split: if_splits)
  then obtain w h where wh: "extend_y chk ?r (y + SolidSearchBlock) w1 w1 (block_height ?r y) = Inr (w, h)" "best_ok ?r s c w h"
    "w1 * block_height ?r y \<le> w * h"
    using extend_y_solid [OF assms(1), of ?r "y + SolidSearchBlock" w1 w1 "block_height ?r y"] assms(2) w1
    by (auto simp: r SolidSearchBlock_def)
  have pos: "0 < w1 * block_height ?r y" using w1(2) h1 by simp
  then have "0 < w * h" using wh(3) by linarith
  then have "0 < w \<and> 0 < h" using wh(2) by (auto simp: best_ok_def zero_less_mult_iff)
  moreover have "extend_y chk ?r y ?w 0 0 = Inr (w, h)"
    using extend_band(1) [OF assms(1), of ?r y ?w] assms e w1(1) wh(1) pos
    by (subst extend_y.simps) (simp add: Let_def r)
  ultimately show ?thesis
    using wh(2) by (intro exI [of _ w] exI [of _ h]) (auto simp: extendSolidAreaByBlock_def r best_ok_def)
qed

section \<open>Extending by pixels\<close>

lemma extend_lines_solid:
  assumes "\<And>i. i < n \<Longrightarrow> line (z + st * int i) = Inr (P (z + st * int i))"
  shows "\<exists>k\<le>n. extend_lines line st z n = Inr (z + st * int k) \<and> (\<forall>i<k. P (z + st * int i))"
  using assms
proof (induction n arbitrary: z)
  case (Suc n)
  have l: "line z = Inr (P z)" using Suc.prems [of 0] by simp
  have s: "z + st + st * int i = z + st * int (Suc i)" for i by (simp add: algebra_simps)
  show ?case
  proof (cases "P z")
    case True
    have "line (z + st + st * int i) = Inr (P (z + st + st * int i))" if "i < n" for i
      unfolding s using Suc.prems [of "Suc i"] that by simp
    from Suc.IH [OF this] obtain k where k: "k \<le> n" "extend_lines line st (z + st) n = Inr (z + st * int (Suc k))"
      "\<forall>i<k. P (z + st * int (Suc i))" unfolding s by blast
    then have "\<forall>i<Suc k. P (z + st * int i)" using True by (simp add: All_less_Suc2 del: of_nat_Suc)
    then show ?thesis using k True l by (intro exI [of _ "Suc k"]) (simp del: of_nat_Suc)
  next
    case False
    then show ?thesis using l by (intro exI [of _ 0]) simp
  qed
qed simp

lemma extend_lines_up:
  assumes "\<forall>y. lo \<le> y \<and> y < hi \<longrightarrow> line y = Inr (P y)" "lo \<le> a" "a \<le> hi"
  shows "\<exists>y. extend_lines line (- 1) (a - 1) (nat (a - lo)) = Inr (y - 1) \<and> lo \<le> y \<and> y \<le> a \<and> (\<forall>z. y \<le> z \<and> z < a \<longrightarrow> P z)"
proof -
  obtain k where k: "k \<le> nat (a - lo)" "extend_lines line (- 1) (a - 1) (nat (a - lo)) = Inr (a - 1 + - 1 * int k)"
    "\<forall>i<k. P (a - 1 + - 1 * int i)"
    using extend_lines_solid [of "nat (a - lo)" line "a - 1" "- 1" P] assms by (force simp: nat_less_iff)
  have "P z" if "a - int k \<le> z \<and> z < a" for z
    using k(3) [rule_format, of "nat (a - 1 - z)"] that by auto
  then show ?thesis using k(1,2) assms(2) by (intro exI [of _ "a - int k"]) auto
qed

lemma extend_lines_down:
  assumes "\<forall>y. lo \<le> y \<and> y < hi \<longrightarrow> line y = Inr (P y)" "lo \<le> a" "a \<le> hi"
  shows "\<exists>y. extend_lines line 1 a (nat (hi - a)) = Inr y \<and> a \<le> y \<and> y \<le> hi \<and> (\<forall>z. a \<le> z \<and> z < y \<longrightarrow> P z)"
proof -
  obtain k where k: "k \<le> nat (hi - a)" "extend_lines line 1 a (nat (hi - a)) = Inr (a + 1 * int k)" "\<forall>i<k. P (a + 1 * int i)"
    using extend_lines_solid [of "nat (hi - a)" line a 1 P] assms by force
  have "P z" if "a \<le> z \<and> z < a + int k" for z
    using k(3) [rule_format, of "nat (z - a)"] that by auto
  then show ?thesis using k(1,2) assms(3) by (intro exI [of _ "a + int k"]) auto
qed

lemma solid_lines:
  "\<forall>z. a \<le> z \<and> z < b \<longrightarrow> solid_box s c x1 z x2 (z + 1) \<Longrightarrow> solid_box s c x1 a x2 b"
  "\<forall>z. a \<le> z \<and> z < b \<longrightarrow> solid_box s c z y1 (z + 1) y2 \<Longrightarrow> solid_box s c a y1 b y2"
  unfolding solid_box_def by (metis order_refl zless_add1_eq)+

lemma extendSolidAreaByPixel_solid:
  assumes "checks R chk s c" "inside R (px (rtl r)) (py (rtl r)) (px (rbr r)) (py (rbr r))"
    and "inside r x1 y1 x2 y2" "solid_box s c x1 y1 x2 y2"
  shows "\<exists>a1 b1 a2 b2. extendSolidAreaByPixel chk r (mkRect x1 y1 x2 y2) = Inr (mkRect a1 b1 a2 b2)
    \<and> inside r a1 b1 a2 b2 \<and> a1 \<le> x1 \<and> x2 \<le> a2 \<and> b1 \<le> y1 \<and> y2 \<le> b2 \<and> solid_box s c a1 b1 a2 b2"
proof -
  let ?X1 = "px (rtl r)" and ?Y1 = "py (rtl r)" and ?X2 = "px (rbr r)" and ?Y2 = "py (rbr r)"
  note i = assms(2,3) [unfolded inside_def]
  have iy: "?Y1 \<le> y1" "y1 \<le> ?Y2" "?Y1 \<le> y2" "y2 \<le> ?Y2" and ix: "?X1 \<le> x1" "x1 \<le> ?X2" "?X1 \<le> x2" "x2 \<le> ?X2"
    using assms(3) by (simp_all add: inside_def)
  have row: "\<forall>y. ?Y1 \<le> y \<and> y < ?Y2 \<longrightarrow> chk (setXYWH x1 y (x2 - x1) 1) = Inr (solid_box s c x1 y x2 (y + 1))"
    using checksD [OF assms(1), of x1 _ "x2 - x1" 1] i by (auto simp: inside_def)
  obtain b1 where b1: "extend_lines (\<lambda>cy. chk (setXYWH x1 cy (x2 - x1) 1)) (- 1) (y1 - 1) (nat (y1 - ?Y1)) = Inr (b1 - 1)"
    "?Y1 \<le> b1" "b1 \<le> y1" "\<forall>z. b1 \<le> z \<and> z < y1 \<longrightarrow> solid_box s c x1 z x2 (z + 1)"
    using extend_lines_up [OF row iy(1,2)] by blast
  obtain b2 where b2: "extend_lines (\<lambda>cy. chk (setXYWH x1 cy (x2 - x1) 1)) 1 y2 (nat (?Y2 - y2)) = Inr b2"
    "y2 \<le> b2" "b2 \<le> ?Y2" "\<forall>z. y2 \<le> z \<and> z < b2 \<longrightarrow> solid_box s c x1 z x2 (z + 1)"
    using extend_lines_down [OF row iy(3,4)] by blast
  have tall: "solid_box s c x1 b1 x2 b2"
    using solid_join_y [OF solid_join_y [OF solid_lines(1) [OF b1(4)] assms(4)] solid_lines(1) [OF b2(4)]] .
  have col: "\<forall>x. ?X1 \<le> x \<and> x < ?X2 \<longrightarrow> chk (setXYWH x b1 1 (b2 - b1)) = Inr (solid_box s c x b1 (x + 1) b2)"
    using checksD [OF assms(1), of _ b1 1 "b2 - b1"] i b1(2,3) b2(2,3) by (auto simp: inside_def)
  obtain a1 where a1: "extend_lines (\<lambda>cx. chk (setXYWH cx b1 1 (b2 - b1))) (- 1) (x1 - 1) (nat (x1 - ?X1)) = Inr (a1 - 1)"
    "?X1 \<le> a1" "a1 \<le> x1" "\<forall>z. a1 \<le> z \<and> z < x1 \<longrightarrow> solid_box s c z b1 (z + 1) b2"
    using extend_lines_up [OF col ix(1,2)] by blast
  obtain a2 where a2: "extend_lines (\<lambda>cx. chk (setXYWH cx b1 1 (b2 - b1))) 1 x2 (nat (?X2 - x2)) = Inr a2"
    "x2 \<le> a2" "a2 \<le> ?X2" "\<forall>z. x2 \<le> z \<and> z < a2 \<longrightarrow> solid_box s c z b1 (z + 1) b2"
    using extend_lines_down [OF col ix(3,4)] by blast
  have "solid_box s c a1 b1 a2 b2"
    using solid_join_x [OF solid_join_x [OF solid_lines(2) [OF a1(4)] tall] solid_lines(2) [OF a2(4)]] .
  moreover have "extendSolidAreaByPixel chk r (mkRect x1 y1 x2 y2) = Inr (mkRect a1 b1 a2 b2)"
    using a1(1) a2(1) b1(1) b2(1) by (simp add: extendSolidAreaByPixel_def Let_def mkRect_sel)
  moreover have "inside r a1 b1 a2 b2"
    using a1(2,3) a2(2,3) b1(2,3) b2(2,3) assms(3) unfolding inside_def by linarith
  ultimately show ?thesis using a1(3) a2(2) b1(3) b2(2) by blast
qed

section \<open>The search\<close>

definition within_rect :: "Rect \<Rightarrow> Rect \<Rightarrow> bool" where
  "within_rect R r \<longleftrightarrow> inside R (px (rtl r)) (py (rtl r)) (px (rbr r)) (py (rbr r))"

text \<open>A rectangle of one colour inside \<open>R\<close>.\<close>

definition solid_in :: "Rect \<Rightarrow> 'p screen \<Rightarrow> 'p \<Rightarrow> Rect \<Rightarrow> bool" where
  "solid_in R s c r \<longleftrightarrow> within_rect R r \<and> \<not> Rect_is_empty r
     \<and> solid_box s c (px (rtl r)) (py (rtl r)) (px (rbr r)) (py (rbr r))"

definition all_solid :: "Rect \<Rightarrow> 'p screen \<Rightarrow> pb_error + ('p \<times> Rect) option \<Rightarrow> bool" where
  "all_solid R s res \<longleftrightarrow> (\<exists>v. res = Inr v \<and> (\<forall>c r. v = Some (c, r) \<longrightarrow> solid_in R s c r))"

lemma checks_pb: "wf_pb pb \<Longrightarrow> checks (getRect pb) (checkSolidTile pb c) (pixels pb) c"
  by (simp add: checks_def checkSolidTile_iff)

lemma try_block_solid:
  assumes "wf_pb pb" "within_rect (getRect pb) R" "px (rtl R) \<le> dx" "dx < px (rbr R)" "py (rtl R) \<le> dy" "dy < py (rbr R)"
  shows "all_solid R (pixels pb) (try_block pb R dx dy (block_width (px (rbr R) - dx)) (block_height R dy))"
proof -
  let ?x2 = "px (rbr R)" and ?y2 = "py (rbr R)" and ?dw = "block_width (px (rbr R) - dx)" and ?dh = "block_height R dy"
  note i = assms(2) [unfolded within_rect_def inside_def]
  have d: "0 < ?dw" "dx + ?dw \<le> ?x2" "0 < ?dh" "dy + ?dh \<le> ?y2"
    using assms(3-6) by (auto simp: block_width_def block_height_def SolidSearchBlock_def)
  have "Rect_enclosed_by (mkRect dx dy (dx + 1) (dy + 1)) (getRect pb)"
    using i assms(3-6) by (auto simp: Rect_enclosed_by_def mkRect_sel)
  then obtain c where c: "getPixel pb dx dy = Inr c" by (simp add: getPixel_def getBuffer_def)
  note chk = checks_pb [OF assms(1), of c]
  have ins: "inside (getRect pb) dx dy ?x2 ?y2" using i assms(3-6) by (auto simp: inside_def)
  have tile: "checkSolidTile pb c (setXYWH dx dy ?dw ?dh) = Inr (solid_box (pixels pb) c dx dy (dx + ?dw) (dy + ?dh))"
    by (rule checksD [OF chk]) (use ins d in \<open>auto simp: inside_def\<close>)
  show ?thesis
  proof (cases "solid_box (pixels pb) c dx dy (dx + ?dw) (dy + ?dh)")
    case False
    then show ?thesis using c tile by (simp add: try_block_def all_solid_def)
  next
    case True
    moreover have "block_height (mkRect dx dy ?x2 ?y2) dy = ?dh" by (simp add: block_height_def mkRect_sel)
    ultimately obtain w h where e: "extendSolidAreaByBlock (checkSolidTile pb c) (setXYWH dx dy (?x2 - dx) (?y2 - dy)) = Inr (setXYWH dx dy w h)"
      and wh: "0 < w" "0 < h" "dx + w \<le> ?x2" "dy + h \<le> ?y2" "solid_box (pixels pb) c dx dy (dx + w) (dy + h)"
      using extendSolidAreaByBlock_solid [OF chk ins assms(4,6)] by auto
    have "inside R dx dy (dx + w) (dy + h)" using wh assms(3-6) by (simp add: inside_def)
    from extendSolidAreaByPixel_solid [OF chk _ this wh(5)] assms(2)
    obtain a1 b1 a2 b2 where p: "extendSolidAreaByPixel (checkSolidTile pb c) R (mkRect dx dy (dx + w) (dy + h)) = Inr (mkRect a1 b1 a2 b2)"
      "inside R a1 b1 a2 b2" "a1 \<le> dx" "dx + w \<le> a2" "b1 \<le> dy" "dy + h \<le> b2" "solid_box (pixels pb) c a1 b1 a2 b2"
      unfolding within_rect_def by blast
    have "solid_in R (pixels pb) c (mkRect a1 b1 a2 b2)"
      using p wh by (simp add: solid_in_def within_rect_def mkRect_sel Rect_is_empty_def)
    moreover have "solid_in R (pixels pb) c (setXYWH dx dy w h)"
      using wh assms(3-6) by (simp add: solid_in_def within_rect_def inside_def setXYWH_def mkRect_sel Rect_is_empty_def)
    moreover have "mkRect dx dy (dx + w) (dy + h) = setXYWH dx dy w h" by (simp add: setXYWH_def)
    ultimately show ?thesis using c tile True e p(1) by (auto simp: try_block_def all_solid_def)
  qed
qed

lemma search_x_solid:
  assumes "wf_pb pb" "within_rect (getRect pb) R" "px (rtl R) \<le> dx" "py (rtl R) \<le> dy" "dy < py (rbr R)"
  shows "all_solid R (pixels pb) (search_x pb R dy (block_height R dy) dx)"
  using assms(3)
proof (induction "nat (px (rbr R) - dx)" arbitrary: dx rule: less_induct)
  case less
  show ?case
  proof (cases "dx < px (rbr R)")
    case False
    then show ?thesis by (subst search_x.simps) (simp add: all_solid_def)
  next
    case True
    have w: "(if dx + SolidSearchBlock > px (rbr R) then px (rbr R) - dx else SolidSearchBlock) = block_width (px (rbr R) - dx)"
      by (auto simp: block_width_def)
    have "all_solid R (pixels pb) (search_x pb R dy (block_height R dy) (dx + SolidSearchBlock))"
      using less.hyps [of "dx + SolidSearchBlock"] less.prems True by (simp add: SolidSearchBlock_def)
    then show ?thesis
      using try_block_solid [OF assms(1,2) less.prems True assms(4,5)] True
      by (subst search_x.simps) (auto simp: all_solid_def w Let_def split: option.splits)
  qed
qed

lemma search_y_solid:
  assumes "wf_pb pb" "within_rect (getRect pb) R" "py (rtl R) \<le> dy"
  shows "all_solid R (pixels pb) (search_y pb R dy)"
  using assms(3)
proof (induction "nat (py (rbr R) - dy)" arbitrary: dy rule: less_induct)
  case less
  show ?case
  proof (cases "dy < py (rbr R)")
    case False
    then show ?thesis by (subst search_y.simps) (simp add: all_solid_def)
  next
    case True
    have "all_solid R (pixels pb) (search_y pb R (dy + SolidSearchBlock))"
      using less.hyps [of "dy + SolidSearchBlock"] less.prems True by (simp add: SolidSearchBlock_def)
    then show ?thesis
      using search_x_solid [OF assms(1,2) _ less.prems True, of "px (rtl R)"] True
      by (subst search_y.simps) (auto simp: all_solid_def block_height_def [symmetric] Let_def split: option.splits)
  qed
qed

section \<open>The recursion\<close>

text \<open>
  What a stretch of the search has done: it sent rectangles of one colour with disjoint areas
  inside \<open>A\<close>, and took exactly these areas out of the changed region.
\<close>

definition found :: "'p screen \<Rightarrow> (int \<times> int) set \<Rightarrow> 'p solids \<Rightarrow> 'p solids \<Rightarrow> bool" where
  "found s A st st' \<longleftrightarrow>
     (\<exists>new. snd st' = snd st @ new
       \<and> (\<forall>(r, c)\<in>set new. rect_area_of r \<noteq> {} \<and> rect_area_of r \<subseteq> A \<and> (\<forall>p\<in>rect_area_of r. s p = c))
       \<and> sorted_wrt (\<lambda>a b. rect_area_of (fst a) \<inter> rect_area_of (fst b) = {}) new
       \<and> points (fst st') = points (fst st) - (\<Union>(r, c)\<in>set new. rect_area_of r))
     \<and> rfb_region (fst st')"

lemma found_refl: "rfb_region (fst st) \<Longrightarrow> found s A st st"
  by (simp add: found_def)

lemma found_mono: "\<lbrakk>found s A st st'; A \<subseteq> B\<rbrakk> \<Longrightarrow> found s B st st'"
  unfolding found_def by (elim conjE exE, intro conjI exI) (assumption | fastforce)+

lemma found_trans:
  assumes "found s A st st1" "found s B st1 st2" "A \<inter> B = {}"
  shows "found s (A \<union> B) st st2"
proof -
  obtain n1 where n1: "snd st1 = snd st @ n1"
    "\<forall>(r, c)\<in>set n1. rect_area_of r \<noteq> {} \<and> rect_area_of r \<subseteq> A \<and> (\<forall>p\<in>rect_area_of r. s p = c)"
    "sorted_wrt (\<lambda>a b. rect_area_of (fst a) \<inter> rect_area_of (fst b) = {}) n1"
    "points (fst st1) = points (fst st) - (\<Union>(r, c)\<in>set n1. rect_area_of r)"
    using assms(1) unfolding found_def by blast
  obtain n2 where n2: "snd st2 = snd st1 @ n2"
    "\<forall>(r, c)\<in>set n2. rect_area_of r \<noteq> {} \<and> rect_area_of r \<subseteq> B \<and> (\<forall>p\<in>rect_area_of r. s p = c)"
    "sorted_wrt (\<lambda>a b. rect_area_of (fst a) \<inter> rect_area_of (fst b) = {}) n2"
    "points (fst st2) = points (fst st1) - (\<Union>(r, c)\<in>set n2. rect_area_of r)" "rfb_region (fst st2)"
    using assms(2) unfolding found_def by blast
  have dis: "rect_area_of (fst a) \<inter> rect_area_of (fst b) = {}" if "a \<in> set n1" "b \<in> set n2" for a b
  proof -
    have "rect_area_of (fst a) \<subseteq> A" "rect_area_of (fst b) \<subseteq> B" using n1(2) n2(2) that by (auto simp: case_prod_beta)
    then show ?thesis using assms(3) by blast
  qed
  have "\<forall>(r, c)\<in>set (n1 @ n2). rect_area_of r \<noteq> {} \<and> rect_area_of r \<subseteq> A \<union> B \<and> (\<forall>p\<in>rect_area_of r. s p = c)"
    using n1(2) n2(2) by fastforce
  moreover have "sorted_wrt (\<lambda>a b. rect_area_of (fst a) \<inter> rect_area_of (fst b) = {}) (n1 @ n2)"
    using n1(3) n2(3) dis by (simp add: sorted_wrt_append)
  moreover have "points (fst st2) = points (fst st) - (\<Union>(r, c)\<in>set (n1 @ n2). rect_area_of r)" using n1(4) n2(4) by auto
  ultimately show ?thesis unfolding found_def using n1(1) n2(1,5) by auto
qed

definition finds :: "'p screen \<Rightarrow> (int \<times> int) set \<Rightarrow> 'p solids \<Rightarrow> (pb_error + 'p solids) option \<Rightarrow> bool" where
  "finds s A st res \<longleftrightarrow> (\<exists>st'. res = Some (Inr st') \<and> found s A st st')"

lemma if_rect_finds:
  assumes "finds s A st res" "A \<inter> B = {}" "b \<longrightarrow> (\<forall>st'. rfb_region (fst st') \<longrightarrow> finds s B st' (f sr st'))"
  shows "finds s (A \<union> B) st (if_rect b f sr res)"
proof -
  obtain st' where st': "res = Some (Inr st')" "found s A st st'" using assms(1) by (auto simp: finds_def)
  then have rg: "rfb_region (fst st')" by (simp add: found_def)
  show ?thesis
  proof (cases b)
    case True
    then obtain st2 where "f sr st' = Some (Inr st2)" "found s B st' st2" using assms(3) rg unfolding finds_def by blast
    then show ?thesis using st' True found_trans [OF st'(2) _ assms(2)] by (simp add: finds_def if_rect_def)
  next
    case False
    then show ?thesis using st' found_mono [OF st'(2)] by (auto simp: finds_def if_rect_def)
  qed
qed

lemma finds_mono: "\<lbrakk>finds s A st res; A \<subseteq> B\<rbrakk> \<Longrightarrow> finds s B st res"
  unfolding finds_def by (metis found_mono)

lemma solid_in_area: "solid_in R s c r \<Longrightarrow> rect_area_of r \<noteq> {} \<and> rect_area_of r \<subseteq> rect_area_of R \<and> (\<forall>p\<in>rect_area_of r. s p = c)"
  by (auto simp: rect_area_empty solid_in_def within_rect_def inside_def solid_box_def) (auto simp: rect_area_of_def)

lemma short_inside: "\<lbrakk>within_rect R r; short_rect R\<rbrakk> \<Longrightarrow> short_rect r"
  by (auto simp: within_rect_def inside_def short_rect_def in_short_def)

lemma within_trans: "\<lbrakk>within_rect R r; within_rect r q\<rbrakk> \<Longrightarrow> within_rect R q"
  by (auto simp: within_rect_def inside_def)

lemma findSolidRect_finds:
  assumes "wf_pb pb" "short_rect (getRect pb)" "within_rect (getRect pb) R" "rfb_region (fst st)"
    and "nat (Rect_width R) + nat (Rect_height R) < fuel"
  shows "finds (pixels pb) (rect_area_of R) st (findSolidRect fuel pb R st)"
  using assms(3-5)
proof (induction fuel arbitrary: R st)
  case (Suc fuel)
  let ?s = "pixels pb"
  obtain v where v: "search_y pb R (py (rtl R)) = Inr v" "\<forall>c r. v = Some (c, r) \<longrightarrow> solid_in R ?s c r"
    using search_y_solid [OF assms(1) Suc.prems(1) order_refl] by (auto simp: all_solid_def)
  show ?case
  proof (cases v)
    case None
    then show ?thesis using v(1) found_refl [OF Suc.prems(2)] by (simp add: finds_def)
  next
    case (Some ce)
    obtain c e where ce: "v = Some (c, e)" using Some by (cases ce) simp
    then have e: "solid_in R ?s c e" using v(2) by blast
    let ?st1 = "(Region_assign_subtract (fst st) (Region_of_rect e), snd st @ [(e, c)])"
    let ?left = "setXYWH (px (rtl R)) (py (rtl e) + SolidSearchBlock) (px (rtl e) - px (rtl R)) (Rect_height e - SolidSearchBlock)"
    let ?right = "setXYWH (px (rbr e)) (py (rtl e)) (px (rbr R) - px (rbr e)) (Rect_height e)"
    let ?below = "setXYWH (px (rtl R)) (py (rbr e)) (Rect_width R) (py (rbr R) - py (rbr e))"
    have sh: "short_rect e" using e short_inside within_trans [OF Suc.prems(1)] assms(2) unfolding solid_in_def by blast
    have ie: "px (rtl R) \<le> px (rtl e)" "px (rtl e) < px (rbr e)" "px (rbr e) \<le> px (rbr R)"
      "py (rtl R) \<le> py (rtl e)" "py (rtl e) < py (rbr e)" "py (rbr e) \<le> py (rbr R)"
      using e by (auto simp: solid_in_def within_rect_def inside_def Rect_is_empty_def)
    have f1: "finds ?s (rect_area_of e) st (Some (Inr ?st1))"
      using solid_in_area [OF e] Suc.prems(2) sh by (auto simp: finds_def found_def)
    have sub: "\<forall>st'. rfb_region (fst st') \<longrightarrow> finds ?s (rect_area_of r) st' (findSolidRect fuel pb r st')"
      if "within_rect R r" "nat (Rect_width r) + nat (Rect_height r) < nat (Rect_width R) + nat (Rect_height R)" for r
      using Suc.IH [OF within_trans [OF Suc.prems(1) that(1)]] Suc.prems(3) that(2) by simp
    have L: "within_rect R ?left" "nat (Rect_width ?left) + nat (Rect_height ?left) < nat (Rect_width R) + nat (Rect_height R)"
      if "px (rtl e) \<noteq> px (rtl R) \<and> Rect_height e > SolidSearchBlock"
      using ie that by (auto simp: within_rect_def inside_def SolidSearchBlock_def rect_sels)
    have R: "within_rect R ?right" "nat (Rect_width ?right) + nat (Rect_height ?right) < nat (Rect_width R) + nat (Rect_height R)"
      using ie by (auto simp: within_rect_def inside_def rect_sels)
    have B: "within_rect R ?below" "nat (Rect_width ?below) + nat (Rect_height ?below) < nat (Rect_width R) + nat (Rect_height R)"
      using ie by (auto simp: within_rect_def inside_def rect_sels)
    have d: "rect_area_of e \<inter> rect_area_of ?left = {}" "(rect_area_of e \<union> rect_area_of ?left) \<inter> rect_area_of ?right = {}"
      "(rect_area_of e \<union> rect_area_of ?left \<union> rect_area_of ?right) \<inter> rect_area_of ?below = {}"
      using ie by (auto simp: rect_area_of_def SolidSearchBlock_def rect_sels)
    have go: "b \<longrightarrow> (\<forall>st'. rfb_region (fst st') \<longrightarrow> finds ?s (rect_area_of r) st' (findSolidRect fuel pb r st'))"
      if "b \<Longrightarrow> within_rect R r" "b \<Longrightarrow> nat (Rect_width r) + nat (Rect_height r) < nat (Rect_width R) + nat (Rect_height R)" for b r
      using sub that by blast
    note step = if_rect_finds [where f = "findSolidRect fuel pb"]
    note f2 = step [where sr = ?left, OF f1 d(1) go [of "px (rtl e) \<noteq> px (rtl R) \<and> Rect_height e > SolidSearchBlock", OF L]]
    note f3 = step [where sr = ?right, OF f2 d(2) go [of "px (rbr e) \<noteq> px (rbr R)", OF R]]
    note f4 = step [where sr = ?below, OF f3 d(3) go [of "py (rbr e) \<noteq> py (rbr R)", OF B]]
    have f4: "finds ?s (rect_area_of e \<union> rect_area_of ?left \<union> rect_area_of ?right \<union> rect_area_of ?below) st
        (findSolidRect (Suc fuel) pb R st)"
      unfolding findSolidRect.simps v(1) ce Let_def sum.case option.case prod.case by (rule f4)
    show ?thesis
      by (rule finds_mono [OF f4]) (use ie in \<open>auto simp: rect_area_of_def SolidSearchBlock_def rect_sels\<close>)
  qed
qed simp

lemma writeSolidRects_finds:
  assumes "wf_pb pb" "short_rect (getRect pb)" "rfb_region ch" "points ch \<subseteq> rect_area_of (getRect pb)"
    and "nat (pb_width pb) + nat (pb_height pb) < fuel"
  shows "finds (pixels pb) (points ch) (ch, []) (writeSolidRects fuel pb ch)"
proof -
  let ?f = "\<lambda>r st. if_rect True (findSolidRect fuel pb) r st" and ?R = "getRect pb"
  have "finds (pixels pb) (A \<union> (\<Union>r\<in>set rs. rect_area_of r)) (ch, []) (fold ?f rs res)"
    if "finds (pixels pb) A (ch, []) res" "\<forall>r\<in>set rs. \<not> Rect_is_empty r \<and> rect_area_of r \<subseteq> rect_area_of ?R"
      "sorted_wrt (\<lambda>a b. rect_area_of a \<inter> rect_area_of b = {}) rs" "\<forall>r\<in>set rs. A \<inter> rect_area_of r = {}" for rs A res
    using that
  proof (induction rs arbitrary: A res)
    case (Cons r rs)
    have ne: "\<not> Rect_is_empty r" "rect_area_of r \<subseteq> rect_area_of ?R" using Cons.prems(2) by auto
    have "(px (rtl r), py (rtl r)) \<in> rect_area_of ?R" "(px (rbr r) - 1, py (rbr r) - 1) \<in> rect_area_of ?R"
      by (rule subsetD [OF ne(2)], use ne(1) in \<open>simp add: rect_area_of_def Rect_is_empty_def\<close>)+
    then have w: "within_rect ?R r" using ne(1) by (auto simp: within_rect_def inside_def rect_area_of_def Rect_is_empty_def)
    then have "nat (Rect_width r) + nat (Rect_height r) < fuel"
      using assms(5) by (auto simp: within_rect_def inside_def getRect_def rect_sels)
    then have "finds (pixels pb) (A \<union> rect_area_of r) (ch, []) (?f r res)"
      using if_rect_finds [OF Cons.prems(1)] Cons.prems(4) findSolidRect_finds [OF assms(1,2) w] by simp
    moreover have "\<forall>q\<in>set rs. (A \<union> rect_area_of r) \<inter> rect_area_of q = {}" using Cons.prems(3,4) by (auto simp: Int_Un_distrib2)
    ultimately show ?case using Cons.IH [of "A \<union> rect_area_of r"] Cons.prems(2,3) by (simp add: Un_assoc)
  qed simp
  moreover have "finds (pixels pb) {} (ch, []) (Some (Inr (ch, [])))"
    using found_refl [of "(ch, [])"] assms(3) by (simp add: finds_def)
  moreover have "sorted_wrt (\<lambda>a b. rect_area_of a \<inter> rect_area_of b = {}) (get_rects ch True True)"
    by (rule sorted_wrt_imp [OF get_rects_laws(2) [OF assms(3)]])
      (fastforce simp: precedes_def rect_area_of_def split: if_splits)
  ultimately have "finds (pixels pb) ({} \<union> (\<Union>r\<in>set (get_rects ch True True). rect_area_of r)) (ch, []) (writeSolidRects fuel pb ch)"
    using get_rects_laws(1,3) [OF assms(3), of True True] assms(4) unfolding writeSolidRects_def by blast
  then show ?thesis using get_rects_laws(1) [OF assms(3), of True True] by simp
qed

text \<open>Drawing the solid rectangles on the client's screen.\<close>

definition draw_solids :: "(Rect \<times> 'p) list \<Rightarrow> 'p screen \<Rightarrow> 'p screen" where
  "draw_solids rcs c = fold (\<lambda>(r, v). overlay (rect_area_of r) (\<lambda>_. v)) rcs c"

lemma draw_solids_pixels:
  "\<forall>(r, v)\<in>set rcs. \<forall>p\<in>rect_area_of r. s p = v \<Longrightarrow>
   draw_solids rcs c p = (if p \<in> (\<Union>(r, v)\<in>set rcs. rect_area_of r) then s p else c p)"
proof (induction rcs arbitrary: c)
  case (Cons rv rcs)
  then show ?case by (cases rv) (auto simp: draw_solids_def overlay_def)
qed (simp add: draw_solids_def)

lemma finds_draws:
  assumes "finds s A (ch, []) (Some (Inr (ch', rcs)))"
  shows "draw_solids rcs c p = (if p \<in> (\<Union>(r, v)\<in>set rcs. rect_area_of r) then s p else c p)"
    and "points ch' = points ch - (\<Union>(r, v)\<in>set rcs. rect_area_of r)" "rfb_region ch'"
proof -
  have f: "\<forall>(r, v)\<in>set rcs. \<forall>p\<in>rect_area_of r. s p = v" "points ch' = points ch - (\<Union>(r, v)\<in>set rcs. rect_area_of r)" "rfb_region ch'"
    using assms by (auto simp: finds_def found_def)
  show "draw_solids rcs c p = (if p \<in> (\<Union>(r, v)\<in>set rcs. rect_area_of r) then s p else c p)" by (rule draw_solids_pixels [OF f(1)])
  show "points ch' = points ch - (\<Union>(r, v)\<in>set rcs. rect_area_of r)" "rfb_region ch'" by (rule f(2), rule f(3))
qed

end
