(* ===== verification/RfbSplit.thy ===== *)
theory RfbSplit
  imports RfbSolidProps
begin

text \<open>
  Cutting rectangles to the size the encoders take: the first loop of writeRects and
  computeNumRects of \<^verbatim>\<open>src/common/rfb/EncodeManager.cxx\<close>. The number of rectangles is announced
  in the header of an update before they are cut, so the two have to agree.

  \<open>video\<close> is the condition \<^verbatim>\<open>videoDetected && !video_mode_available\<close> of the code, and \<open>webp\<close>
  tells whether the client takes WebP.
\<close>

section \<open>The code\<close>

definition SubRectMaxArea :: int where
  "SubRectMaxArea = 65536"

definition SubRectMaxWidth :: int where
  "SubRectMaxWidth = 2048"

definition no_split :: "bool \<Rightarrow> bool \<Rightarrow> Rect \<Rightarrow> bool" where
  "no_split video webp r \<longleftrightarrow>
     Rect_width r * Rect_height r < SubRectMaxArea \<and> Rect_width r < SubRectMaxWidth \<or> video \<and> \<not> webp"

definition sub_width :: "Rect \<Rightarrow> int" where
  "sub_width r = (if Rect_width r \<le> SubRectMaxWidth then Rect_width r else SubRectMaxWidth)"

definition sub_height :: "Rect \<Rightarrow> int" where
  "sub_height r = SubRectMaxArea div sub_width r"

definition computeNumRects :: "bool \<Rightarrow> bool \<Rightarrow> REGION \<Rightarrow> int" where
  "computeNumRects video webp ch =
     (\<Sum>r\<leftarrow>get_rects ch True True.
        if no_split video webp r then 1
        else ((Rect_width r - 1) div sub_width r + 1) * ((Rect_height r - 1) div sub_height r + 1))"

text \<open>The loops over sr.tl.x and sr.tl.y. The steps are positive, as no rectangle is empty.\<close>

function split_cols :: "int \<Rightarrow> int \<Rightarrow> int \<Rightarrow> int \<Rightarrow> int \<Rightarrow> Rect list" where
  "split_cols sw x x2 y yb =
     (if x < x2 \<and> 0 < sw
      then mkRect x y (if x + sw > x2 then x2 else x + sw) yb # split_cols sw (x + sw) x2 y yb
      else [])"
  by pat_completeness auto
termination
  by (relation "measure (\<lambda>(sw, x, x2, y, yb). nat (x2 - x))") auto

declare split_cols.simps [simp del]

function split_rows :: "int \<Rightarrow> int \<Rightarrow> int \<Rightarrow> int \<Rightarrow> int \<Rightarrow> int \<Rightarrow> Rect list" where
  "split_rows sw sh x1 x2 y y2 =
     (if y < y2 \<and> 0 < sh
      then split_cols sw x1 x2 y (if y + sh > y2 then y2 else y + sh) @ split_rows sw sh x1 x2 (y + sh) y2
      else [])"
  by pat_completeness auto
termination
  by (relation "measure (\<lambda>(sw, sh, x1, x2, y, y2). nat (y2 - y))") auto

declare split_rows.simps [simp del]

definition split_rect :: "bool \<Rightarrow> bool \<Rightarrow> Rect \<Rightarrow> Rect list" where
  "split_rect video webp r =
     (if no_split video webp r then [r]
      else split_rows (sub_width r) (sub_height r) (px (rtl r)) (px (rbr r)) (py (rtl r)) (py (rbr r)))"

text \<open>The subrectangles writeRects encodes; in video mode the whole screen is sent.\<close>

definition subrects :: "bool \<Rightarrow> bool \<Rightarrow> Rect \<Rightarrow> REGION \<Rightarrow> Rect list" where
  "subrects video webp pbrect ch =
     concat (map (split_rect video webp) (if video then [pbrect] else get_rects ch True True))"

section \<open>Counting\<close>

lemma step_count:
  assumes "0 < sw" "x < (x2 :: int)"
  shows "(x2 - x - 1) div sw + 1 = (if x + sw < x2 then (x2 - (x + sw) - 1) div sw + 1 else 0) + 1"
proof (cases "x + sw < x2")
  case True
  have "(x2 - (x + sw) - 1 + sw) div sw = (x2 - (x + sw) - 1) div sw + 1" using assms(1) by (intro div_add_self2) simp
  moreover have "x2 - (x + sw) - 1 + sw = x2 - x - 1" by simp
  ultimately show ?thesis using True by simp
next
  case False
  then show ?thesis using assms by (simp add: div_pos_pos_trivial)
qed

lemma length_split_cols:
  assumes "0 < sw"
  shows "int (length (split_cols sw x x2 y yb)) = (if x < x2 then (x2 - x - 1) div sw + 1 else 0)"
  using assms
proof (induction sw x x2 y yb rule: split_cols.induct)
  case (1 sw x x2 y yb)
  then show ?case using step_count [of sw x x2] by (subst split_cols.simps) (auto simp: split_cols.simps)
qed

lemma length_split_rows:
  assumes "0 < sw" "0 < sh" "x1 < x2"
  shows "int (length (split_rows sw sh x1 x2 y y2)) = (if y < y2 then ((x2 - x1 - 1) div sw + 1) * ((y2 - y - 1) div sh + 1) else 0)"
  using assms
proof (induction sw sh x1 x2 y y2 rule: split_rows.induct)
  case (1 sw sh x1 x2 y y2)
  show ?case
  proof (cases "y < y2")
    case True
    let ?n = "(x2 - x1 - 1) div sw + 1"
    have "int (length (split_rows sw sh x1 x2 y y2)) = ?n + (if y + sh < y2 then ?n * ((y2 - (y + sh) - 1) div sh + 1) else 0)"
      using 1 True by (subst split_rows.simps) (simp add: length_split_cols)
    also have "\<dots> = ?n * ((if y + sh < y2 then (y2 - (y + sh) - 1) div sh + 1 else 0) + 1)" by (simp add: algebra_simps)
    also have "\<dots> = ?n * ((y2 - y - 1) div sh + 1)" using step_count [of sh y y2] "1.prems"(2) True by simp
    finally show ?thesis using True by simp
  qed (simp add: split_rows.simps)
qed

lemma sub_sizes:
  assumes "\<not> Rect_is_empty r"
  shows "0 < sub_width r" "0 < sub_height r" "sub_width r \<le> SubRectMaxWidth" "sub_width r * sub_height r \<le> SubRectMaxArea"
proof -
  show w: "0 < sub_width r" "sub_width r \<le> SubRectMaxWidth"
    using assms by (auto simp: sub_width_def Rect_is_empty_def Rect_width_def SubRectMaxWidth_def)
  then have "65536 div 2048 \<le> SubRectMaxArea div sub_width r"
    unfolding SubRectMaxArea_def by (intro zdiv_mono2) (auto simp: SubRectMaxWidth_def)
  then show "0 < sub_height r" by (simp add: sub_height_def)
  have "SubRectMaxArea div sub_width r * sub_width r \<le> SubRectMaxArea"
    using w(1) pos_mod_sign [of "sub_width r" SubRectMaxArea] by (simp flip: minus_mod_eq_div_mult)
  then show "sub_width r * sub_height r \<le> SubRectMaxArea" by (simp add: sub_height_def mult.commute)
qed

lemma length_split_rect:
  assumes "\<not> Rect_is_empty r"
  shows "int (length (split_rect video webp r)) =
    (if no_split video webp r then 1 else ((Rect_width r - 1) div sub_width r + 1) * ((Rect_height r - 1) div sub_height r + 1))"
  using sub_sizes [OF assms] assms by (simp add: split_rect_def length_split_rows Rect_is_empty_def Rect_width_def Rect_height_def)

lemma computeNumRects_correct:
  assumes "rfb_region ch"
  shows "computeNumRects False webp ch = int (length (subrects False webp pbrect ch))"
proof -
  have "(\<Sum>r\<leftarrow>rs. if no_split False webp r then 1
      else ((Rect_width r - 1) div sub_width r + 1) * ((Rect_height r - 1) div sub_height r + 1))
    = int (length (concat (map (split_rect False webp) rs)))" if "\<forall>r\<in>set rs. \<not> Rect_is_empty r" for rs
    using that by (induction rs) (simp_all add: length_split_rect)
  from this [OF get_rects_laws(3) [OF assms]] show ?thesis by (simp add: computeNumRects_def subrects_def)
qed

section \<open>The pieces\<close>

definition disjoint_areas :: "Rect \<Rightarrow> Rect \<Rightarrow> bool" where
  "disjoint_areas a b \<longleftrightarrow> rect_area_of a \<inter> rect_area_of b = {}"

lemma split_cols_pieces:
  assumes "0 < sw" "y < yb"
  shows "(\<Union>r\<in>set (split_cols sw x x2 y yb). rect_area_of r) = rect_area_of (mkRect x y x2 yb)"
    and "sorted_wrt disjoint_areas (split_cols sw x x2 y yb)"
    and "\<forall>r\<in>set (split_cols sw x x2 y yb). \<not> Rect_is_empty r \<and> Rect_width r \<le> sw \<and> Rect_height r = yb - y"
proof -
  have U: "(\<Union>r\<in>set (split_cols sw x x2 y yb). rect_area_of r) = rect_area_of (mkRect x y x2 yb)" if "0 < sw" "y < yb" for sw x x2 y yb
    using that
  proof (induction sw x x2 y yb rule: split_cols.induct)
    case (1 sw x x2 y yb)
    show ?case
    proof (cases "x < x2")
      case True
      have "(\<Union>r\<in>set (split_cols sw x x2 y yb). rect_area_of r) =
          rect_area_of (mkRect x y (if x + sw > x2 then x2 else x + sw) yb) \<union> rect_area_of (mkRect (x + sw) y x2 yb)"
        using 1 True by (subst split_cols.simps) simp
      also have "\<dots> = rect_area_of (mkRect x y x2 yb)" using True "1.prems"(1) by (auto simp: rect_area_of_def mkRect_sel)
      finally show ?thesis .
    next
      case False
      then show ?thesis by (subst split_cols.simps) (auto simp: rect_area_of_def mkRect_sel)
    qed
  qed
  then show "(\<Union>r\<in>set (split_cols sw x x2 y yb). rect_area_of r) = rect_area_of (mkRect x y x2 yb)" using assms by blast
  show "sorted_wrt disjoint_areas (split_cols sw x x2 y yb)"
    using assms
  proof (induction sw x x2 y yb rule: split_cols.induct)
    case (1 sw x x2 y yb)
    let ?r = "mkRect x y (if x + sw > x2 then x2 else x + sw) yb"
    have "disjoint_areas ?r r" if "r \<in> set (split_cols sw (x + sw) x2 y yb)" for r
    proof -
      have "rect_area_of r \<subseteq> rect_area_of (mkRect (x + sw) y x2 yb)" using U [OF "1.prems"] that by blast
      then show ?thesis by (auto simp: disjoint_areas_def rect_area_of_def mkRect_sel)
    qed
    then show ?case using 1 by (subst split_cols.simps) simp
  qed
  show "\<forall>r\<in>set (split_cols sw x x2 y yb). \<not> Rect_is_empty r \<and> Rect_width r \<le> sw \<and> Rect_height r = yb - y"
    using assms
  proof (induction sw x x2 y yb rule: split_cols.induct)
    case (1 sw x x2 y yb)
    then show ?case by (subst split_cols.simps) (auto simp: mkRect_sel Rect_is_empty_def)
  qed
qed

lemma split_rows_pieces:
  assumes "0 < sw" "0 < sh"
  shows "(\<Union>r\<in>set (split_rows sw sh x1 x2 y y2). rect_area_of r) = rect_area_of (mkRect x1 y x2 y2)"
    and "sorted_wrt disjoint_areas (split_rows sw sh x1 x2 y y2)"
    and "\<forall>r\<in>set (split_rows sw sh x1 x2 y y2). \<not> Rect_is_empty r \<and> Rect_width r \<le> sw \<and> Rect_height r \<le> sh"
proof -
  define yb where "yb y y2 = (if y + sh > y2 then y2 else y + sh)" for y y2
  have yb: "y < yb y y2" "yb y y2 - y \<le> sh" if "y < y2" for y y2 using that assms(2) by (auto simp: yb_def)
  have step: "split_rows sw sh x1 x2 y y2 = split_cols sw x1 x2 y (yb y y2) @ split_rows sw sh x1 x2 (y + sh) y2" if "y < y2" for y y2
    using that assms(2) by (subst split_rows.simps) (simp add: yb_def)
  have none: "split_rows sw sh x1 x2 y y2 = []" if "\<not> y < y2" for y y2 using that by (subst split_rows.simps) simp
  have U: "(\<Union>r\<in>set (split_rows sw sh x1 x2 y y2). rect_area_of r) = rect_area_of (mkRect x1 y x2 y2)" for y
  proof (induction "nat (y2 - y)" arbitrary: y rule: less_induct)
    case less
    show ?case
    proof (cases "y < y2")
      case True
      have "(\<Union>r\<in>set (split_rows sw sh x1 x2 y y2). rect_area_of r) =
          rect_area_of (mkRect x1 y x2 (yb y y2)) \<union> rect_area_of (mkRect x1 (y + sh) x2 y2)"
        using less [of "y + sh"] True assms split_cols_pieces(1) [OF assms(1) yb(1) [OF True]] by (simp add: step)
      also have "\<dots> = rect_area_of (mkRect x1 y x2 y2)" using True assms(2) by (auto simp: rect_area_of_def mkRect_sel yb_def)
      finally show ?thesis .
    next
      case False
      then show ?thesis by (subst split_rows.simps) (auto simp: rect_area_of_def mkRect_sel)
    qed
  qed
  then show "(\<Union>r\<in>set (split_rows sw sh x1 x2 y y2). rect_area_of r) = rect_area_of (mkRect x1 y x2 y2)" .
  show "sorted_wrt disjoint_areas (split_rows sw sh x1 x2 y y2)"
  proof (induction "nat (y2 - y)" arbitrary: y rule: less_induct)
    case less
    have "disjoint_areas a b" if "y < y2" "a \<in> set (split_cols sw x1 x2 y (yb y y2))" "b \<in> set (split_rows sw sh x1 x2 (y + sh) y2)" for a b
    proof -
      have "rect_area_of a \<subseteq> rect_area_of (mkRect x1 y x2 (yb y y2))" "rect_area_of b \<subseteq> rect_area_of (mkRect x1 (y + sh) x2 y2)"
        using that split_cols_pieces(1) [OF assms(1) yb(1) [OF that(1)]] U by blast+
      moreover have "rect_area_of (mkRect x1 y x2 (yb y y2)) \<inter> rect_area_of (mkRect x1 (y + sh) x2 y2) = {}"
        by (auto simp: rect_area_of_def mkRect_sel yb_def)
      ultimately show ?thesis unfolding disjoint_areas_def by blast
    qed
    note dis = this
    show ?case
    proof (cases "y < y2")
      case True
      then show ?thesis
        using less [of "y + sh"] assms(2) split_cols_pieces(2) [OF assms(1) yb(1) [OF True]] dis [OF True]
        unfolding step [OF True] sorted_wrt_append by simp
    qed (simp add: none)
  qed
  show "\<forall>r\<in>set (split_rows sw sh x1 x2 y y2). \<not> Rect_is_empty r \<and> Rect_width r \<le> sw \<and> Rect_height r \<le> sh"
  proof (induction "nat (y2 - y)" arbitrary: y rule: less_induct)
    case less
    show ?case
    proof (cases "y < y2")
      case True
      then show ?thesis
        using less [of "y + sh"] assms(2) split_cols_pieces(3) [OF assms(1) yb(1) [OF True]] yb(2) [OF True]
        unfolding step [OF True] by (simp add: ball_Un)
    qed (simp add: none)
  qed
qed

lemma split_rect_pieces:
  assumes "\<not> Rect_is_empty r"
  shows "(\<Union>q\<in>set (split_rect False webp r). rect_area_of q) = rect_area_of r"
    and "sorted_wrt disjoint_areas (split_rect False webp r)"
    and "\<forall>q\<in>set (split_rect False webp r). \<not> Rect_is_empty q \<and> Rect_width q \<le> SubRectMaxWidth \<and> Rect_area q \<le> SubRectMaxArea"
proof -
  note s = sub_sizes [OF assms]
  have r: "mkRect (px (rtl r)) (py (rtl r)) (px (rbr r)) (py (rbr r)) = r" by (simp add: rect_sels)
  note p = split_rows_pieces [OF s(1,2), of "px (rtl r)" "px (rbr r)" "py (rtl r)" "py (rbr r)", unfolded r]
  show "(\<Union>q\<in>set (split_rect False webp r). rect_area_of q) = rect_area_of r" using p(1) by (simp add: split_rect_def)
  show "sorted_wrt disjoint_areas (split_rect False webp r)" using p(2) by (simp add: split_rect_def)
  have "Rect_area q \<le> SubRectMaxArea" if "\<not> Rect_is_empty q" "Rect_width q \<le> sub_width r" "Rect_height q \<le> sub_height r" for q
  proof -
    have "Rect_area q = Rect_width q * Rect_height q" using that(1) by (simp add: Rect_area_def Rect_width_def Rect_height_def)
    also have "\<dots> \<le> sub_width r * sub_height r"
      using that s by (intro mult_mono) (auto simp: Rect_is_empty_def Rect_height_def)
    finally show ?thesis using s(4) by simp
  qed
  then have "\<not> Rect_is_empty q \<and> Rect_width q \<le> SubRectMaxWidth \<and> Rect_area q \<le> SubRectMaxArea"
    if "q \<in> set (split_rows (sub_width r) (sub_height r) (px (rtl r)) (px (rbr r)) (py (rtl r)) (py (rbr r)))" for q
    using p(3) s(3) that by fastforce
  moreover have "Rect_width r \<le> SubRectMaxWidth \<and> Rect_area r \<le> SubRectMaxArea" if "no_split False webp r"
    using that assms by (auto simp: no_split_def Rect_area_def Rect_width_def Rect_height_def)
  ultimately show "\<forall>q\<in>set (split_rect False webp r). \<not> Rect_is_empty q \<and> Rect_width q \<le> SubRectMaxWidth \<and> Rect_area q \<le> SubRectMaxArea"
    using assms by (auto simp: split_rect_def)
qed

lemma disjoint_concat:
  assumes "sorted_wrt disjoint_areas rs"
    and "\<forall>r\<in>set rs. (\<Union>q\<in>set (f r). rect_area_of q) = rect_area_of r \<and> sorted_wrt disjoint_areas (f r)"
  shows "sorted_wrt disjoint_areas (concat (map f rs))"
  using assms
proof (induction rs)
  case (Cons r rs)
  have "disjoint_areas a b" if "a \<in> set (f r)" "q \<in> set rs" "b \<in> set (f q)" for a b q
  proof -
    have "(\<Union>q\<in>set (f r). rect_area_of q) = rect_area_of r" "(\<Union>b\<in>set (f q). rect_area_of b) = rect_area_of q"
      using Cons.prems(2) that(2) by auto
    then have "rect_area_of a \<subseteq> rect_area_of r" "rect_area_of b \<subseteq> rect_area_of q" using that(1,3) by blast+
    moreover have "rect_area_of r \<inter> rect_area_of q = {}" using Cons.prems(1) that(2) by (simp add: disjoint_areas_def)
    ultimately show ?thesis unfolding disjoint_areas_def by blast
  qed
  then show ?case using Cons by (auto simp: sorted_wrt_append)
qed simp

lemma subrects_pieces:
  assumes "rfb_region ch"
  shows "(\<Union>q\<in>set (subrects False webp pbrect ch). rect_area_of q) = points ch"
    and "sorted_wrt disjoint_areas (subrects False webp pbrect ch)"
    and "\<forall>q\<in>set (subrects False webp pbrect ch). \<not> Rect_is_empty q \<and> Rect_width q \<le> SubRectMaxWidth \<and> Rect_area q \<le> SubRectMaxArea"
proof -
  let ?rs = "get_rects ch True True"
  have ne: "\<forall>r\<in>set ?rs. \<not> Rect_is_empty r" by (rule get_rects_laws(3) [OF assms])
  show "(\<Union>q\<in>set (subrects False webp pbrect ch). rect_area_of q) = points ch"
    using split_rect_pieces(1) ne get_rects_laws(1) [OF assms, of True True] by (simp add: subrects_def)
  show "\<forall>q\<in>set (subrects False webp pbrect ch). \<not> Rect_is_empty q \<and> Rect_width q \<le> SubRectMaxWidth \<and> Rect_area q \<le> SubRectMaxArea"
    using split_rect_pieces(3) [of _ webp] ne by (fastforce simp: subrects_def)
  have "sorted_wrt disjoint_areas ?rs"
    by (rule sorted_wrt_imp [OF get_rects_laws(2) [OF assms]])
      (fastforce simp: disjoint_areas_def precedes_def rect_area_of_def split: if_splits)
  then show "sorted_wrt disjoint_areas (subrects False webp pbrect ch)"
    using disjoint_concat [of ?rs "split_rect False webp"] split_rect_pieces(1,2) ne by (simp add: subrects_def)
qed

end
