(* ===== verification/RfbUpdate.thy ===== *)
theory RfbUpdate
  imports RfbSplit
begin

text \<open>
  A whole update: doUpdate of \<^verbatim>\<open>src/common/rfb/EncodeManager.cxx\<close> puts together the copies, the
  solid rectangles and the pieces of the changed region, and the client draws them in that
  order. For every rectangle startRect keeps the lossy region up to date: the part of the
  client's screen that was last drawn by an encoder that loses detail.

  What is decided outside the modelled code is an argument: whether a video was detected before
  and after the statistics of the frame were updated, the rectangles sent by the video encoder
  (none when there is no video mode or it failed), whether a watermark is loaded and due, and
  which rectangles get a lossy encoder.
\<close>

section \<open>The code\<close>

datatype 'p rect_msg =
    CopyMsg CopyRectMsg
  | SolidMsg Rect 'p
  | ImageMsg Rect
  | CursorMsg Rect
  | VideoMsg Rect
  | WatermarkMsg Rect

fun msg_rect :: "'p rect_msg \<Rightarrow> Rect" where
  "msg_rect (CopyMsg m) = cr_rect m"
| "msg_rect (SolidMsg r v) = r"
| "msg_rect (ImageMsg r) = r"
| "msg_rect (CursorMsg r) = r"
| "msg_rect (VideoMsg r) = r"
| "msg_rect (WatermarkMsg r) = r"

record encode_flags =
  supportsLastRect :: bool
  supportsQOI :: bool
  supportsWEBP :: bool
  client_bpp :: int
  watermarkData :: bool
  sendWatermark :: bool
  video_mode_available :: bool
  videoDetected :: bool
  videoDetected_after :: bool
  updateVideo :: "Rect list option"
  lossy_rect :: "Rect \<Rightarrow> bool"

definition startRect_lossy :: "(Rect \<Rightarrow> bool) \<Rightarrow> 'p rect_msg \<Rightarrow> REGION \<Rightarrow> REGION" where
  "startRect_lossy lossy m L =
     (if lossy (msg_rect m) then Region_assign_union L (Region_of_rect (msg_rect m))
      else Region_assign_subtract L (Region_of_rect (msg_rect m)))"

definition rect_count :: "encode_flags \<Rightarrow> UpdateInfo \<Rightarrow> REGION \<Rightarrow> REGION \<Rightarrow> int" where
  "rect_count fl ui ch cur =
     (let video = videoDetected fl \<and> \<not> video_mode_available fl
      in if supportsLastRect fl then 65535
         else int (numRects (ui_copied ui)) + int (length (ui_copypassed ui))
              + computeNumRects video (supportsWEBP fl) ch + computeNumRects video (supportsWEBP fl) cur
              + (if watermarkData fl then 1 else 0))"

text \<open>The cursor is rendered separately: its part of the changed region, and the rest of it.\<close>

definition split_cursor :: "Rect option \<Rightarrow> REGION \<Rightarrow> REGION \<times> REGION" where
  "split_cursor cursor changed0 =
     (case cursor of None \<Rightarrow> (Region_new, changed0)
      | Some r \<Rightarrow> (Region_assign Region_new (Region_intersect changed0 (Region_of_rect r)),
                   Region_assign_subtract changed0 (Region_of_rect r)))"

text \<open>
  The rectangles after the copies. None when the search for solid rectangles did not end within
  the given depth.
\<close>

definition image_msgs ::
  "nat \<Rightarrow> encode_flags \<Rightarrow> 'p PixelBuffer \<Rightarrow> REGION \<Rightarrow> REGION \<Rightarrow> (pb_error + 'p rect_msg list) option"
where
  "image_msgs fuel fl pb ch cur =
     (let video = videoDetected_after fl \<and> \<not> video_mode_available fl;
          solids = (if supportsLastRect fl \<and> \<not> supportsQOI fl then writeSolidRects fuel pb ch else Some (Inr (ch, [])))
      in case solids of None \<Rightarrow> None
         | Some (Inl err) \<Rightarrow> Some (Inl err)
         | Some (Inr (ch', rcs)) \<Rightarrow>
             Some (Inr (map (\<lambda>(r, c). SolidMsg r c) rcs
               @ map ImageMsg (subrects video (supportsWEBP fl) (getRect pb) ch')
               @ (if videoDetected_after fl then []
                  else map CursorMsg (subrects video (supportsWEBP fl) (getRect pb) cur)))))"

text \<open>
  \<open>cursor\<close> is the effective rectangle of the rendered cursor, if there is one. The result is the
  number of rectangles in the header, the rectangles, and the lossy region.
\<close>

definition doUpdate ::
  "nat \<Rightarrow> encode_flags \<Rightarrow> 'p PixelBuffer \<Rightarrow> Rect option \<Rightarrow> EncodeCopy \<Rightarrow> UpdateInfo
    \<Rightarrow> (pb_error + int \<times> 'p rect_msg list \<times> REGION) option"
where
  "doUpdate fuel fl pb cursor e ui =
     (let (cur, ch) = split_cursor cursor (Region_assign Region_new (ui_changed ui));
          n = rect_count fl ui ch cur;
          e1 = writeCopyRects (client_bpp fl) e (ui_copied ui) (ui_copy_delta ui);
          e2 = writeCopyPassRects (client_bpp fl) e1 (ui_copypassed ui);
          wm = (if watermarkData fl \<and> sendWatermark fl then [WatermarkMsg (mkRect 0 0 (pb_width pb) (pb_height pb))] else [])
      in case (if video_mode_available fl then updateVideo fl else None) of
           Some rs \<Rightarrow> Some (Inr (n, map CopyMsg (sent e2) @ map VideoMsg rs @ wm, lossyRegion e2))
         | None \<Rightarrow>
             (case image_msgs fuel fl pb ch cur of None \<Rightarrow> None
              | Some (Inl err) \<Rightarrow> Some (Inl err)
              | Some (Inr ms) \<Rightarrow>
                  Some (Inr (n, map CopyMsg (sent e2) @ ms @ wm, fold (startRect_lossy (lossy_rect fl)) ms (lossyRegion e2)))))"

section \<open>The client\<close>

text \<open>
  The client copies within its own screen, and draws what its decoder makes of any other
  rectangle. An exact decoder makes the server's pixels of it (\<open>s\<close>, and \<open>k\<close> with the cursor).
\<close>

definition client_draw :: "('p rect_msg \<Rightarrow> 'p screen) \<Rightarrow> 'p rect_msg \<Rightarrow> 'p screen \<Rightarrow> 'p screen" where
  "client_draw dec m = (case m of CopyMsg cm \<Rightarrow> client_copy cm | _ \<Rightarrow> overlay (rect_area_of (msg_rect m)) (dec m))"

definition client_draws :: "('p rect_msg \<Rightarrow> 'p screen) \<Rightarrow> 'p rect_msg list \<Rightarrow> 'p screen \<Rightarrow> 'p screen" where
  "client_draws dec ms c = fold (client_draw dec) ms c"

definition exact :: "'p screen \<Rightarrow> 'p screen \<Rightarrow> 'p rect_msg \<Rightarrow> 'p screen" where
  "exact s k m = (case m of SolidMsg r v \<Rightarrow> (\<lambda>_. v) | CursorMsg r \<Rightarrow> k | _ \<Rightarrow> s)"

text \<open>A decoder that is exact where the encoder loses nothing.\<close>

definition decodes :: "(Rect \<Rightarrow> bool) \<Rightarrow> 'p screen \<Rightarrow> 'p screen \<Rightarrow> ('p rect_msg \<Rightarrow> 'p screen) \<Rightarrow> bool" where
  "decodes lossy s k dec \<longleftrightarrow> (\<forall>m. \<not> lossy (msg_rect m) \<longrightarrow> dec m = exact s k m)"

lemma client_draws_append [simp]: "client_draws dec (as @ bs) c = client_draws dec bs (client_draws dec as c)"
  by (simp add: client_draws_def)

lemma draw_images:
  "client_draws (exact s k) (map ImageMsg rs) c = overlay (\<Union>r\<in>set rs. rect_area_of r) s c"
  "client_draws (exact s k) (map CursorMsg rs) c = overlay (\<Union>r\<in>set rs. rect_area_of r) k c"
  using overlay_rows [of rect_area_of s rs c] overlay_rows [of rect_area_of k rs c]
  by (simp_all add: client_draws_def fold_map comp_def client_draw_def exact_def)

lemma draw_solid_msgs: "client_draws (exact s k) (map (\<lambda>(r, v). SolidMsg r v) rcs) c = draw_solids rcs c"
  by (induction rcs arbitrary: c) (auto simp: client_draws_def draw_solids_def client_draw_def exact_def)

lemma draw_copies: "client_draws dec (map CopyMsg ms) c = fold client_copy ms c"
  by (induction ms arbitrary: c) (simp_all add: client_draws_def client_draw_def)

lemma writeCopyPassRects_none [simp]: "writeCopyPassRects bpp e [] = e"
  by (simp add: writeCopyPassRects_def)

definition cursor_area :: "Rect option \<Rightarrow> (int \<times> int) set" where
  "cursor_area cursor = (case cursor of None \<Rightarrow> {} | Some r \<Rightarrow> rect_area_of r)"

lemma split_cursor_laws:
  assumes "split_cursor cursor ch0 = (cur, ch)" "rfb_region ch0" "\<forall>r. cursor = Some r \<longrightarrow> short_rect r"
  shows "rfb_region cur" "points cur = points ch0 \<inter> cursor_area cursor"
    "rfb_region ch" "points ch = points ch0 - cursor_area cursor"
proof -
  have "rfb_region cur \<and> points cur = points ch0 \<inter> cursor_area cursor \<and> rfb_region ch \<and> points ch = points ch0 - cursor_area cursor"
  proof (cases cursor)
    case None
    then show ?thesis using assms(1,2) by (auto simp: split_cursor_def cursor_area_def)
  next
    case (Some r)
    then have "cur = Region_assign Region_new (Region_intersect ch0 (Region_of_rect r))" "ch = Region_assign_subtract ch0 (Region_of_rect r)"
      using assms(1) by (simp_all add: split_cursor_def)
    then show ?thesis using assms(2,3) Some by (simp add: cursor_area_def)
  qed
  then show "rfb_region cur" "points cur = points ch0 \<inter> cursor_area cursor"
    "rfb_region ch" "points ch = points ch0 - cursor_area cursor" by blast+
qed

section \<open>The rectangles of an update\<close>

definition screen_msgs :: "(int \<times> int) set \<Rightarrow> 'p rect_msg list \<Rightarrow> bool" where
  "screen_msgs A ms \<longleftrightarrow> (\<forall>m\<in>set ms. \<not> Rect_is_empty (msg_rect m) \<and> rect_area_of (msg_rect m) \<subseteq> A \<and> \<not> (\<exists>cm. m = CopyMsg cm))"

lemma image_msgs_laws:
  fixes pb :: "'p PixelBuffer"
  assumes "wf_pb pb" "short_rect (getRect pb)" "nat (pb_width pb) + nat (pb_height pb) < fuel"
    and "rfb_region ch" "rfb_region cur" "points ch \<subseteq> rect_area_of (getRect pb)" "points ch \<inter> points cur = {}"
    and "\<not> videoDetected_after fl"
  shows "\<exists>ms. image_msgs fuel fl pb ch cur = Some (Inr ms) \<and> screen_msgs (points ch \<union> points cur) ms
    \<and> (\<Union>m\<in>set ms. rect_area_of (msg_rect m)) = points ch \<union> points cur
    \<and> (\<not> supportsLastRect fl \<longrightarrow> int (length ms) = computeNumRects False (supportsWEBP fl) ch + computeNumRects False (supportsWEBP fl) cur)
    \<and> (\<forall>c p. client_draws (exact (pixels pb) k) ms c p =
          (if p \<in> points cur then k p else if p \<in> points ch then pixels pb p else c p))"
proof -
  let ?s = "pixels pb" and ?w = "supportsWEBP fl" and ?sub = "subrects False (supportsWEBP fl) (getRect pb)"
  obtain ch' rcs where sol: "(if supportsLastRect fl \<and> \<not> supportsQOI fl then writeSolidRects fuel pb ch else Some (Inr (ch, []))) = Some (Inr (ch', rcs))"
    and fi: "finds ?s (points ch) (ch, []) (Some (Inr (ch', rcs)))"
  proof (cases "supportsLastRect fl \<and> \<not> supportsQOI fl")
    case True
    show ?thesis using that True writeSolidRects_finds [OF assms(1,2,4,6,3)] by (auto simp: finds_def)
  next
    case False
    then show ?thesis using that [of ch "[]"] found_refl [of "(ch, [])" ?s "points ch"] assms(4) by (auto simp: finds_def)
  qed
  note fd = finds_draws [OF fi]
  let ?ms = "map (\<lambda>(r, c). SolidMsg r c) rcs @ map ImageMsg (?sub ch') @ map CursorMsg (?sub cur) :: 'p rect_msg list"
  have eq: "image_msgs fuel fl pb ch cur = Some (Inr ?ms)"
    using sol assms(8) by (simp add: image_msgs_def Let_def)
  have n: "int (length ?ms) = computeNumRects False ?w ch + computeNumRects False ?w cur" if "\<not> supportsLastRect fl"
    using that sol computeNumRects_correct [OF assms(4), of ?w "getRect pb"] computeNumRects_correct [OF assms(5), of ?w "getRect pb"] by simp
  have sr: "\<forall>(r, v)\<in>set rcs. rect_area_of r \<noteq> {} \<and> rect_area_of r \<subseteq> points ch" using fi by (auto simp: finds_def found_def)
  have ne: "\<forall>q\<in>set (?sub g). \<not> Rect_is_empty q \<and> rect_area_of q \<subseteq> points g" if "rfb_region g" for g
    using subrects_pieces(1,3) [OF that, of ?w "getRect pb"] by blast
  have sc: "screen_msgs (points ch \<union> points cur) ?ms"
    unfolding screen_msgs_def
  proof
    fix m assume "m \<in> set ?ms"
    then consider (s) r v where "m = SolidMsg r v" "(r, v) \<in> set rcs" | (i) r where "m = ImageMsg r" "r \<in> set (?sub ch')"
      | (k) r where "m = CursorMsg r" "r \<in> set (?sub cur)" by auto
    then show "\<not> Rect_is_empty (msg_rect m) \<and> rect_area_of (msg_rect m) \<subseteq> points ch \<union> points cur \<and> \<not> (\<exists>cm. m = CopyMsg cm)"
    proof cases
      case s
      then show ?thesis using sr rect_area_empty by fastforce
    next
      case i
      then have "\<not> Rect_is_empty r" "rect_area_of r \<subseteq> points ch" using ne [OF fd(3)] fd(2) by auto
      then show ?thesis using i by auto
    next
      case k
      then show ?thesis using ne [OF assms(5)] by auto
    qed
  qed
  have un: "(\<Union>m\<in>set ?ms. rect_area_of (msg_rect m)) = points ch \<union> points cur"
  proof -
    have "(\<Union>m\<in>set ?ms. rect_area_of (msg_rect m)) = (\<Union>(r, v)\<in>set rcs. rect_area_of r) \<union> points ch' \<union> points cur"
      using subrects_pieces(1) [OF assms(5)] subrects_pieces(1) [OF fd(3)] by (simp add: image_Un Un_assoc case_prod_unfold)
    also have "\<dots> = points ch \<union> points cur" using sr fd(2) by fastforce
    finally show ?thesis .
  qed
  have "client_draws (exact ?s k) ?ms c p = (if p \<in> points cur then k p else if p \<in> points ch then ?s p else c p)" for c p
  proof -
    have "client_draws (exact ?s k) ?ms c = overlay (points cur) k (overlay (points ch') ?s (draw_solids rcs c))"
      using subrects_pieces(1) [OF assms(5)] subrects_pieces(1) [OF fd(3)] by (simp add: draw_images draw_solid_msgs)
    moreover have "(\<Union>(r, v)\<in>set rcs. rect_area_of r) \<subseteq> points ch" using sr by fastforce
    ultimately show ?thesis using fd(1) [of c p] fd(2) by (auto simp: overlay_def)
  qed
  then show ?thesis using eq n sc un by blast
qed

section \<open>The lossy region\<close>

text \<open>
  \<open>L\<close> covers every difference between the client's screen \<open>c\<close> and the screen \<open>i\<close> of a client with
  an exact decoder.
\<close>

definition lossy_sound :: "REGION \<Rightarrow> 'p screen \<Rightarrow> 'p screen \<Rightarrow> bool" where
  "lossy_sound L c i \<longleftrightarrow> rfb_region L \<and> (\<forall>p. p \<notin> points L \<longrightarrow> c p = i p)"

lemma short_part:
  assumes "\<not> Rect_is_empty r" "rect_area_of r \<subseteq> area W H" "W \<le> 16384" "H \<le> 16384"
  shows "short_rect r"
proof -
  have "(px (rtl r), py (rtl r)) \<in> area W H" "(px (rbr r) - 1, py (rbr r) - 1) \<in> area W H"
    by (rule subsetD [OF assms(2)], use assms(1) in \<open>simp add: rect_area_of_def Rect_is_empty_def\<close>)+
  then show ?thesis using assms(3,4) by (auto simp: area_def short_rect_def in_short_def)
qed

lemma short_sub:
  assumes "\<not> Rect_is_empty r" "short_rect r" "\<not> Rect_is_empty q" "rect_area_of q \<subseteq> rect_area_of r"
  shows "short_rect q"
proof -
  have "(px (rtl q), py (rtl q)) \<in> rect_area_of r" "(px (rbr q) - 1, py (rbr q) - 1) \<in> rect_area_of r"
    by (rule subsetD [OF assms(4)], use assms(3) in \<open>simp add: rect_area_of_def Rect_is_empty_def\<close>)+
  then show ?thesis using assms(2) by (auto simp: rect_area_of_def short_rect_def in_short_def)
qed

lemma startRect_lossy_sound:
  assumes "lossy_sound L c i" "short_rect (msg_rect m)" "\<not> (\<exists>cm. m = CopyMsg cm)" "decodes lossy s k dec"
  shows "lossy_sound (startRect_lossy lossy m L) (client_draw dec m c) (client_draw (exact s k) m i)"
proof -
  have d: "client_draw f m = overlay (rect_area_of (msg_rect m)) (f m)" for f
    using assms(3) by (cases m) (auto simp: client_draw_def)
  have "rfb_region (startRect_lossy lossy m L)" "points (startRect_lossy lossy m L) =
      (if lossy (msg_rect m) then points L \<union> rect_area_of (msg_rect m) else points L - rect_area_of (msg_rect m))"
    using assms(1,2) by (simp_all add: startRect_lossy_def lossy_sound_def)
  moreover have "dec m = exact s k m" if "\<not> lossy (msg_rect m)" using assms(4) that by (simp add: decodes_def)
  ultimately show ?thesis using assms(1) unfolding lossy_sound_def d by (auto simp: overlay_def split: if_splits)
qed

lemma msgs_lossy_sound:
  assumes "lossy_sound L c i" "screen_msgs A ms" "A \<subseteq> area W H" "W \<le> 16384" "H \<le> 16384" "decodes lossy s k dec"
  shows "lossy_sound (fold (startRect_lossy lossy) ms L) (client_draws dec ms c) (client_draws (exact s k) ms i)"
  using assms(1,2)
proof (induction ms arbitrary: L c i)
  case (Cons m ms)
  have m: "\<not> Rect_is_empty (msg_rect m)" "rect_area_of (msg_rect m) \<subseteq> area W H" "\<not> (\<exists>cm. m = CopyMsg cm)" "screen_msgs A ms"
    using Cons.prems(2) assms(3) by (auto simp: screen_msgs_def)
  show ?case
    using Cons.IH [OF startRect_lossy_sound [OF Cons.prems(1) short_part [OF m(1,2) assms(4,5)] m(3) assms(6)] m(4)]
    by (simp add: client_draws_def)
qed (simp add: client_draws_def)

lemma copies_lossy_sound:
  assumes "lossy_sound (lossyRegion e) c i" "rfb_region cpd" "sent e = []"
    and "short_points (shifted d (points (lossyRegion e)))"
  shows "lossy_sound (lossyRegion (writeCopyRects bpp e cpd d)) (copy_area (points cpd) d c) (copy_area (points cpd) d i)"
  using assms writeCopyRects_lossy [OF assms(2) _ assms(4), of bpp] by (auto simp: lossy_sound_def copy_area_def simp del: split_paired_All)

text \<open>Rectangles without loss leave the lossy region.\<close>

lemma lossless_msgs:
  assumes "\<forall>r. \<not> lossy r" "rfb_region L" "screen_msgs A ms" "A \<subseteq> area W H" "W \<le> 16384" "H \<le> 16384"
  shows "points (fold (startRect_lossy lossy) ms L) = points L - (\<Union>m\<in>set ms. rect_area_of (msg_rect m))"
  using assms(2,3)
proof (induction ms arbitrary: L)
  case (Cons m ms)
  have m: "\<not> Rect_is_empty (msg_rect m)" "rect_area_of (msg_rect m) \<subseteq> area W H" "screen_msgs A ms"
    using Cons.prems(2) assms(4) by (auto simp: screen_msgs_def)
  have "rfb_region (startRect_lossy lossy m L)" "points (startRect_lossy lossy m L) = points L - rect_area_of (msg_rect m)"
    using assms(1) Cons.prems(1) short_part [OF m(1,2) assms(5,6)] by (simp_all add: startRect_lossy_def)
  then show ?case using Cons.IH [OF _ m(3)] by auto
qed simp

section \<open>A whole update\<close>

lemma doUpdate_correct:
  fixes pb :: "'p PixelBuffer"
  assumes "wf_pb pb" "pb_width pb \<le> 16384" "pb_height pb \<le> 16384" "nat (pb_width pb) + nat (pb_height pb) < fuel"
    and "fresh_info ui" "points (ui_changed ui) \<subseteq> rect_area_of (getRect pb)" "ui_copypassed ui = []" "sent e = []"
    and "\<forall>r. cursor = Some r \<longrightarrow> short_rect r"
    and "\<not> videoDetected fl" "\<not> videoDetected_after fl" "\<not> video_mode_available fl" "\<not> watermarkData fl"
    and "lossy_sound (lossyRegion e) c i" "short_points (shifted (ui_copy_delta ui) (points (lossyRegion e)))"
    and "decodes (lossy_rect fl) (pixels pb) k dec"
  shows "\<exists>n ms L. doUpdate fuel fl pb cursor e ui = Some (Inr (n, ms, L))
    \<and> (\<not> supportsLastRect fl \<longrightarrow> n = int (length ms))
    \<and> lossy_sound L (client_draws dec ms c) (client_draws (exact (pixels pb) k) ms i)
    \<and> ((\<forall>r. \<not> lossy_rect fl r) \<longrightarrow> points L =
         points (lossyRegion (writeCopyRects (client_bpp fl) e (ui_copied ui) (ui_copy_delta ui))) - points (ui_changed ui))
    \<and> (\<forall>p. client_draws (exact (pixels pb) k) ms i p =
          (if p \<in> points (ui_changed ui) \<inter> cursor_area cursor then k p else client_update ui (pixels pb) i p))"
proof -
  let ?s = "pixels pb" and ?C = "points (ui_changed ui)"
  define ch0 where "ch0 = Region_assign Region_new (ui_changed ui)"
  obtain cur ch where cc: "split_cursor cursor ch0 = (cur, ch)" by (cases "split_cursor cursor ch0")
  have ch0: "rfb_region ch0" "points ch0 = ?C" and cpd: "rfb_region (ui_copied ui)"
    using assms(5) by (simp_all add: ch0_def fresh_info_def)
  note cur = split_cursor_laws [OF cc ch0(1) assms(9), unfolded ch0(2)]
  have R: "rect_area_of (getRect pb) = area (pb_width pb) (pb_height pb)" by (simp add: getRect_def rect_area_screen)
  have sh: "short_rect (getRect pb)"
    using assms(1-3) by (simp add: wf_pb_def getRect_def short_screen)
  obtain ms where ms: "image_msgs fuel fl pb ch cur = Some (Inr ms)" "screen_msgs (points ch \<union> points cur) ms"
    "(\<Union>m\<in>set ms. rect_area_of (msg_rect m)) = points ch \<union> points cur"
    "\<not> supportsLastRect fl \<longrightarrow> int (length ms) = computeNumRects False (supportsWEBP fl) ch + computeNumRects False (supportsWEBP fl) cur"
    "\<And>c p. client_draws (exact ?s k) ms c p = (if p \<in> points cur then k p else if p \<in> points ch then ?s p else c p)"
    using image_msgs_laws [OF assms(1) sh assms(4) cur(3,1) _ _ assms(11), of k] cur(2,4) assms(6) by blast
  let ?e1 = "writeCopyRects (client_bpp fl) e (ui_copied ui) (ui_copy_delta ui)"
  let ?L = "fold (startRect_lossy (lossy_rect fl)) ms (lossyRegion ?e1)"
  have eq: "doUpdate fuel fl pb cursor e ui = Some (Inr (rect_count fl ui ch cur, map CopyMsg (sent ?e1) @ ms, ?L))"
    using cc ms(1) assms(7,12,13) by (simp add: doUpdate_def Let_def ch0_def)
  have "length (sent ?e1) = numRects (ui_copied ui)"
    using assms(8) length_get_rects [OF cpd] by (simp add: sent_writeCopyRects)
  then have n: "\<not> supportsLastRect fl \<longrightarrow> rect_count fl ui ch cur = int (length (map CopyMsg (sent ?e1) @ ms))"
    using ms(4) assms(7,10,12,13) by (simp add: rect_count_def Let_def)
  have cp: "client_draws f (map CopyMsg (sent ?e1)) c = copy_area (points (ui_copied ui)) (ui_copy_delta ui) c"
    for f :: "'p rect_msg \<Rightarrow> 'p screen" and c
    by (simp add: draw_copies client_copies [OF cpd assms(8)])
  have so: "lossy_sound ?L (client_draws dec (map CopyMsg (sent ?e1) @ ms) c) (client_draws (exact ?s k) (map CopyMsg (sent ?e1) @ ms) i)"
    unfolding client_draws_append cp
    using msgs_lossy_sound [OF copies_lossy_sound [OF assms(14) cpd assms(8,15)] ms(2) _ assms(2,3,16)] cur(2,4) assms(6) R by auto
  have A: "points ch \<union> points cur = ?C" using cur(2,4) by blast
  have "rfb_region (lossyRegion ?e1)" using writeCopyRects_lossy(1) [OF cpd _ assms(15)] assms(14) by (simp add: lossy_sound_def)
  then have ll: "(\<forall>r. \<not> lossy_rect fl r) \<longrightarrow> points ?L = points (lossyRegion ?e1) - ?C"
    using lossless_msgs [OF _ _ ms(2) _ assms(2,3)] ms(3) A assms(6) R by simp
  have "client_draws (exact ?s k) (map CopyMsg (sent ?e1) @ ms) i p =
      (if p \<in> ?C \<inter> cursor_area cursor then k p else client_update ui ?s i p)" for p
    unfolding client_draws_append cp ms(5) using cur(2,4) by (auto simp: client_update_def)
  then show ?thesis using eq n so ll by blast
qed

end
