(* ===== verification/RfbEncoders.thy ===== *)
theory RfbEncoders
  imports RfbUpdate
begin

text \<open>
  The choice of the encoders: EncodeManager::supported and prepareEncoders of
  \<^verbatim>\<open>src/common/rfb/EncodeManager.cxx\<close>, SConnection::setEncodings of
  \<^verbatim>\<open>src/common/rfb/SConnection.cxx\<close>, and the isSupported members of the encoders.
\<close>

section \<open>The code\<close>

datatype EncoderClass =
    encoderRaw
  | encoderRRE
  | encoderHextile
  | encoderTight
  | encoderTightJPEG
  | encoderTightWEBP
  | encoderTightQOI
  | encoderZRLE
  | encoderKasmVideo

record ActiveEncoders =
  encoderSolid :: EncoderClass
  encoderBitmap :: EncoderClass
  encoderBitmapRLE :: EncoderClass
  encoderIndexed :: EncoderClass
  encoderIndexedRLE :: EncoderClass
  encoderFullColour :: EncoderClass

text \<open>What prepareEncoders reads of the parameters of the connection.\<close>

record ConnParams =
  cp_encodings :: "int list"
  cp_bpp :: int
  cp_qualityLevel :: int
  cp_fineQualityLevel :: int
  cp_subsampling :: int
  cp_supportsWEBP :: bool
  cp_supportsQOI :: bool

definition encodingRaw :: int where "encodingRaw = 0"
definition encodingRRE :: int where "encodingRRE = 2"
definition encodingHextile :: int where "encodingHextile = 5"
definition encodingTight :: int where "encodingTight = 7"
definition encodingZRLE :: int where "encodingZRLE = 16"
definition subsampleGray :: int where "subsampleGray = 1"

lemmas encoding_defs = encodingRaw_def encodingRRE_def encodingHextile_def encodingTight_def encodingZRLE_def

definition EncodeManager_supported :: "int \<Rightarrow> bool" where
  "EncodeManager_supported enc \<longleftrightarrow> enc \<in> {encodingRaw, encodingRRE, encodingHextile, encodingZRLE, encodingTight}"

definition preferredEncoding :: "int list \<Rightarrow> int" where
  "preferredEncoding encs = (case find EncodeManager_supported encs of None \<Rightarrow> encodingRaw | Some e \<Rightarrow> e)"

definition supportsEncoding :: "ConnParams \<Rightarrow> int \<Rightarrow> bool" where
  "supportsEncoding cp enc \<longleftrightarrow> enc \<in> set (cp_encodings cp)"

text \<open>\<open>video\<close> tells whether the encoders of the video manager work, which prepareEncoders does not ask.\<close>

fun isSupported :: "bool \<Rightarrow> ConnParams \<Rightarrow> EncoderClass \<Rightarrow> bool" where
  "isSupported video cp encoderRaw = True"
| "isSupported video cp encoderRRE = supportsEncoding cp encodingRRE"
| "isSupported video cp encoderHextile = supportsEncoding cp encodingHextile"
| "isSupported video cp encoderTight = supportsEncoding cp encodingTight"
| "isSupported video cp encoderTightJPEG =
     (if \<not> supportsEncoding cp encodingTight then False
      else if cp_qualityLevel cp \<noteq> -1 then True
      else if cp_fineQualityLevel cp \<noteq> -1 then True
      else if cp_subsampling cp \<noteq> -1 then True
      else False)"
| "isSupported video cp encoderTightWEBP = (if \<not> supportsEncoding cp encodingTight then False else cp_supportsWEBP cp)"
| "isSupported video cp encoderTightQOI = (if \<not> supportsEncoding cp encodingTight then False else cp_supportsQOI cp)"
| "isSupported video cp encoderZRLE = supportsEncoding cp encodingZRLE"
| "isSupported video cp encoderKasmVideo = video"

definition EncoderLossy :: "EncoderClass \<Rightarrow> bool" where
  "EncoderLossy k \<longleftrightarrow> k \<in> {encoderTightJPEG, encoderTightWEBP, encoderKasmVideo}"

text \<open>The first switch: the client's wishes.\<close>

definition wishes :: "(EncoderClass \<Rightarrow> bool) \<Rightarrow> bool \<Rightarrow> bool \<Rightarrow> int \<Rightarrow> ActiveEncoders" where
  "wishes supp high lossy pref =
     (let a = \<lparr>encoderSolid = encoderRaw, encoderBitmap = encoderRaw, encoderBitmapRLE = encoderRaw,
               encoderIndexed = encoderRaw, encoderIndexedRLE = encoderRaw, encoderFullColour = encoderRaw\<rparr>
      in if pref = encodingRRE then a\<lparr>encoderBitmapRLE := encoderRRE, encoderIndexedRLE := encoderRRE\<rparr>
         else if pref = encodingHextile then
           a\<lparr>encoderBitmapRLE := encoderHextile, encoderIndexedRLE := encoderHextile, encoderFullColour := encoderHextile\<rparr>
         else if pref = encodingTight then
           a\<lparr>encoderFullColour :=
               (if supp encoderTightQOI \<and> high then encoderTightQOI
                else if supp encoderTightWEBP \<and> lossy then encoderTightWEBP
                else if supp encoderTightJPEG \<and> lossy then encoderTightJPEG
                else encoderTight),
             encoderIndexed := encoderTight, encoderIndexedRLE := encoderTight,
             encoderBitmap := encoderTight, encoderBitmapRLE := encoderTight\<rparr>
         else if pref = encodingZRLE then
           a\<lparr>encoderFullColour := encoderZRLE, encoderBitmapRLE := encoderZRLE, encoderIndexedRLE := encoderZRLE,
             encoderBitmap := encoderZRLE, encoderIndexed := encoderZRLE\<rparr>
         else a)"

text \<open>The encoders that are still unassigned, in the order of the code.\<close>

definition assign_full :: "(EncoderClass \<Rightarrow> bool) \<Rightarrow> bool \<Rightarrow> bool \<Rightarrow> ActiveEncoders \<Rightarrow> ActiveEncoders" where
  "assign_full supp high lossy a =
     (if encoderFullColour a = encoderRaw then
        a\<lparr>encoderFullColour :=
           (if supp encoderTightQOI \<and> high then encoderTightQOI
            else if supp encoderTightWEBP \<and> lossy then encoderTightWEBP
            else if supp encoderTightJPEG \<and> lossy then encoderTightJPEG
            else if supp encoderZRLE then encoderZRLE
            else if supp encoderTight then encoderTight
            else if supp encoderHextile then encoderHextile
            else encoderFullColour a)\<rparr>
      else a)"

definition assign_indexed :: "(EncoderClass \<Rightarrow> bool) \<Rightarrow> ActiveEncoders \<Rightarrow> ActiveEncoders" where
  "assign_indexed supp a =
     (if encoderIndexed a = encoderRaw then
        a\<lparr>encoderIndexed :=
           (if supp encoderZRLE then encoderZRLE
            else if supp encoderTight then encoderTight
            else if supp encoderHextile then encoderHextile
            else encoderIndexed a)\<rparr>
      else a)"

definition assign_like_indexed :: "ActiveEncoders \<Rightarrow> ActiveEncoders" where
  "assign_like_indexed a =
     (let a3 = (if encoderIndexedRLE a = encoderRaw then a\<lparr>encoderIndexedRLE := encoderIndexed a\<rparr> else a);
          a4 = (if encoderBitmap a3 = encoderRaw then a3\<lparr>encoderBitmap := encoderIndexed a3\<rparr> else a3)
      in if encoderBitmapRLE a4 = encoderRaw then a4\<lparr>encoderBitmapRLE := encoderBitmap a4\<rparr> else a4)"

definition assign_solid :: "(EncoderClass \<Rightarrow> bool) \<Rightarrow> ActiveEncoders \<Rightarrow> ActiveEncoders" where
  "assign_solid supp a =
     (if encoderSolid a = encoderRaw then
        a\<lparr>encoderSolid :=
           (if supp encoderTight then encoderTight
            else if supp encoderRRE then encoderRRE
            else if supp encoderZRLE then encoderZRLE
            else if supp encoderHextile then encoderHextile
            else encoderSolid a)\<rparr>
      else a)"

definition prepareEncoders :: "bool \<Rightarrow> ConnParams \<Rightarrow> bool \<Rightarrow> int \<Rightarrow> ActiveEncoders" where
  "prepareEncoders video cp allowLossy pref =
     (let supp = isSupported video cp;
          high = cp_bpp cp \<ge> 16;
          lossy = (high \<and> allowLossy);
          a0 = wishes supp high lossy pref;
          a1 = assign_full supp high lossy a0;
          a2 = assign_indexed supp a1;
          a5 = assign_like_indexed a2;
          a6 = assign_solid supp a5
      in if cp_subsampling cp = subsampleGray \<and> supp encoderTightJPEG \<and> allowLossy then
           \<lparr>encoderSolid = encoderTightJPEG, encoderBitmap = encoderTightJPEG, encoderBitmapRLE = encoderTightJPEG,
            encoderIndexed = encoderTightJPEG, encoderIndexedRLE = encoderTightJPEG, encoderFullColour = encoderTightJPEG\<rparr>
         else a6)"

section \<open>What the choice guarantees\<close>

definition every_encoder :: "(EncoderClass \<Rightarrow> bool) \<Rightarrow> ActiveEncoders \<Rightarrow> bool" where
  "every_encoder P a \<longleftrightarrow> P (encoderSolid a) \<and> P (encoderBitmap a) \<and> P (encoderBitmapRLE a)
     \<and> P (encoderIndexed a) \<and> P (encoderIndexedRLE a) \<and> P (encoderFullColour a)"

lemma preferred_supported:
  "preferredEncoding (cp_encodings cp) = encodingRaw \<or> supportsEncoding cp (preferredEncoding (cp_encodings cp))"
  by (auto simp: preferredEncoding_def supportsEncoding_def find_Some_iff split: option.splits)

lemma wishes_every:
  assumes "P encoderRaw" "pref = encodingRRE \<longrightarrow> P encoderRRE" "pref = encodingHextile \<longrightarrow> P encoderHextile"
    "pref = encodingTight \<longrightarrow> P encoderTight" "pref = encodingZRLE \<longrightarrow> P encoderZRLE"
    "supp encoderTightQOI \<longrightarrow> P encoderTightQOI" "lossy \<and> supp encoderTightWEBP \<longrightarrow> P encoderTightWEBP"
    "lossy \<and> supp encoderTightJPEG \<longrightarrow> P encoderTightJPEG"
  shows "every_encoder P (wishes supp high lossy pref)"
  using assms by (auto simp: wishes_def every_encoder_def Let_def)

text \<open>The steps after the first switch keep a property of every encoder.\<close>

lemma assign_every:
  assumes "every_encoder P a"
    "\<forall>k\<in>{encoderRRE, encoderHextile, encoderTight, encoderTightQOI, encoderZRLE}. supp k \<longrightarrow> P k"
    "lossy \<longrightarrow> (\<forall>k\<in>{encoderTightWEBP, encoderTightJPEG}. supp k \<longrightarrow> P k)"
    "P encoderRaw"
  shows "every_encoder P (assign_full supp high lossy a)" "every_encoder P (assign_indexed supp a)"
    "every_encoder P (assign_like_indexed a)" "every_encoder P (assign_solid supp a)"
proof -
  have e: "P (encoderSolid a)" "P (encoderBitmap a)" "P (encoderBitmapRLE a)" "P (encoderIndexed a)" "P (encoderIndexedRLE a)"
    "P (encoderFullColour a)" using assms(1) by (simp_all add: every_encoder_def)
  show "every_encoder P (assign_full supp high lossy a)" using assms(2,3) by (simp add: every_encoder_def assign_full_def e assms(4))
  show "every_encoder P (assign_indexed supp a)" using assms(2) by (simp add: every_encoder_def assign_indexed_def e assms(4))
  show "every_encoder P (assign_like_indexed a)" by (simp add: every_encoder_def assign_like_indexed_def Let_def e assms(4))
  show "every_encoder P (assign_solid supp a)" using assms(2) by (simp add: every_encoder_def assign_solid_def e assms(4))
qed

lemma prepareEncoders_every:
  assumes "P encoderRaw" "pref = encodingRRE \<longrightarrow> P encoderRRE" "pref = encodingHextile \<longrightarrow> P encoderHextile"
    "pref = encodingTight \<longrightarrow> P encoderTight" "pref = encodingZRLE \<longrightarrow> P encoderZRLE"
    and w: "\<forall>k\<in>{encoderRRE, encoderHextile, encoderTight, encoderTightQOI, encoderZRLE}. isSupported video cp k \<longrightarrow> P k"
    and l: "allowLossy \<longrightarrow> (\<forall>k\<in>{encoderTightWEBP, encoderTightJPEG}. isSupported video cp k \<longrightarrow> P k)"
  shows "every_encoder P (prepareEncoders video cp allowLossy pref)"
proof -
  let ?supp = "isSupported video cp" and ?l = "16 \<le> cp_bpp cp \<and> allowLossy"
  have l': "?l \<longrightarrow> (\<forall>k\<in>{encoderTightWEBP, encoderTightJPEG}. ?supp k \<longrightarrow> P k)" using l by blast
  have a0: "every_encoder P (wishes ?supp (16 \<le> cp_bpp cp) ?l pref)"
    by (rule wishes_every) (use assms in \<open>simp_all del: isSupported.simps\<close>)
  note a1 = assign_every(1) [OF a0 w l' assms(1)]
  note a2 = assign_every(2) [OF a1 w l' assms(1)]
  note a5 = assign_every(3) [OF a2 w l' assms(1)]
  have "P encoderTightJPEG" if "?supp encoderTightJPEG" "allowLossy" using l that by blast
  then show ?thesis using assign_every(4) [OF a5 w l' assms(1)] by (simp add: prepareEncoders_def Let_def) (simp add: every_encoder_def)
qed

lemma prepareEncoders_supported:
  "every_encoder (isSupported video cp) (prepareEncoders video cp allowLossy (preferredEncoding (cp_encodings cp)))"
  using preferred_supported [of cp] by (intro prepareEncoders_every) (auto simp: encoding_defs)

lemma prepareEncoders_lossless:
  "every_encoder (\<lambda>k. \<not> EncoderLossy k) (prepareEncoders video cp False pref)"
  by (intro prepareEncoders_every) (auto simp: EncoderLossy_def)

end
