(* ===== verification/RfbLossless.thy ===== *)
theory RfbLossless
  imports RfbEncoders "HOL-Library.Multiset"
begin

text \<open>
  The lossless refresh of \<^verbatim>\<open>src/common/rfb/EncodeManager.cxx\<close>: when the screen is quiet, the
  lossy part of the client's screen is sent again, a bounded piece at a time, with encoders that
  lose nothing. The pieces are picked at random; \<open>rnd\<close> gives the value of the n-th rand().

  The sizes are of type size_t. Doubling the limit may wrap; the sums and quotients that follow
  stay below the limit plus the area of one rectangle and do not.
\<close>

section \<open>The code\<close>

definition needsLosslessRefresh :: "EncodeCopy \<Rightarrow> REGION \<Rightarrow> bool" where
  "needsLosslessRefresh e req \<longleftrightarrow> \<not> Region_is_empty (Region_intersect (lossyRegion e) req)"

definition pruneLosslessRefresh :: "EncodeCopy \<Rightarrow> REGION \<Rightarrow> EncodeCopy" where
  "pruneLosslessRefresh e limits = e\<lparr>lossyRegion := Region_assign_intersect (lossyRegion e) limits\<rparr>"

definition cut_rect :: "int \<Rightarrow> Rect \<Rightarrow> Rect" where
  "cut_rect left r =
     (if Rect_width r > Rect_height r
      then r\<lparr>rbr := mkPoint (px (rtl r) + rfbmax 1 (left div Rect_height r)) (py (rbr r))\<rparr>
      else r\<lparr>rbr := mkPoint (px (rbr r)) (py (rtl r) + rfbmax 1 (left div Rect_width r))\<rparr>)"

function refresh_loop :: "(nat \<Rightarrow> nat) \<Rightarrow> nat \<Rightarrow> int \<Rightarrow> int \<Rightarrow> Rect list \<Rightarrow> REGION \<Rightarrow> REGION" where
  "refresh_loop rnd n maxUpdateSize ar rs refresh =
     (if rs = [] then refresh
      else
        let idx = rnd n mod length rs; r = rs ! idx
        in if ar + Rect_area r > maxUpdateSize
           then Region_assign_union refresh (Region_of_rect (cut_rect (maxUpdateSize - ar) r))
           else refresh_loop rnd (n + 1) maxUpdateSize (ar + Rect_area r) (take idx rs @ drop (Suc idx) rs)
                  (Region_assign_union refresh (Region_of_rect r)))"
  by pat_completeness auto
termination
proof (relation "measure (\<lambda>(rnd, n, m, a, rs, g). length rs)")
  fix rnd :: "nat \<Rightarrow> nat" and n idx :: nat and m ar :: int and rs :: "Rect list" and g :: REGION and r :: Rect
  assume "rs \<noteq> []" "idx = rnd n mod length rs"
  then have "idx < length rs" by simp
  then show "((rnd, n + 1, m, ar + Rect_area r, take idx rs @ drop (Suc idx) rs, Region_assign_union g (Region_of_rect r)), rnd, n, m, ar, rs, g)
    \<in> measure (\<lambda>(rnd, n, m, a, rs, g). length rs)" by simp
qed simp

declare refresh_loop.simps [simp del]

definition getLosslessRefresh :: "(nat \<Rightarrow> nat) \<Rightarrow> REGION \<Rightarrow> REGION \<Rightarrow> int \<Rightarrow> REGION" where
  "getLosslessRefresh rnd lossy req maxUpdateSize =
     refresh_loop rnd 0 (maxUpdateSize * 2 mod 2 ^ 64) 0 (get_rects (Region_intersect lossy req) True True) Region_new"

text \<open>None stands for the early return while a video is shown: nothing is sent.\<close>

definition writeLosslessRefresh ::
  "(nat \<Rightarrow> nat) \<Rightarrow> nat \<Rightarrow> encode_flags \<Rightarrow> 'p PixelBuffer \<Rightarrow> Rect option \<Rightarrow> EncodeCopy \<Rightarrow> REGION \<Rightarrow> int
    \<Rightarrow> (pb_error + int \<times> 'p rect_msg list \<times> REGION) option"
where
  "writeLosslessRefresh rnd fuel fl pb cursor e req maxUpdateSize =
     (if videoDetected fl \<or> video_mode_available fl then None
      else doUpdate fuel fl pb cursor e
             \<lparr>ui_changed = getLosslessRefresh rnd (lossyRegion e) req maxUpdateSize, ui_copied = Region_new,
              ui_copy_delta = mkPoint 0 0, ui_copypassed = []\<rparr>)"

section \<open>The piece that is picked\<close>

lemma quotient_laws:
  assumes "(left :: int) < w * h" "0 < h"
  shows "left div h < w" "left div h * h \<le> left"
proof -
  show m: "left div h * h \<le> left" using assms(2) by (simp flip: minus_mod_eq_div_mult)
  show "left div h < w"
  proof (rule ccontr)
    assume "\<not> left div h < w"
    then have "w * h \<le> left div h * h" using assms(2) by simp
    then show False using m assms(1) by simp
  qed
qed

lemma cut_rect_laws:
  assumes "\<not> Rect_is_empty r" "left < Rect_area r"
  shows "\<not> Rect_is_empty (cut_rect left r)" "rect_area_of (cut_rect left r) \<subseteq> rect_area_of r"
    "Rect_area (cut_rect left r) \<le> rfbmax left (rfbmin (Rect_width r) (Rect_height r))"
proof -
  let ?w = "Rect_width r" and ?h = "Rect_height r"
  have p: "0 < ?w" "0 < ?h" using assms(1) by (auto simp: Rect_is_empty_def Rect_width_def Rect_height_def)
  have a: "Rect_area r = ?w * ?h" using assms(1) by (simp add: Rect_area_def Rect_width_def Rect_height_def)
  note qh = quotient_laws [OF assms(2) [unfolded a] p(2)]
  note qw = quotient_laws [OF assms(2) [unfolded a mult.commute [of ?w]] p(1)]
  show "\<not> Rect_is_empty (cut_rect left r)" using p by (auto simp: cut_rect_def Rect_is_empty_def rect_sels rfbmax_def)
  show "rect_area_of (cut_rect left r) \<subseteq> rect_area_of r"
    using p qh(1) qw(1) by (auto simp: cut_rect_def rect_area_of_def rect_sels rfbmax_def split: if_splits)
  show "Rect_area (cut_rect left r) \<le> rfbmax left (rfbmin ?w ?h)"
  proof (cases "?w > ?h")
    case True
    then have "Rect_area (cut_rect left r) = rfbmax 1 (left div ?h) * ?h"
      using p by (auto simp: cut_rect_def Rect_area_def Rect_is_empty_def rect_sels rfbmax_def)
    then show ?thesis using True qh(2) by (auto simp: rfbmax_def rfbmin_def split: if_splits)
  next
    case False
    then have "Rect_area (cut_rect left r) = rfbmax 1 (left div ?w) * ?w"
      using p by (auto simp: cut_rect_def Rect_area_def Rect_is_empty_def rect_sels rfbmax_def)
    then show ?thesis using False qw(2) by (auto simp: rfbmax_def rfbmin_def split: if_splits)
  qed
qed

text \<open>A rule for the loop, over any order in which the rectangles are picked.\<close>

lemma refresh_loop_rule:
  assumes "I ar rs g"
    and step: "\<And>ar rs g r rs'. \<lbrakk>I ar rs g; mset rs = add_mset r (mset rs'); ar + Rect_area r \<le> m\<rbrakk>
      \<Longrightarrow> I (ar + Rect_area r) rs' (Region_assign_union g (Region_of_rect r))"
    and cut: "\<And>ar rs g r rs'. \<lbrakk>I ar rs g; mset rs = add_mset r (mset rs'); ar + Rect_area r > m\<rbrakk>
      \<Longrightarrow> Q (Region_assign_union g (Region_of_rect (cut_rect (m - ar) r)))"
    and last: "\<And>ar g. I ar [] g \<Longrightarrow> Q g"
  shows "Q (refresh_loop rnd n m ar rs g)"
  using assms(1)
proof (induction rs arbitrary: n ar g rule: length_induct)
  case (1 rs)
  show ?case
  proof (cases "rs = []")
    case True
    then show ?thesis using last "1.prems" by (simp add: refresh_loop.simps)
  next
    case False
    let ?i = "rnd n mod length rs"
    let ?r = "rs ! ?i" and ?rs = "take ?i rs @ drop (Suc ?i) rs"
    have i: "?i < length rs" using False by simp
    have m: "mset rs = add_mset ?r (mset ?rs)" using id_take_nth_drop [OF i] by (metis mset.simps(2) mset_append union_mset_add_mset_right)
    show ?thesis
    proof (cases "ar + Rect_area ?r > m")
      case True
      then show ?thesis using cut [OF "1.prems" m] False by (subst refresh_loop.simps) (simp add: Let_def)
    next
      case F2: False
      have "length ?rs < length rs" using i by simp
      then have "Q (refresh_loop rnd (n + 1) m (ar + Rect_area ?r) ?rs (Region_assign_union g (Region_of_rect ?r)))"
        using "1.IH" step [OF "1.prems" m] F2 by simp
      then show ?thesis using False F2 by (subst refresh_loop.simps) (simp add: Let_def)
    qed
  qed
qed

lemma card_rect_area: "int (card (rect_area_of r)) = Rect_area r" "finite (rect_area_of r)"
proof -
  have "rect_area_of r = {px (rtl r)..<px (rbr r)} \<times> {py (rtl r)..<py (rbr r)}" by (auto simp: rect_area_of_def)
  then show "int (card (rect_area_of r)) = Rect_area r" "finite (rect_area_of r)"
    by (auto simp: card_cartesian_product Rect_area_def Rect_is_empty_def)
qed

lemma Rect_area_nonneg: "0 \<le> Rect_area r"
  using card_rect_area(1) [of r] by (metis of_nat_0_le_iff)

text \<open>
  What holds while rectangles are picked from \<open>T\<close>: the piece and the rest make up \<open>T\<close>, and the
  piece has at most \<open>ar\<close> pixels.
\<close>

definition picking :: "(int \<times> int) set \<Rightarrow> int \<Rightarrow> int \<Rightarrow> int \<Rightarrow> int \<Rightarrow> Rect list \<Rightarrow> REGION \<Rightarrow> bool" where
  "picking T S K m ar rs g \<longleftrightarrow> rfb_region g
     \<and> (\<forall>r\<in>set rs. \<not> Rect_is_empty r \<and> short_rect r \<and> rfbmin (Rect_width r) (Rect_height r) \<le> K)
     \<and> points g \<union> (\<Union>r\<in>set rs. rect_area_of r) = T
     \<and> finite (points g) \<and> int (card (points g)) \<le> ar \<and> ar \<le> m \<and> ar + (\<Sum>r\<leftarrow>rs. Rect_area r) = S"

definition picked :: "(int \<times> int) set \<Rightarrow> int \<Rightarrow> int \<Rightarrow> int \<Rightarrow> REGION \<Rightarrow> bool" where
  "picked T S K m g \<longleftrightarrow> rfb_region g \<and> points g \<subseteq> T \<and> (T \<noteq> {} \<longrightarrow> points g \<noteq> {})
     \<and> int (card (points g)) \<le> m + K \<and> (S \<le> m \<longrightarrow> points g = T)"

lemma mset_sum_rects: "mset rs = add_mset r (mset rs') \<Longrightarrow> (\<Sum>r\<leftarrow>rs. Rect_area r) = Rect_area r + (\<Sum>r\<leftarrow>rs'. Rect_area r)"
  by (metis (no_types, lifting) image_mset_add_mset mset_map sum_mset.add_mset sum_mset_sum_list)

lemma mset_set_rects: "mset rs = add_mset r (mset rs') \<Longrightarrow> set rs = insert r (set rs')"
  by (metis set_mset_add_mset_insert set_mset_mset)

lemma picking_step:
  assumes "picking T S K m ar rs g" "mset rs = add_mset r (mset rs')" "ar + Rect_area r \<le> m"
  shows "picking T S K m (ar + Rect_area r) rs' (Region_assign_union g (Region_of_rect r))"
proof -
  note p = assms(1) [unfolded picking_def mset_set_rects [OF assms(2)] mset_sum_rects [OF assms(2)]]
  have u: "rfb_region (Region_assign_union g (Region_of_rect r))" "points (Region_assign_union g (Region_of_rect r)) = points g \<union> rect_area_of r"
    using p by simp_all
  have "int (card (points g \<union> rect_area_of r)) \<le> ar + Rect_area r"
    using card_Un_le [of "points g" "rect_area_of r"] card_rect_area(1) [of r] p by linarith
  then show ?thesis unfolding picking_def u using p u(1) card_rect_area(2) [of r] assms(3) by (auto simp: add.assoc)
qed

lemma picking_cut:
  assumes "picking T S K m ar rs g" "mset rs = add_mset r (mset rs')" "ar + Rect_area r > m" "0 \<le> K"
  shows "picked T S K m (Region_assign_union g (Region_of_rect (cut_rect (m - ar) r)))"
proof -
  note p = assms(1) [unfolded picking_def mset_set_rects [OF assms(2)] mset_sum_rects [OF assms(2)]]
  let ?c = "cut_rect (m - ar) r"
  have r: "\<not> Rect_is_empty r" "short_rect r" "rfbmin (Rect_width r) (Rect_height r) \<le> K" using p by auto
  have c: "\<not> Rect_is_empty ?c" "rect_area_of ?c \<subseteq> rect_area_of r" "Rect_area ?c \<le> m - ar + K"
    using cut_rect_laws [OF r(1), of "m - ar"] assms(3,4) r(3) p by (auto simp: rfbmax_def split: if_splits)
  have u: "rfb_region (Region_assign_union g (Region_of_rect ?c))" "points (Region_assign_union g (Region_of_rect ?c)) = points g \<union> rect_area_of ?c"
    using p short_sub [OF r(1,2) c(1,2)] by simp_all
  have "int (card (points g \<union> rect_area_of ?c)) \<le> m + K"
    using card_Un_le [of "points g" "rect_area_of ?c"] card_rect_area(1) [of ?c] p c(3) by linarith
  moreover have "0 \<le> (\<Sum>r\<leftarrow>rs'. Rect_area r)" using Rect_area_nonneg by (intro sum_list_nonneg) auto
  then have "\<not> S \<le> m" using p assms(3) by linarith
  moreover have "points g \<union> rect_area_of ?c \<subseteq> T" using p c(2) by auto
  ultimately show ?thesis unfolding picked_def u using u(1) rect_corner [OF c(1)] by blast
qed

lemma picking_last: "\<lbrakk>picking T S K m ar [] g; 0 \<le> K\<rbrakk> \<Longrightarrow> picked T S K m g"
  by (auto simp: picking_def picked_def)

lemma getLosslessRefresh_picks:
  assumes "rfb_region L" "rfb_region req" "points L \<inter> points req \<subseteq> area W H" "W \<le> 16384" "H \<le> 16384" "0 \<le> mx" "mx < 2 ^ 63"
  shows "picked (points L \<inter> points req) (int (card (points L \<inter> points req))) (rfbmax 0 (rfbmin W H)) (2 * mx) (getLosslessRefresh rnd L req mx)"
proof -
  let ?g = "Region_intersect L req" and ?T = "points L \<inter> points req"
  let ?rs = "get_rects ?g True True" and ?K = "rfbmax 0 (rfbmin W H)"
  have g: "rfb_region ?g" "points ?g = ?T" using assms(1,2) by simp_all
  note l = get_rects_laws [OF g(1), of True True, unfolded g(2)]
  have K: "short_rect r \<and> rfbmin (Rect_width r) (Rect_height r) \<le> ?K" if "r \<in> set ?rs" for r
  proof -
    have ne: "\<not> Rect_is_empty r" "rect_area_of r \<subseteq> area W H" using l that assms(3) by blast+
    have "(px (rtl r), py (rtl r)) \<in> area W H" "(px (rbr r) - 1, py (rbr r) - 1) \<in> area W H"
      by (rule subsetD [OF ne(2)], use ne(1) in \<open>simp add: rect_area_of_def Rect_is_empty_def\<close>)+
    then have "Rect_width r \<le> W" "Rect_height r \<le> H" "0 < W" "0 < H" by (auto simp: area_def rect_sels)
    then show ?thesis using short_part [OF ne assms(4,5)] by (auto simp: rfbmin_def rfbmax_def)
  qed
  have "(\<Sum>r\<leftarrow>rs. Rect_area r) = int (card (\<Union>r\<in>set rs. rect_area_of r))" if "sorted_wrt disjoint_areas rs" for rs
    using that
  proof (induction rs)
    case (Cons r rs)
    have "rect_area_of r \<inter> (\<Union>q\<in>set rs. rect_area_of q) = {}" using Cons.prems by (auto simp: disjoint_areas_def)
    then have "card (rect_area_of r \<union> (\<Union>q\<in>set rs. rect_area_of q)) = card (rect_area_of r) + card (\<Union>q\<in>set rs. rect_area_of q)"
      using card_rect_area(2) by (intro card_Un_disjoint) auto
    then show ?case using Cons card_rect_area(1) [of r] by simp
  qed simp
  moreover have "sorted_wrt disjoint_areas ?rs"
    by (rule sorted_wrt_imp [OF l(2)]) (fastforce simp: disjoint_areas_def precedes_def rect_area_of_def split: if_splits)
  ultimately have S: "(\<Sum>r\<leftarrow>?rs. Rect_area r) = int (card ?T)" using l(1) by simp
  have "picking ?T (int (card ?T)) ?K (2 * mx) 0 ?rs Region_new"
    using l(1,3) K S assms(6) by (simp add: picking_def)
  moreover have "0 \<le> ?K" by (simp add: rfbmax_def)
  moreover have "mx * 2 mod 2 ^ 64 = 2 * mx" using assms(6,7) by simp
  ultimately show ?thesis unfolding getLosslessRefresh_def
    by (simp only:) (rule refresh_loop_rule [where I = "picking ?T (int (card ?T)) ?K (2 * mx)"],
      (assumption | erule (2) picking_step | erule (3) picking_cut | erule (1) picking_last)+)
qed

section \<open>Refreshing until nothing is lossy\<close>

text \<open>What an up to date client shows: the server's screen \<open>s\<close>, and the rendered cursor.\<close>

definition shown :: "Rect option \<Rightarrow> 'p screen \<Rightarrow> 'p screen \<Rightarrow> 'p screen" where
  "shown cursor s k = (\<lambda>p. if p \<in> cursor_area cursor then k p else s p)"

text \<open>At most \<open>n\<close> refreshes of a quiet screen, as long as one is needed.\<close>

fun lossless_refreshes ::
  "nat \<Rightarrow> (nat \<Rightarrow> nat \<Rightarrow> nat) \<Rightarrow> nat \<Rightarrow> encode_flags \<Rightarrow> 'p PixelBuffer \<Rightarrow> Rect option \<Rightarrow> EncodeCopy \<Rightarrow> REGION \<Rightarrow> int
    \<Rightarrow> ('p rect_msg \<Rightarrow> 'p screen) \<Rightarrow> 'p screen \<Rightarrow> (EncodeCopy \<times> 'p screen) option"
where
  "lossless_refreshes 0 rnds fuel fl pb cursor e req mx dec c = Some (e, c)"
| "lossless_refreshes (Suc n) rnds fuel fl pb cursor e req mx dec c =
     (if \<not> needsLosslessRefresh e req then Some (e, c)
      else (case writeLosslessRefresh (rnds n) fuel fl pb cursor e req mx of
              Some (Inr (_, ms, L)) \<Rightarrow>
                lossless_refreshes n rnds fuel fl pb cursor (e\<lparr>lossyRegion := L\<rparr>) req mx dec (client_draws dec ms c)
            | _ \<Rightarrow> None))"

text \<open>The encoder of every rectangle is one of the active ones.\<close>

definition uses_encoders :: "encode_flags \<Rightarrow> ActiveEncoders \<Rightarrow> bool" where
  "uses_encoders fl a \<longleftrightarrow> (\<forall>r. lossy_rect fl r \<longrightarrow> \<not> every_encoder (\<lambda>k. \<not> EncoderLossy k) a)"

definition at_rest :: "'p PixelBuffer \<Rightarrow> nat \<Rightarrow> encode_flags \<Rightarrow> Rect option \<Rightarrow> int \<Rightarrow> bool" where
  "at_rest pb fuel fl cursor mx \<longleftrightarrow> wf_pb pb \<and> pb_width pb \<le> 16384 \<and> pb_height pb \<le> 16384 \<and> nat (pb_width pb) + nat (pb_height pb) < fuel
     \<and> (\<forall>r. cursor = Some r \<longrightarrow> short_rect r) \<and> 0 \<le> mx \<and> mx < 2 ^ 63
     \<and> \<not> videoDetected fl \<and> \<not> videoDetected_after fl \<and> \<not> video_mode_available fl \<and> \<not> watermarkData fl
     \<and> (\<exists>video cp pref. uses_encoders fl (prepareEncoders video cp False pref))"

lemma at_rest_lossless: "at_rest pb fuel fl cursor mx \<Longrightarrow> \<forall>r. \<not> lossy_rect fl r"
  using prepareEncoders_lossless by (auto simp: at_rest_def uses_encoders_def)

lemma screen_rect: "rect_area_of (getRect pb) = area (pb_width pb) (pb_height pb)"
  by (simp add: getRect_def rect_area_screen)

lemma lossless_step:
  fixes pb :: "'p PixelBuffer"
  assumes q: "at_rest pb fuel fl cursor mx" and "decodes (lossy_rect fl) (pixels pb) k dec" "sent e = []" "rfb_region req"
    and "lossy_sound (lossyRegion e) c i" "points (lossyRegion e) \<subseteq> rect_area_of (getRect pb)"
    and "\<forall>p\<in>rect_area_of (getRect pb). i p = shown cursor (pixels pb) k p"
  shows "\<exists>m ms L. writeLosslessRefresh rnd fuel fl pb cursor e req mx = Some (Inr (m, ms, L))
    \<and> lossy_sound L (client_draws dec ms c) (client_draws (exact (pixels pb) k) ms i)
    \<and> (\<forall>p\<in>rect_area_of (getRect pb). client_draws (exact (pixels pb) k) ms i p = shown cursor (pixels pb) k p)
    \<and> (\<exists>G \<subseteq> points (lossyRegion e) \<inter> points req. points L = points (lossyRegion e) - G
         \<and> (points (lossyRegion e) \<inter> points req \<noteq> {} \<longrightarrow> G \<noteq> {}))"
proof -
  note q' = q [unfolded at_rest_def]
  let ?L = "lossyRegion e" and ?s = "pixels pb"
  let ?g = "getLosslessRefresh rnd ?L req mx"
  let ?ui = "\<lparr>ui_changed = ?g, ui_copied = Region_new, ui_copy_delta = mkPoint 0 0, ui_copypassed = []\<rparr>"
  have L: "rfb_region ?L" using assms(5) by (simp add: lossy_sound_def)
  have T: "points ?L \<inter> points req \<subseteq> area (pb_width pb) (pb_height pb)" using assms(6) screen_rect by blast
  have g: "rfb_region ?g" "points ?g \<subseteq> points ?L \<inter> points req" "points ?L \<inter> points req \<noteq> {} \<longrightarrow> points ?g \<noteq> {}"
    using getLosslessRefresh_picks [OF L assms(4) T] q' by (auto simp: picked_def)
  have sh: "short_points (shifted (mkPoint 0 0) (points ?L))"
    using area_short [of "points ?L"] assms(6) q' by (simp add: shifted_def mkPoint_def screen_rect)
  have cp: "points (lossyRegion (writeCopyRects (client_bpp fl) e Region_new (mkPoint 0 0))) = points ?L"
    using writeCopyRects_lossy(2) [OF _ L sh, of Region_new] by simp
  have "fresh_info ?ui" "points (ui_changed ?ui) \<subseteq> rect_area_of (getRect pb)" "ui_copypassed ?ui = []"
    using g(1,2) assms(6) by (auto simp: fresh_info_def)
  then obtain n ms L' where d: "doUpdate fuel fl pb cursor e ?ui = Some (Inr (n, ms, L'))"
    "lossy_sound L' (client_draws dec ms c) (client_draws (exact ?s k) ms i)" "points L' = points ?L - points ?g"
    "\<forall>p. client_draws (exact ?s k) ms i p = (if p \<in> points ?g \<inter> cursor_area cursor then k p else client_update ?ui ?s i p)"
    using doUpdate_correct [of pb fuel ?ui e cursor fl c i k dec] q' assms(2,3,5) sh at_rest_lossless [OF q] cp by auto
  have "writeLosslessRefresh rnd fuel fl pb cursor e req mx = Some (Inr (n, ms, L'))"
    using d(1) q' by (simp add: writeLosslessRefresh_def)
  moreover have "\<forall>p\<in>rect_area_of (getRect pb). client_draws (exact ?s k) ms i p = shown cursor ?s k p"
    using d(4) assms(7) by (auto simp: client_update_def shown_def copy_area_def)
  ultimately show ?thesis using d(2,3) g(2,3) by blast
qed

lemma lossless_converges:
  fixes pb :: "'p PixelBuffer"
  assumes q: "at_rest pb fuel fl cursor mx" and "decodes (lossy_rect fl) (pixels pb) k dec" "sent e = []" "rfb_region req"
    and "lossy_sound (lossyRegion e) c i" "points (lossyRegion e) \<subseteq> rect_area_of (getRect pb)"
    and "\<forall>p\<in>rect_area_of (getRect pb). i p = shown cursor (pixels pb) k p"
    and "card (points (lossyRegion e) \<inter> points req) \<le> n"
  shows "\<exists>e' c'. lossless_refreshes n rnds fuel fl pb cursor e req mx dec c = Some (e', c')
    \<and> points (lossyRegion e') = points (lossyRegion e) - points req
    \<and> (\<forall>p\<in>rect_area_of (getRect pb). p \<notin> points (lossyRegion e') \<longrightarrow> c' p = shown cursor (pixels pb) k p)"
  using assms(3,5-8)
proof (induction n arbitrary: e c i)
  case 0
  have "finite (points (lossyRegion e))" using 0(3) card_rect_area(2) finite_subset by blast
  then have "points (lossyRegion e) \<inter> points req = {}" using 0(5) by simp
  then show ?case using 0 by (auto simp: lossy_sound_def)
next
  case (Suc n)
  let ?L = "lossyRegion e"
  have L: "rfb_region ?L" using Suc.prems(2) by (simp add: lossy_sound_def)
  have fin: "finite (points ?L)" using Suc.prems(3) card_rect_area(2) finite_subset by blast
  show ?case
  proof (cases "needsLosslessRefresh e req")
    case False
    then have "points ?L \<inter> points req = {}" using L assms(4) by (simp add: needsLosslessRefresh_def)
    then show ?thesis using False Suc.prems by (auto simp: lossy_sound_def)
  next
    case True
    then have ne: "points ?L \<inter> points req \<noteq> {}" using L assms(4) by (simp add: needsLosslessRefresh_def)
    obtain m ms L' G where s: "writeLosslessRefresh (rnds n) fuel fl pb cursor e req mx = Some (Inr (m, ms, L'))"
      "lossy_sound L' (client_draws dec ms c) (client_draws (exact (pixels pb) k) ms i)"
      "\<forall>p\<in>rect_area_of (getRect pb). client_draws (exact (pixels pb) k) ms i p = shown cursor (pixels pb) k p"
      "G \<subseteq> points ?L \<inter> points req" "points L' = points ?L - G" "G \<noteq> {}"
      using lossless_step [OF assms(1,2) Suc.prems(1) assms(4) Suc.prems(2-4), of "rnds n"] ne by blast
    have "points L' \<inter> points req \<subset> points ?L \<inter> points req" using s(4-6) by blast
    then have "card (points L' \<inter> points req) < card (points ?L \<inter> points req)" using fin by (intro psubset_card_mono) auto
    then have "card (points L' \<inter> points req) \<le> n" using Suc.prems(5) by simp
    then show ?thesis
      using Suc.IH [of "e\<lparr>lossyRegion := L'\<rparr>", OF _ _ _ s(3)] s(1,2,4,5) Suc.prems(1,3) True by fastforce
  qed
qed

end
