(* ===== verification/DisplayProps.thy ===== *)
theory DisplayProps
  imports RfbLossless
begin

text \<open>
  The properties of the display path: from what the X server reports about the screen, through
  the update trackers, to the rectangles that are sent and what the client makes of them.
\<close>

section \<open>Regions and rectangles\<close>

text \<open>
  Every operation of the region class keeps its regions well formed: banded, coalesced,
  with exact extents and within their allocation.
\<close>

theorem region_class_well_formed:
  assumes "rfb_region a" "rfb_region b" "short_rect r" "short_points (shifted d (points a))"
  shows "rfb_region (Region_of_rect r) \<and> rfb_region (Region_copy a) \<and> rfb_region (Region_assign a b)
    \<and> rfb_region (Region_clear a) \<and> rfb_region (Region_reset a r) \<and> rfb_region (Region_translate a d)
    \<and> rfb_region (Region_assign_union a b) \<and> rfb_region (Region_assign_intersect a b) \<and> rfb_region (Region_assign_subtract a b)
    \<and> rfb_region (Region_union a b) \<and> rfb_region (Region_intersect a b) \<and> rfb_region (Region_subtract a b)"
  using assms by simp

theorem region_class_well_formed_witness:
  "rfb_region (Region_union (Region_of_rect (mkRect 0 0 10 10)) (Region_of_rect (mkRect 5 5 20 20)))"
proof -
  let ?r = "mkRect 0 0 10 10" and ?q = "mkRect 5 5 20 20"
  have s: "short_rect ?r" "short_rect ?q" by (simp_all add: short_rect_def rect_sels in_short_def)
  have "short_points (shifted (mkPoint 3 4) (points (Region_of_rect ?r)))"
    using s(1) by (auto simp: shifted_def short_points_def rect_area_of_def rect_sels)
  then show ?thesis
    using region_class_well_formed [of "Region_of_rect ?r" "Region_of_rect ?q" ?r "mkPoint 3 4"] s by simp
qed

text \<open>
  C23. get\_rects cuts a region into non-empty rectangles that cover it, in the order asked for:
  a rectangle above or beside another one comes before it or after it as the flags say. Copies
  made in that order never overwrite a source that is still needed.
\<close>

theorem get_rects_copy_order:
  assumes "rfb_region x"
  shows "(\<Union>r\<in>set (get_rects x (px d \<le> 0) (py d \<le> 0)). rect_area_of r) = points x
    \<and> (\<forall>r\<in>set (get_rects x (px d \<le> 0) (py d \<le> 0)). \<not> Rect_is_empty r)
    \<and> (\<forall>i j. i < j \<and> j < length (get_rects x (px d \<le> 0) (py d \<le> 0)) \<longrightarrow>
         (\<forall>p\<in>rect_area_of (get_rects x (px d \<le> 0) (py d \<le> 0) ! j).
            from_src d p \<notin> rect_area_of (get_rects x (px d \<le> 0) (py d \<le> 0) ! i)))
    \<and> fold (\<lambda>r. copy_area (rect_area_of r) d) (get_rects x (px d \<le> 0) (py d \<le> 0)) s = copy_area (points x) d s"
proof -
  note l = get_rects_laws [OF assms, of "px d \<le> 0" "py d \<le> 0"]
  have "\<forall>i j. i < j \<and> j < length (get_rects x (px d \<le> 0) (py d \<le> 0)) \<longrightarrow>
      (\<forall>p\<in>rect_area_of (get_rects x (px d \<le> 0) (py d \<le> 0) ! j).
         from_src d p \<notin> rect_area_of (get_rects x (px d \<le> 0) (py d \<le> 0) ! i))"
    using l(2) source_not_destroyed unfolding sorted_wrt_iff_nth_less by blast
  then show ?thesis using l copies_in_order [OF l(2), of s] by simp
qed

theorem get_rects_copy_order_witness:
  "fold (\<lambda>r. copy_area (rect_area_of r) (mkPoint 1 (- 1)))
     (get_rects (Region_of_rect (mkRect 0 0 10 10)) False True) (\<lambda>(x, y). x + 100 * y) (3, 4) = (502 :: int)"
proof -
  have s: "short_rect (mkRect 0 0 10 10)" by (simp add: short_rect_def rect_sels in_short_def)
  have d: "(px (mkPoint 1 (- 1)) \<le> 0) = False" "(py (mkPoint 1 (- 1)) \<le> 0) = True" by (simp_all add: mkPoint_def)
  have "fold (\<lambda>r. copy_area (rect_area_of r) (mkPoint 1 (- 1))) (get_rects (Region_of_rect (mkRect 0 0 10 10)) False True) (\<lambda>(x, y). x + 100 * y)
      = copy_area (points (Region_of_rect (mkRect 0 0 10 10))) (mkPoint 1 (- 1)) (\<lambda>(x, y). x + 100 * y)"
    using get_rects_copy_order [of "Region_of_rect (mkRect 0 0 10 10)" "mkPoint 1 (- 1)" "\<lambda>(x, y). x + 100 * y"] s unfolding d by simp
  then show ?thesis using s by (simp add: copy_area_def from_src_def rect_area_of_def rect_sels)
qed

section \<open>Trackers\<close>

text \<open>
  C10. The tracker never forgets a change: after any sequence of drawing and copying that is
  reported to it, in any order and with overlapping copies, the screen outside its changed
  region is what the client gets by making the one copy it keeps.
\<close>

theorem tracker_follows_screen:
  assumes "W \<le> 16384" "H \<le> 16384" "\<forall>p\<in>area W H. s p = c p" "\<forall>x\<in>set ops. op_on_screen W H x"
  shows "tracks W H (fold (report_op add_changed add_copied) ops (SimpleUpdateTracker_new copyrect)) (fold apply_op ops s) c"
proof -
  have "tracks W H (SimpleUpdateTracker_new copyrect) s c"
    using assms(1-3) by (simp add: tracks_def SimpleUpdateTracker_new_def copy_area_def src_area_def)
  then show ?thesis by (rule simple.ops_law [OF _ assms(4)])
qed

definition sample_ops :: "nat screen_op list" where
  "sample_ops = [Draw (Region_of_rect (mkRect 0 0 2 2)) (\<lambda>_. 7), Copy (Region_of_rect (mkRect 1 1 3 3)) (mkPoint 1 1),
     Copy (Region_of_rect (mkRect 4 4 6 6)) (mkPoint 3 3)]"

lemma sample_ops_on_screen: "\<forall>x\<in>set sample_ops. op_on_screen 10 10 x" "\<forall>x\<in>set sample_ops. op_anywhere x"
proof -
  have "short_rect (mkRect 0 0 2 2)" "short_rect (mkRect 1 1 3 3)" "short_rect (mkRect 4 4 6 6)"
    by (simp_all add: short_rect_def rect_sels in_short_def)
  then show "\<forall>x\<in>set sample_ops. op_on_screen 10 10 x" "\<forall>x\<in>set sample_ops. op_anywhere x"
    by (auto simp: sample_ops_def area_def src_area_def rect_area_of_def rect_sels)
qed

theorem tracker_follows_screen_witness:
  "tracks 10 10 (fold (report_op add_changed add_copied) sample_ops (SimpleUpdateTracker_new True)) (fold apply_op sample_ops (\<lambda>_. 1)) (\<lambda>_. 1)"
  using tracker_follows_screen [of 10 10 "\<lambda>_. 1" "\<lambda>_. 1" sample_ops True] sample_ops_on_screen(1) by simp

text \<open>
  C21. The clipping tracker makes this safe for regions and copies that reach beyond the
  screen: what is outside is dropped, and a pixel copied from outside becomes a change.
\<close>

theorem clipping_tracker_follows_screen:
  assumes "0 \<le> W" "0 \<le> H" "W \<le> 16384" "H \<le> 16384" "\<forall>p\<in>area W H. s p = c p" "\<forall>x\<in>set ops. op_anywhere x"
  shows "tracks W H (fold (report_op (Clipping_add_changed add_changed (mkRect 0 0 W H))
      (Clipping_add_copied add_changed add_copied (mkRect 0 0 W H))) ops (SimpleUpdateTracker_new copyrect)) (fold apply_op ops s) c"
proof -
  have "tracks W H (SimpleUpdateTracker_new copyrect) s c"
    using assms(3-5) by (simp add: tracks_def SimpleUpdateTracker_new_def copy_area_def src_area_def)
  then show ?thesis by (rule simple.clipping_ops_law [OF assms(1,2) _ assms(6)])
qed

theorem clipping_tracker_follows_screen_witness:
  "tracks 3 3 (fold (report_op (Clipping_add_changed add_changed (mkRect 0 0 3 3))
      (Clipping_add_copied add_changed add_copied (mkRect 0 0 3 3))) sample_ops (SimpleUpdateTracker_new True))
    (fold apply_op sample_ops (\<lambda>_. 1)) (\<lambda>_. 1)"
  using clipping_tracker_follows_screen [of 3 3 "\<lambda>_. 1" "\<lambda>_. 1" sample_ops True] sample_ops_on_screen(2) by simp

text \<open>
  Trackers compose: copying what one tracker knows into another one, which is how changes
  collected for all clients reach each connection, gives a tracker from the second one's start
  to the first one's end.
\<close>

theorem copyTo_composes:
  assumes "tracks W H a s m" "tracks W H t m c"
  shows "tracks W H (copyTo add_changed add_copied a t) s c"
  by (rule simple.copyTo_law [OF assms])

theorem copyTo_composes_witness:
  "tracks 10 10 (copyTo add_changed add_copied (fold (report_op add_changed add_copied) sample_ops (SimpleUpdateTracker_new True))
     (SimpleUpdateTracker_new True)) (fold apply_op sample_ops (\<lambda>_. 1)) (\<lambda>_. 1)"
proof -
  have s: "tracks 10 10 (SimpleUpdateTracker_new True) (\<lambda>_. 1 :: nat) (\<lambda>_. 1)"
    by (simp add: tracks_def SimpleUpdateTracker_new_def copy_area_def src_area_def)
  from copyTo_composes [OF simple.ops_law [OF s sample_ops_on_screen(1)] s] show ?thesis .
qed

section \<open>Updates\<close>




text \<open>
  C22. Serving a request and forgetting it keeps the tracker right when the request covers the
  copied region: the tracker then knows the way from the client's new screen to the server's.
\<close>

theorem served_request_forgotten:
  assumes "tracks W H t s c" "fresh_info ui" "rfb_region cl" "getUpdateInfo t ui cl = (t', ui')"
    and "points (copied t) \<subseteq> points cl \<union> points (changed t)"
  shows "tracks W H (tracker_subtract t' cl) s (client_update ui' s c)"
  by (rule subtract_tracks [OF assms])

definition sample_screen :: "nat PixelBuffer" where
  "sample_screen = \<lparr>pb_width = 2, pb_height = 1, pb_stride = 2, pb_data = [5, 6]\<rparr>"

definition sample_flags :: encode_flags where
  "sample_flags = \<lparr>supportsLastRect = False, supportsQOI = False, supportsWEBP = True, client_bpp = 32, watermarkData = False,
     sendWatermark = False, video_mode_available = False, videoDetected = False, videoDetected_after = False,
     updateVideo = None, lossy_rect = (\<lambda>_. False)\<rparr>"

definition sample_encoder :: "REGION \<Rightarrow> EncodeCopy" where
  "sample_encoder L = \<lparr>lossyRegion = L, copyStats = \<lparr>st_rects = 0, st_pixels = 0, st_equivalent = 0\<rparr>, sent = []\<rparr>"

definition no_info :: UpdateInfo where
  "no_info = \<lparr>ui_changed = Region_new, ui_copied = Region_new, ui_copy_delta = mkPoint 0 0, ui_copypassed = []\<rparr>"

abbreviation left_pixel :: REGION where
  "left_pixel \<equiv> Region_of_rect (mkRect 0 0 1 1)"

abbreviation both_pixels :: REGION where
  "both_pixels \<equiv> Region_of_rect (mkRect 0 0 2 1)"

lemma sample_rects:
  "short_rect (mkRect 0 0 1 1)" "short_rect (mkRect 0 0 2 1)" "fresh_info no_info" "ui_copypassed no_info = []" "sent (sample_encoder L) = []"
  by (simp_all add: short_rect_def rect_sels in_short_def fresh_info_def no_info_def sample_encoder_def)

lemma sample_screen_wf:
  "wf_pb sample_screen" "pb_width sample_screen = 2" "pb_height sample_screen = 1" "rect_area_of (getRect sample_screen) = area 2 1"
  by (simp_all add: wf_pb_def sample_screen_def screen_rect)

lemma sample_pixels: "p \<in> area 2 1 \<Longrightarrow> p = (0, 0) \<or> p = (1, 0)"
  by (cases p) (auto simp: area_def)


text \<open>A screen of three pixels; the server copies the first two one to the right.\<close>

abbreviation abx :: "int \<times> int \<Rightarrow> string" where
  "abx p \<equiv> (if p = (0, 0) then ''a'' else if p = (1, 0) then ''b'' else ''x'')"

abbreviation aab :: "int \<times> int \<Rightarrow> string" where
  "aab p \<equiv> (if p = (0, 0) then ''a'' else if p = (1, 0) then ''a'' else ''b'')"

definition copied_right :: SimpleUpdateTracker where
  "copied_right = add_copied (SimpleUpdateTracker_new True) (Region_of_rect (mkRect 1 0 3 1)) (mkPoint 1 0)"

lemma tiny_rects:
  "short_rect (mkRect 1 0 3 1)" "short_rect (mkRect 1 0 2 1)" "short_rect (mkRect 0 0 3 1)"
  "rect_area_of (mkRect 1 0 3 1) = {(1, 0), (2, 0)}" "rect_area_of (mkRect 1 0 2 1) = {(1, 0)}"
  "rect_area_of (mkRect 0 0 3 1) = {(0, 0), (1, 0), (2, 0)}" "area 3 1 = {(0, 0), (1, 0), (2, 0)}"
  by (auto simp: short_rect_def rect_sels in_short_def rect_area_of_def area_def)

lemma copied_right_tracks: "tracks 3 1 copied_right aab abx"
proof -
  have "tracks 3 1 (SimpleUpdateTracker_new True) abx abx"
    by (simp add: tracks_def SimpleUpdateTracker_new_def copy_area_def src_area_def)
  moreover have "src_area (mkPoint 1 0) {(1, 0), (2, 0)} \<subseteq> {(0, 0), (1, 0), (2, 0)}" by (auto simp: src_area_def mkPoint_def)
  moreover have "\<forall>p\<in>area 3 1. aab p = copy_area {(1, 0), (2, 0)} (mkPoint 1 0) abx p"
    unfolding tiny_rects(7) by (simp add: copy_area_def from_src_def mkPoint_def)
  ultimately show ?thesis
    unfolding copied_right_def by (intro tracks_copied [where s = abx]) (simp_all add: tiny_rects)
qed

lemma copied_right_points:
  "points (copied copied_right) = {(1, 0), (2, 0)}" "points (changed copied_right) = {}" "copy_delta copied_right = mkPoint 1 0"
  "rfb_region (copied copied_right)" "rfb_region (changed copied_right)"
proof -
  let ?d = "Region_of_rect (mkRect 1 0 3 1)"
  have d: "rfb_region ?d" "points ?d = {(1, 0), (2, 0)}" by (simp_all add: tiny_rects)
  have sh: "short_points (shifted (Point_negate (mkPoint 1 0)) (points ?d))"
    unfolding d(2) by (auto simp: shifted_def short_points_def mkPoint_def Point_negate_def)
  have "Rect_area (get_bounding_rect Region_new) = 0"
    by (simp add: get_bounding_rect_def Region_new_def nullBox_def mkBox_def rect_sels Rect_area_def)
  then have "\<not> Rect_area (get_bounding_rect Region_new) > Rect_area (get_bounding_rect ?d)"
    using Rect_area_nonneg [of "get_bounding_rect ?d"] by linarith
  then show "points (copied copied_right) = {(1, 0), (2, 0)}" "points (changed copied_right) = {}" "copy_delta copied_right = mkPoint 1 0"
    "rfb_region (copied copied_right)" "rfb_region (changed copied_right)"
    using d sh by (auto simp: copied_right_def add_copied_def SimpleUpdateTracker_new_def Let_def shifted_def short_points_def)
qed

theorem served_request_forgotten_witness:
  "tracks 3 1 (tracker_subtract (fst (getUpdateInfo copied_right no_info (Region_of_rect (mkRect 0 0 3 1)))) (Region_of_rect (mkRect 0 0 3 1)))
     aab (client_update (snd (getUpdateInfo copied_right no_info (Region_of_rect (mkRect 0 0 3 1)))) aab abx)"
  by (rule served_request_forgotten [OF copied_right_tracks])
    (simp_all add: tiny_rects sample_rects copied_right_points prod_eq_iff)


lemma same_points_count:
  assumes "rfb_region a" "rfb_region b" "points a = points b"
  shows "numRects a = numRects b"
proof -
  have w: "wf_region a" "wf_region b" using assms(1,2) by (simp_all add: rfb_region_def)
  have "XEqualRegion a b" using XEqualRegion_iff_points [OF w] assms(3) by simp
  then have "boxes a = boxes b" using XEqualRegion_iff_boxes [OF w] by simp
  then show ?thesis using length_boxes [OF w(1)] length_boxes [OF w(2)] by simp
qed

lemma no_rects: "numRects Region_new = 0" "get_rects Region_new l2r td = []"
  using length_get_rects [OF rfb_region_new(1), of l2r td] by (simp_all only: Region_new_def REGION.simps length_0_conv)

text \<open>
  C40. While a video is shown and the client takes neither WebP nor an end marker, doUpdate sends
  the whole screen as one rectangle but announces one rectangle for each rectangle of the
  changed region: the header is right for exactly one.
\<close>

theorem video_frame_count:
  assumes "videoDetected fl" "videoDetected_after fl" "\<not> video_mode_available fl" "\<not> supportsWEBP fl" "\<not> supportsLastRect fl"
    "\<not> watermarkData fl" "fresh_info ui" "ui_copypassed ui = []" "sent e = []"
  shows "\<exists>n ms L. doUpdate fuel fl pb None e ui = Some (Inr (n, ms, L))
    \<and> int (length ms) = int (numRects (ui_copied ui)) + 1
    \<and> n = int (numRects (ui_copied ui)) + int (length (get_rects (ui_changed ui) True True))"
proof -
  have cp: "rfb_region (ui_copied ui)" "rfb_region (ui_changed ui)" using assms(7) by (simp_all add: fresh_info_def)
  have n: "computeNumRects True False g = int (length (get_rects g True True))" for g
    by (simp add: computeNumRects_def no_split_def sum_list_triv)
  have s: "subrects True False r g = [r]" for r g by (simp add: subrects_def split_rect_def no_split_def)
  let ?ch = "Region_assign Region_new (ui_changed ui)"
  have "length (get_rects ?ch True True) = length (get_rects (ui_changed ui) True True)"
    using same_points_count [of ?ch "ui_changed ui"] length_get_rects [of ?ch] length_get_rects [OF cp(2)] cp(2) by simp
  then show ?thesis
    using assms length_get_rects [OF cp(1)] no_rects
    by (simp add: doUpdate_def Let_def split_cursor_def image_msgs_def rect_count_def n s sent_writeCopyRects)
qed

theorem video_frame_count_witness:
  "\<exists>n ms L. doUpdate 0 (sample_flags\<lparr>supportsWEBP := False, videoDetected := True, videoDetected_after := True\<rparr>) sample_screen None
      (sample_encoder Region_new) no_info = Some (Inr (n, ms, L)) \<and> length ms = 1 \<and> n = 0"
  using video_frame_count [of "sample_flags\<lparr>supportsWEBP := False, videoDetected := True, videoDetected_after := True\<rparr>" no_info
      "sample_encoder Region_new" 0 sample_screen] sample_rects no_rects by (simp add: sample_flags_def no_info_def)

section \<open>Lossless refresh\<close>

text \<open>
  C25. While nothing is drawn, lossless refreshes of the requested region, each of which sends a
  randomly picked piece of bounded size, end with no lossy pixel left in it: after at most as
  many of them as there are lossy pixels, the client shows exactly the server's screen, and the
  cursor, everywhere but in lossy pixels that were not asked for.
\<close>

theorem lossless_refresh_completes:
  fixes pb :: "'p PixelBuffer"
  assumes "at_rest pb fuel fl cursor mx" "decodes (lossy_rect fl) (pixels pb) k dec" "sent e = []" "rfb_region req"
    and "rfb_region (lossyRegion e)" "points (lossyRegion e) \<subseteq> rect_area_of (getRect pb)"
    and "\<forall>p\<in>rect_area_of (getRect pb). p \<notin> points (lossyRegion e) \<longrightarrow> c p = shown cursor (pixels pb) k p"
    and "card (points (lossyRegion e) \<inter> points req) \<le> n"
  shows "\<exists>e' c'. lossless_refreshes n rnds fuel fl pb cursor e req mx dec c = Some (e', c')
    \<and> points (lossyRegion e') = points (lossyRegion e) - points req
    \<and> (\<forall>p\<in>rect_area_of (getRect pb). p \<notin> points (lossyRegion e') \<longrightarrow> c' p = shown cursor (pixels pb) k p)"
proof -
  define i where "i = (\<lambda>p. if p \<in> rect_area_of (getRect pb) then shown cursor (pixels pb) k p else c p)"
  have "lossy_sound (lossyRegion e) c i" using assms(5,7) by (simp add: lossy_sound_def i_def)
  moreover have "\<forall>p\<in>rect_area_of (getRect pb). i p = shown cursor (pixels pb) k p" by (simp add: i_def)
  ultimately show ?thesis by (rule lossless_converges [OF assms(1-4) _ assms(6) _ assms(8)])
qed

theorem lossless_refresh_completes_witness:
  "\<exists>e' c'. lossless_refreshes 1 (\<lambda>_ _. 3) 4 sample_flags sample_screen None (sample_encoder left_pixel) both_pixels 100
       (exact (pixels sample_screen) (\<lambda>_. 0)) (\<lambda>p. if p = (1, 0) then 6 else 9) = Some (e', c')
     \<and> c' (0, 0) = 5 \<and> c' (1, 0) = 6"
proof -
  let ?c = "\<lambda>p. if p = (1, 0) then 6 else 9 :: nat" and ?s = "shown None (pixels sample_screen) (\<lambda>_. 0)"
  have q: "at_rest sample_screen 4 sample_flags None 100"
    by (simp add: at_rest_def sample_screen_wf uses_encoders_def) (simp add: sample_flags_def)
  have l: "points left_pixel = {(0, 0)}" "rfb_region left_pixel" "points both_pixels = {(0, 0), (1, 0)}" "rfb_region both_pixels"
    using sample_rects(1,2) by (auto simp: rect_area_of_def rect_sels)
  have px: "?s (0, 0) = 5" "?s (1, 0) = 6"
    by (simp_all add: shown_def cursor_area_def pixels_def pixel_at_def sample_screen_def)
  have c: "\<forall>p\<in>rect_area_of (getRect sample_screen). p \<notin> points (lossyRegion (sample_encoder left_pixel)) \<longrightarrow> ?c p = ?s p"
    using l(1) px sample_pixels by (auto simp: sample_screen_wf sample_encoder_def)
  have a: "area 2 1 = {(0, 0), (1, 0)}" by (auto simp: area_def)
  have e: "lossyRegion (sample_encoder left_pixel) = left_pixel" by (simp add: sample_encoder_def)
  have "decodes (lossy_rect sample_flags) (pixels sample_screen) (\<lambda>_. 0) (exact (pixels sample_screen) (\<lambda>_. 0))"
    by (simp add: decodes_def)
  from lossless_refresh_completes [OF q this sample_rects(5) l(4) _ _ c, of 1 "\<lambda>_ _. 3"]
  have "\<exists>e' c'. lossless_refreshes 1 (\<lambda>_ _. 3) 4 sample_flags sample_screen None (sample_encoder left_pixel) both_pixels 100
       (exact (pixels sample_screen) (\<lambda>_. 0)) ?c = Some (e', c') \<and> points (lossyRegion e') = {}
     \<and> (\<forall>p\<in>area 2 1. p \<notin> points (lossyRegion e') \<longrightarrow> c' p = ?s p)"
    using l by (simp add: e sample_screen_wf a del: lossless_refreshes.simps One_nat_def)
  then show ?thesis using px a by fastforce
qed

section \<open>Frame buffers\<close>

lemma drawsE:
  assumes "draws pb res s"
  shows "\<exists>pb'. res = Inr pb' \<and> wf_pb pb' \<and> getRect pb' = getRect pb \<and> (\<forall>p\<in>rect_area_of (getRect pb). pixels pb' p = s p)"
proof -
  obtain pb' where "res = Inr pb'" "wf_pb pb'" "pb_width pb' = pb_width pb" "pb_height pb' = pb_height pb"
    "\<forall>p\<in>area (pb_width pb) (pb_height pb). pixels pb' p = s p" using assms unfolding draws_def by blast
  then show ?thesis unfolding screen_rect by (simp add: getRect_def)
qed

text \<open>
  C24. copyRect moves a rectangle of the frame buffer as if all pixels were copied at once,
  whatever way source and destination overlap; no memcpy is given overlapping blocks, and
  nothing outside the buffer is touched.
\<close>

theorem copyRect_simultaneous:
  assumes "wf_pb pb" "sane_rect r" "Rect_enclosed_by r (getRect pb)"
    and "Rect_enclosed_by (Rect_translate r (Point_negate d)) (getRect pb)"
  shows "\<exists>pb'. copyRect pb r d = Inr pb' \<and> wf_pb pb' \<and> getRect pb' = getRect pb
    \<and> (\<forall>(x, y)\<in>rect_area_of (getRect pb). pixels pb' (x, y) =
         (if px (rtl r) \<le> x \<and> x < px (rbr r) \<and> py (rtl r) \<le> y \<and> y < py (rbr r) then pixels pb (x - px d, y - py d) else pixels pb (x, y)))"
proof -
  have "copy_area (rect_area_of r) d (pixels pb) = (\<lambda>(x, y). if px (rtl r) \<le> x \<and> x < px (rbr r) \<and> py (rtl r) \<le> y \<and> y < py (rbr r)
      then pixels pb (x - px d, y - py d) else pixels pb (x, y))"
    by (simp add: fun_eq_iff copy_area_def from_src_def rect_area_of_def)
  with drawsE [OF copyRect_draws [OF assms]] show ?thesis by (simp add: case_prod_unfold)
qed

lemma sample_buffers:
  fixes a b c d x y z :: 'p
  shows "wf_pb \<lparr>pb_width = 3, pb_height = 1, pb_stride = 3, pb_data = [a, b, c]\<rparr>"
    "wf_pb \<lparr>pb_width = 2, pb_height = 1, pb_stride = 2, pb_data = [a, b]\<rparr>"
    "wf_pb \<lparr>pb_width = 2, pb_height = 1, pb_stride = 3, pb_data = [x, y, z]\<rparr>"
    "wf_pb \<lparr>pb_width = 2, pb_height = 2, pb_stride = 2, pb_data = [a, b, c, d]\<rparr>"
  by (simp_all add: wf_pb_def)

theorem copyRect_simultaneous_witness:
  "\<exists>pb'. copyRect \<lparr>pb_width = 3, pb_height = 1, pb_stride = 3, pb_data = ''abc''\<rparr> (mkRect 1 0 3 1) (mkPoint 1 0) = Inr pb'
    \<and> pixels pb' (1, 0) = CHR ''a'' \<and> pixels pb' (2, 0) = CHR ''b''"
proof -
  let ?pb = "\<lparr>pb_width = 3, pb_height = 1, pb_stride = 3, pb_data = ''abc''\<rparr>"
  have "(1, 0) \<in> rect_area_of (getRect ?pb)" "(2, 0) \<in> rect_area_of (getRect ?pb)" by (simp_all add: rect_area_of_def getRect_def rect_sels)
  moreover have "pixels ?pb (0, 0) = CHR ''a''" "pixels ?pb (1, 0) = CHR ''b''" by (simp_all add: pixels_def pixel_at_def)
  moreover have "sane_rect (mkRect 1 0 3 1)" "Rect_enclosed_by (mkRect 1 0 3 1) (getRect ?pb)"
    "Rect_enclosed_by (Rect_translate (mkRect 1 0 3 1) (Point_negate (mkPoint 1 0))) (getRect ?pb)"
    by (simp_all add: sane_rect_def Rect_enclosed_by_def getRect_def rect_sels)
  moreover from copyRect_simultaneous [OF sample_buffers(1) calculation(5-7)]
  obtain pb' where pb': "copyRect ?pb (mkRect 1 0 3 1) (mkPoint 1 0) = Inr pb'"
    and eq: "\<forall>(x, y)\<in>rect_area_of (getRect ?pb). pixels pb' (x, y) =
      (if px (rtl (mkRect 1 0 3 1)) \<le> x \<and> x < px (rbr (mkRect 1 0 3 1)) \<and> py (rtl (mkRect 1 0 3 1)) \<le> y \<and> y < py (rbr (mkRect 1 0 3 1))
       then pixels ?pb (x - px (mkPoint 1 0), y - py (mkPoint 1 0)) else pixels ?pb (x, y))" by blast
  ultimately have "pixels pb' (1, 0) = CHR ''a''" "pixels pb' (2, 0) = CHR ''b''"
    using bspec [OF eq, of "(1, 0)"] bspec [OF eq, of "(2, 0)"] by (simp_all add: rect_sels)
  then show ?thesis using pb' by blast
qed

text \<open>
  Taking an image out of one frame buffer and putting it into another one with the same
  stride copies the rectangle exactly and changes no other pixel.
\<close>

theorem image_round_trip:
  assumes "wf_pb pb" "wf_pb qb" "sane_rect r" "Rect_enclosed_by r (getRect pb)" "Rect_enclosed_by r (getRect qb)"
    and "os = (if outStride = 0 then Rect_width r else outStride)" "Rect_width r \<le> os" "Rect_height r * os \<le> int (length buf)"
  shows "\<exists>d qb'. getImage pb buf r outStride = Inr d \<and> length d = length buf \<and> imageRect qb r d outStride = Inr qb'
    \<and> wf_pb qb' \<and> getRect qb' = getRect qb
    \<and> (\<forall>p\<in>rect_area_of (getRect qb). pixels qb' p = (if p \<in> rect_area_of r then pixels pb p else pixels qb p))"
proof -
  have w: "0 \<le> Rect_width r" "0 \<le> Rect_height r" using assms(3) by (simp_all add: sane_rect_def rect_sels)
  obtain d where d: "getImage pb buf r outStride = Inr d" "length d = length buf"
    "\<forall>(u, v)\<in>area (Rect_width r) (Rect_height r). pixel_at os d (u, v) = pixels pb (px (rtl r) + u, py (rtl r) + v)"
    using getImage_reads [OF assms(1,3,4,6-8)] by blast
  have "(Rect_height r - 1) * os + Rect_width r \<le> int (length d)"
    using assms(7,8) d(2) by (simp add: left_diff_distrib)
  then have dr: "draws qb (imageRect qb r d outStride) (overlay (rect_area_of r) (picture d os r) (pixels qb))"
    using imageRect_draws [OF assms(2,3,5,6)] w(1) assms(7) by simp
  have "picture d os r p = pixels pb p" if "p \<in> rect_area_of r" for p
  proof -
    have "(fst p - px (rtl r), snd p - py (rtl r)) \<in> area (Rect_width r) (Rect_height r)"
      using that by (auto simp: rect_area_of_def area_def rect_sels)
    then show ?thesis using d(3) by (fastforce simp: picture_def pixel_at_def)
  qed
  then have "overlay (rect_area_of r) (picture d os r) (pixels qb) = (\<lambda>p. if p \<in> rect_area_of r then pixels pb p else pixels qb p)"
    by (simp add: overlay_def fun_eq_iff)
  then show ?thesis using d(1,2) drawsE [OF dr] by simp
qed

theorem image_round_trip_witness:
  "\<exists>d qb'. getImage \<lparr>pb_width = 2, pb_height = 1, pb_stride = 2, pb_data = ''ab''\<rparr> ''????'' (mkRect 1 0 2 1) 0 = Inr d
    \<and> imageRect \<lparr>pb_width = 2, pb_height = 1, pb_stride = 3, pb_data = ''xyz''\<rparr> (mkRect 1 0 2 1) d 0 = Inr qb'
    \<and> pixels qb' (0, 0) = CHR ''x'' \<and> pixels qb' (1, 0) = CHR ''b''"
proof -
  let ?pb = "\<lparr>pb_width = 2, pb_height = 1, pb_stride = 2, pb_data = ''ab''\<rparr>" and ?r = "mkRect 1 0 2 1"
  let ?qb = "\<lparr>pb_width = 2, pb_height = 1, pb_stride = 3, pb_data = ''xyz''\<rparr>"
  have p: "sane_rect ?r" "Rect_enclosed_by ?r (getRect ?pb)" "Rect_enclosed_by ?r (getRect ?qb)" "Rect_width ?r = 1" "Rect_height ?r = 1"
    by (simp_all add: sane_rect_def Rect_enclosed_by_def getRect_def rect_sels)
  obtain d qb' where "getImage ?pb ''????'' ?r 0 = Inr d" "imageRect ?qb ?r d 0 = Inr qb'"
    "\<forall>p\<in>rect_area_of (getRect ?qb). pixels qb' p = (if p \<in> rect_area_of ?r then pixels ?pb p else pixels ?qb p)"
    using image_round_trip [OF sample_buffers(2,3) p(1-3), where os = 1 and outStride = 0 and buf = "''????''"] p(4,5) by auto
  moreover have "(0, 0) \<in> rect_area_of (getRect ?qb)" "(1, 0) \<in> rect_area_of (getRect ?qb)" "(0, 0) \<notin> rect_area_of ?r" "(1, 0) \<in> rect_area_of ?r"
    by (simp_all add: rect_area_of_def getRect_def rect_sels)
  moreover have "pixels ?pb (1, 0) = CHR ''b''" "pixels ?qb (0, 0) = CHR ''x''" by (simp_all add: pixels_def pixel_at_def)
  ultimately show ?thesis by auto
qed

text \<open>
  fillRect fills exactly the rectangle, with one byte per pixel and with several.
\<close>

theorem fillRect_fills:
  assumes "wf_pb pb" "sane_rect r" "Rect_enclosed_by r (getRect pb)"
  shows "\<exists>pb'. fillRect bytes pb r v = Inr pb' \<and> wf_pb pb' \<and> getRect pb' = getRect pb
    \<and> (\<forall>p\<in>rect_area_of (getRect pb). pixels pb' p = (if p \<in> rect_area_of r then v else pixels pb p))"
  using drawsE [OF fillRect_draws [OF assms, of bytes v]] by (simp add: overlay_def)

theorem fillRect_fills_witness:
  "\<exists>pb'. fillRect 4 \<lparr>pb_width = 2, pb_height = 2, pb_stride = 2, pb_data = ''abcd''\<rparr> (mkRect 1 0 2 2) CHR ''z'' = Inr pb'
    \<and> pixels pb' (1, 1) = CHR ''z'' \<and> pixels pb' (0, 1) = CHR ''c''"
proof -
  let ?pb = "\<lparr>pb_width = 2, pb_height = 2, pb_stride = 2, pb_data = ''abcd''\<rparr>" and ?r = "mkRect 1 0 2 2"
  have p: "sane_rect ?r" "Rect_enclosed_by ?r (getRect ?pb)"
    by (simp_all add: sane_rect_def Rect_enclosed_by_def getRect_def rect_sels)
  have "(0, 1) \<in> rect_area_of (getRect ?pb)" "(1, 1) \<in> rect_area_of (getRect ?pb)" "(0, 1) \<notin> rect_area_of ?r" "(1, 1) \<in> rect_area_of ?r"
    by (simp_all add: rect_area_of_def getRect_def rect_sels)
  moreover have "pixels ?pb (0, 1) = CHR ''c''" by (simp add: pixels_def pixel_at_def numeral_eq_Suc)
  ultimately show ?thesis using fillRect_fills [OF sample_buffers(4) p, of 4 "CHR ''z''"] by auto
qed

end
