(* ===== verification/RdrStream.thy ===== *)
theory RdrStream
  imports KasmPrelude
begin

text \<open>
  The typed reads and writes of \<^verbatim>\<open>src/common/rdr/InStream.h\<close> and \<^verbatim>\<open>OutStream.h\<close>. An output
  stream is the list of the bytes written to it, so a write is the list it appends; an input
  stream is the list of the bytes that are still to come. Reading past the end blocks in the
  code until there is more; it is the error EndOfStream here. The buffering below (check and
  overrun) does not change the bytes and is left out.
\<close>

section \<open>Readers\<close>

datatype rfb_error = EndOfStream | RfbException string

type_synonym 'a reader = "byte list \<Rightarrow> rfb_error + 'a \<times> byte list"

definition rd_return :: "'a \<Rightarrow> 'a reader" where
  "rd_return x s = Inr (x, s)"

definition rd_throw :: "string \<Rightarrow> 'a reader" where
  "rd_throw m s = Inl (RfbException m)"

definition rd_bind :: "'a reader \<Rightarrow> ('a \<Rightarrow> 'b reader) \<Rightarrow> 'b reader" where
  "rd_bind r f s = (case r s of Inl e \<Rightarrow> Inl e | Inr (x, s') \<Rightarrow> f x s')"

definition rd_then :: "'a reader \<Rightarrow> 'b reader \<Rightarrow> 'b reader" where
  "rd_then r q = rd_bind r (\<lambda>_. q)"

fun rd_times :: "nat \<Rightarrow> 'a reader \<Rightarrow> 'a list reader" where
  "rd_times 0 r = rd_return []"
| "rd_times (Suc n) r = rd_bind r (\<lambda>x. rd_bind (rd_times n r) (\<lambda>xs. rd_return (x # xs)))"

section \<open>Integers and bytes\<close>

definition byte_of :: "int \<Rightarrow> byte" where
  "byte_of n = word_of_int n"

definition writeU8 :: "int \<Rightarrow> byte list" where
  "writeU8 u = [byte_of u]"

definition writeU16 :: "int \<Rightarrow> byte list" where
  "writeU16 u = [byte_of (u div 256), byte_of u]"

definition writeU32 :: "int \<Rightarrow> byte list" where
  "writeU32 u = [byte_of (u div 16777216), byte_of (u div 65536), byte_of (u div 256), byte_of u]"

definition writeS16 :: "int \<Rightarrow> byte list" where
  "writeS16 s = writeU16 (s mod 65536)"

definition writeS32 :: "int \<Rightarrow> byte list" where
  "writeS32 s = writeU32 (s mod 4294967296)"

definition pad :: "nat \<Rightarrow> byte list" where
  "pad n = replicate n 0"

definition writeString :: "byte list \<Rightarrow> byte list" where
  "writeString str = writeU32 (int (length str)) @ str"

fun readU8 :: "int reader" where
  "readU8 (b # s) = Inr (uint b, s)"
| "readU8 [] = Inl EndOfStream"

definition readU16 :: "int reader" where
  "readU16 = rd_bind readU8 (\<lambda>b0. rd_bind readU8 (\<lambda>b1. rd_return (b0 * 256 + b1)))"

definition readU32 :: "int reader" where
  "readU32 = rd_bind readU8 (\<lambda>b0. rd_bind readU8 (\<lambda>b1. rd_bind readU8 (\<lambda>b2. rd_bind readU8 (\<lambda>b3.
     rd_return (b0 * 16777216 + b1 * 65536 + b2 * 256 + b3)))))"

definition readS16 :: "int reader" where
  "readS16 = rd_bind readU16 (\<lambda>u. rd_return (signed_take_bit 15 u))"

definition readS32 :: "int reader" where
  "readS32 = rd_bind readU32 (\<lambda>u. rd_return (signed_take_bit 31 u))"

definition readBytes :: "nat \<Rightarrow> byte list reader" where
  "readBytes n s = (if n \<le> length s then Inr (take n s, drop n s) else Inl EndOfStream)"

definition skip :: "nat \<Rightarrow> unit reader" where
  "skip n = rd_bind (readBytes n) (\<lambda>_. rd_return ())"

definition maxStringLength :: int where
  "maxStringLength = 65535"

definition readString :: "byte list reader" where
  "readString = rd_bind readU32 (\<lambda>len.
     if len > maxStringLength then rd_throw ''InStream max string length exceeded''
     else readBytes (nat len))"

section \<open>What is written can be read\<close>

lemma rd_bind_Inr [simp]: "r s = Inr (x, s') \<Longrightarrow> rd_bind r f s = f x s'"
  by (simp add: rd_bind_def)

lemma rd_return_simp [simp]: "rd_return x s = Inr (x, s)"
  by (simp add: rd_return_def)

lemma rd_bind_return [simp]: "rd_bind (rd_return x) f s = f x s"
  by simp

lemma rd_then_Inr [simp]: "r s = Inr (x, s') \<Longrightarrow> rd_then r q s = q s'"
  by (simp add: rd_then_def)

text \<open>
  The contract of a writer and the reader at the other end of the wire: the reader takes
  exactly the bytes of one value and leaves the rest. Such a format is free of prefixes, so a
  sequence of values is read back as it was written.
\<close>

locale wire_format =
  fixes put :: "'a \<Rightarrow> byte list" and get :: "'a reader" and valid :: "'a \<Rightarrow> bool"
  assumes get_put: "valid x \<Longrightarrow> get (put x @ s) = Inr (x, s)"
begin

lemma put_inj: "\<lbrakk>valid x; valid y; put x @ s = put y @ s'\<rbrakk> \<Longrightarrow> x = y \<and> s = s'"
  by (metis get_put Pair_inject sum.inject(2))

lemma get_puts: "\<forall>x\<in>set xs. valid x \<Longrightarrow> rd_times (length xs) get (concat (map put xs) @ s) = Inr (xs, s)"
proof (induction xs)
  case (Cons x xs)
  then show ?case using get_put [of x "concat (map put xs) @ s"] by simp
qed simp

end

lemma uint_byte_of: "uint (byte_of n) = n mod 256"
  by (simp add: byte_of_def uint_word_of_int)

lemma readU8_writeU8 [simp]: "readU8 (writeU8 n @ s) = Inr (n mod 256, s)"
  by (simp add: writeU8_def uint_byte_of)

lemma readU16_writeU16 [simp]: "readU16 (writeU16 n @ s) = Inr (n mod 65536, s)"
proof -
  have "n mod 65536 = n div 256 mod 256 * 256 + n mod 256"
    using mod_mult2_eq' [of n 256 256] by simp
  then show ?thesis by (simp add: readU16_def writeU16_def uint_byte_of)
qed

lemma mod_digits: "n mod 4294967296 = n div 16777216 mod 256 * 16777216 + n div 65536 mod 256 * 65536 + n div 256 mod 256 * 256 + n mod 256"
  for n :: int
proof -
  have "n mod 4294967296 = 16777216 * (n div 16777216 mod 256) + n mod 16777216"
    using zmod_zmult2_eq [of 256 n 16777216] by simp
  also have "n mod 16777216 = 65536 * (n div 65536 mod 256) + n mod 65536" using zmod_zmult2_eq [of 256 n 65536] by simp
  also have "n mod 65536 = 256 * (n div 256 mod 256) + n mod 256" using zmod_zmult2_eq [of 256 n 256] by simp
  finally show ?thesis by (simp only: mult.commute add.assoc)
qed

lemma readU32_writeU32 [simp]: "readU32 (writeU32 n @ s) = Inr (n mod 4294967296, s)"
  by (simp add: readU32_def writeU32_def uint_byte_of mod_digits [of n])

lemma readS16_writeS16: "\<lbrakk>- 32768 \<le> n; n < 32768\<rbrakk> \<Longrightarrow> readS16 (writeS16 n @ s) = Inr (n, s)"
  using signed_take_bit_int_eq_self [of 15 n]
  by (simp add: readS16_def writeS16_def) (simp add: signed_take_bit_take_bit flip: take_bit_eq_mod [of 16, simplified])

lemma readBytes_append [simp]: "n = length d \<Longrightarrow> readBytes n (d @ s) = Inr (d, s)"
  by (simp add: readBytes_def)

lemma skip_pad [simp]: "skip n (pad n @ s) = Inr ((), s)"
  by (simp add: skip_def pad_def)

lemma readString_writeString [simp]:
  "int (length str) \<le> maxStringLength \<Longrightarrow> readString (writeString str @ s) = Inr (str, s)"
  by (simp add: readString_def writeString_def maxStringLength_def)

text \<open>The formats of the stream classes.\<close>

interpretation u8_wire: wire_format writeU8 readU8 "\<lambda>n. 0 \<le> n \<and> n < 256"
  by unfold_locales simp

interpretation u16_wire: wire_format writeU16 readU16 "\<lambda>n. 0 \<le> n \<and> n < 65536"
  by unfold_locales simp

interpretation u32_wire: wire_format writeU32 readU32 "\<lambda>n. 0 \<le> n \<and> n < 4294967296"
  by unfold_locales simp

interpretation s16_wire: wire_format writeS16 readS16 "\<lambda>n. - 32768 \<le> n \<and> n < 32768"
  by unfold_locales (simp add: readS16_writeS16)

interpretation string_wire: wire_format writeString readString "\<lambda>str. int (length str) \<le> maxStringLength"
  by unfold_locales simp

section \<open>Properties\<close>

text \<open>
  A sequence of strings of at most 65535 bytes that was written to an output stream is
  read back from an input stream as it was, and the reader stops where the next value starts.
\<close>

theorem strings_read_back:
  assumes "\<forall>x\<in>set xs. int (length x) \<le> maxStringLength"
  shows "rd_times (length xs) readString (concat (map writeString xs) @ s) = Inr (xs, s)"
  using assms by (rule string_wire.get_puts)

theorem strings_read_back_witness:
  "rd_times 2 readString (writeString [1, 2] @ writeString [] @ [9]) = Inr ([[1, 2], []], [9])"
proof -
  have "rd_times (length [[1, 2 :: byte], []]) readString (concat (map writeString [[1, 2], []]) @ [9]) = Inr ([[1, 2], []], [9])"
    by (rule strings_read_back) (simp add: maxStringLength_def)
  then show ?thesis by (simp add: numeral_2_eq_2)
qed

end
