(* ===== verification/WebSocketFrames.thy ===== *)
theory WebSocketFrames
  imports KasmPrelude
begin

unbundle bit_operations_syntax

text \<open>
  The WebSocket codecs of \<^verbatim>\<open>src/common/network/websocket.c\<close>: the base64 wrappers
  ws\_b64\_ntop and ws\_b64\_pton, the HyBi (RFC 6455) frame encoder and decoder and the
  Hixie frame encoder and decoder.

  A buffer is the list of the bytes in it. A routine that fills a target buffer returns
  its C result together with the bytes it wrote. OpenSSL's base64 filter is a parameter:
  \<open>bio_write\<close> gives the text the memory BIO holds after its argument was written and
  flushed, and \<open>bio_read src n\<close> the result of BIO\_read, the bytes it stored and the number
  of bytes still pending.
\<close>

type_synonym bio_write = "byte list \<Rightarrow> byte list"
type_synonym bio_read = "byte list \<Rightarrow> nat \<Rightarrow> int \<times> byte list \<times> nat"

definition BUFSIZE :: nat where
  "BUFSIZE = 65536"

definition DBUFSIZE :: nat where
  "DBUFSIZE = (BUFSIZE * 3) div 4 - 20"

definition OPCODE_TEXT :: nat where
  "OPCODE_TEXT = 1"

definition OPCODE_BINARY :: nat where
  "OPCODE_BINARY = 2"

section \<open>Base64\<close>

text \<open>
  ws\_b64\_ntop writes a terminating zero after what it copied, which is at index
  \<open>dstlen\<close> when the text does not fit. A memory BIO never asks for a retry, so the
  do-while loops run once.
\<close>

definition ws_b64_ntop :: "bio_write \<Rightarrow> byte list \<Rightarrow> nat \<Rightarrow> int \<times> byte list" where
  "ws_b64_ntop bio src dstlen =
     (let data = bio src; len = length data; n = (if dstlen < len then dstlen else len)
      in (if dstlen < len then - 1 else int len, take n data @ [0]))"

text \<open>The source is a C string: the bytes up to the first zero.\<close>

definition ws_b64_pton :: "bio_read \<Rightarrow> byte list \<Rightarrow> nat \<Rightarrow> int \<times> byte list" where
  "ws_b64_pton bio src dstlen =
     (let (len, data, pending) = bio (takeWhile (\<lambda>b. b \<noteq> 0) src) dstlen;
          total = (if len > 0 then nat len else 0)
      in (if pending \<noteq> 0 then - 1 else len, take total data))"

section \<open>HyBi\<close>

definition htons_bytes :: "int \<Rightarrow> byte list" where
  "htons_bytes n = [word_of_int (n div 256), word_of_int n]"

definition encode_hybi :: "bio_write \<Rightarrow> byte list \<Rightarrow> nat \<Rightarrow> nat \<Rightarrow> int \<times> byte list" where
  "encode_hybi bio src targsize opcode =
     (let srclength = length src in
      if opcode \<noteq> OPCODE_TEXT \<and> opcode \<noteq> OPCODE_BINARY then (- 1, [])
      else
        let b0 = (word_of_nat opcode AND 0x0F) OR 0x80 in
        if c_int (int srclength) \<le> 0 then (0, [b0])
        else
          let text = odd opcode;
              len = (if text then c_int (((int srclength - 1) div 3) * 4 + 4)
                     else c_int (int srclength))
          in if len \<ge> 65536 then (- 1, [b0])
             else
               let hdr = (if len \<le> 125 then [b0, word_of_int len]
                          else [b0, 126] @ htons_bytes len);
                   (len', body) =
                     (if text then ws_b64_ntop bio src (targsize - length hdr)
                      else (c_int (int srclength), src))
               in if len' < 0 then (len', hdr @ body)
                  else (len' + int (length hdr), hdr @ body))"

text \<open>
  The decoders get the memory from a pointer into the receive buffer to the buffer's end:
  the received bytes, and behind them the stale bytes of earlier messages. They look at
  both. A read behind the end of the memory and a write through a null pointer are faults.
\<close>

datatype fault = ReadBeyond | NullWrite

definition unmask :: "byte list \<Rightarrow> byte list \<Rightarrow> byte list" where
  "unmask msk payload = map (\<lambda>i. payload ! i XOR msk ! (i mod 4)) [0..<length payload]"

text \<open>
  The header of the frame at \<open>frame\<close>: the opcode, the mask bit, and the length of the
  header without mask and of the payload, or none when the length is 64-bit. The 16 bit
  length is in the third and the fourth byte, received or not.
\<close>

definition frame_opcode :: "byte list \<Rightarrow> nat" where
  "frame_opcode frame = unat (frame ! 0 AND 0x0f)"

definition frame_masked :: "byte list \<Rightarrow> nat" where
  "frame_masked frame = unat (drop_bit 7 (frame ! 1 AND 0x80))"

definition frame_lengths :: "byte list \<Rightarrow> (nat \<times> nat) option" where
  "frame_lengths frame =
     (let payload_length = unat (frame ! 1 AND 0x7f) in
      if payload_length < 126 then Some (2, payload_length)
      else if payload_length = 126 then Some (4, unat (frame ! 2) * 256 + unat (frame ! 3))
      else None)"

definition reads_length :: "byte list \<Rightarrow> bool" where
  "reads_length frame \<longleftrightarrow> unat (frame ! 1 AND 0x7f) = 126"

record decoded =
  d_ret :: int
  d_opcode :: nat
  d_left :: nat
  d_target :: "byte list"

text \<open>
  The loop of decode\_hybi. \<open>frame\<close> is the memory from the frame pointer on and
  \<open>remaining\<close> the number of received bytes in it. The two bytes of a 16 bit length are read
  before it is known whether they were received. A frame that is not complete moves the
  frame pointer past the end of the data, which leaves the loop with \<open>remaining\<close> as it is.
  On an error \<^verbatim>\<open>*left\<close> keeps its first value, \<open>srclength\<close>.
\<close>

function decode_hybi_loop ::
  "bio_read \<Rightarrow> nat \<Rightarrow> nat \<Rightarrow> byte list \<Rightarrow> nat \<Rightarrow> nat \<Rightarrow> byte list \<Rightarrow> fault + decoded"
where
  "decode_hybi_loop bio targsize srclength frame remaining opcode target =
     (let stop = (\<lambda>op. Inr \<lparr>d_ret = int (length target), d_opcode = op, d_left = remaining,
                       d_target = target\<rparr>);
          fail = (\<lambda>e op t. Inr \<lparr>d_ret = e, d_opcode = op, d_left = srclength, d_target = t\<rparr>)
      in if remaining < 2 then stop opcode
         else
           let op = frame_opcode frame; masked = frame_masked frame in
           if op = 8 then stop op
           else if reads_length frame \<and> length frame < 4 then Inl ReadBeyond
           else
             (case frame_lengths frame of
                None \<Rightarrow> fail (- 1) op target
              | Some (hdr_length, payload_length) \<Rightarrow>
                  let total = hdr_length + 4 * masked + payload_length in
                  if total > remaining then stop op
                  else if op \<noteq> OPCODE_TEXT \<and> op \<noteq> OPCODE_BINARY \<or> payload_length = 0
                  then decode_hybi_loop bio targsize srclength (drop total frame)
                         (remaining - total) op target
                  else if masked = 0 then fail (- 1) op target
                  else
                    let msk = take 4 (drop hdr_length frame);
                        payload = unmask msk (take payload_length (drop (hdr_length + 4) frame));
                        (len, data) =
                          (if op = OPCODE_TEXT then ws_b64_pton bio payload targsize
                           else (int payload_length, payload))
                    in if len < 0 then fail len op (target @ data)
                       else decode_hybi_loop bio targsize srclength (drop total frame)
                              (remaining - total) op (target @ data)))"
  by pat_completeness auto
termination
  by (relation "measure (\<lambda>(bio, ts, sl, frame, remaining, op, target). remaining)")
    (auto simp: frame_lengths_def Let_def split: if_splits)

declare decode_hybi_loop.simps [simp del]

text \<open>\<open>src\<close> is the memory from the start of the receive buffer to its end.\<close>

definition decode_hybi ::
  "bio_read \<Rightarrow> byte list \<Rightarrow> nat \<Rightarrow> nat \<Rightarrow> nat \<Rightarrow> fault + decoded"
where
  "decode_hybi bio src srclength targsize opcode =
     decode_hybi_loop bio targsize srclength src srclength opcode []"

section \<open>Hixie\<close>

definition encode_hixie :: "bio_write \<Rightarrow> byte list \<Rightarrow> nat \<Rightarrow> int \<times> byte list" where
  "encode_hixie bio src targsize =
     (let (len, data) = ws_b64_ntop bio src (targsize - 1)
      in if len < 0 then (len, 0 # data)
         else (len + 2, 0 # take (nat len) data @ [0xff]))"

text \<open>
  The frames of decode\_hixie: \<open>mem\<close> is the memory from \<^verbatim>\<open>start\<close> on and \<open>n\<close> the distance from
  there to \<open>src + srclength - 1\<close>. memchr looks for 0xff in \<open>srclength\<close> bytes from \<^verbatim>\<open>start\<close> on,
  that is also in stale bytes behind the data and behind the buffer. Each 0xff ends a
  frame; the byte after it is skipped without being looked at. When memchr finds nothing
  the code writes through a null pointer.
\<close>

function decode_hixie_loop ::
  "bio_read \<Rightarrow> nat \<Rightarrow> nat \<Rightarrow> byte list \<Rightarrow> int \<Rightarrow> byte list \<Rightarrow> fault + int \<times> byte list"
where
  "decode_hixie_loop bio targsize srclength mem n target =
     (if 0xff \<notin> set (take srclength mem)
      then Inl (if length mem < srclength then ReadBeyond else NullWrite)
      else
        let piece = takeWhile (\<lambda>b. b \<noteq> 0xff) mem;
            (len, data) = ws_b64_pton bio piece (targsize - length target)
        in if len < 0 then Inr (len, target @ data)
           else if int (length piece) < n
           then decode_hixie_loop bio targsize srclength (drop (length piece + 2) mem)
                  (n - int (length piece) - 2) (target @ data)
           else Inr (int (length (target @ data)), target @ data))"
  by pat_completeness auto
termination
  by (relation "measure (\<lambda>(bio, ts, sl, mem, n, target). nat (n + 1))") auto

declare decode_hixie_loop.simps [simp del]

definition decode_hixie ::
  "bio_read \<Rightarrow> byte list \<Rightarrow> nat \<Rightarrow> nat \<Rightarrow> nat \<Rightarrow> nat \<Rightarrow> fault + decoded"
where
  "decode_hixie bio src srclength targsize opcode left =
     (if src ! 0 \<noteq> 0 \<or> src ! (srclength - 1) \<noteq> 0xff
      then Inr \<lparr>d_ret = - 1, d_opcode = opcode, d_left = left, d_target = []\<rparr>
      else if srclength = 2 \<and> src ! 0 = 0xff \<and> src ! 1 = 0
      then Inr \<lparr>d_ret = 0, d_opcode = 8, d_left = srclength, d_target = []\<rparr>
      else
        (case decode_hixie_loop bio targsize srclength (drop 1 src) (int srclength - 2) [] of
           Inl f \<Rightarrow> Inl f
         | Inr (len, target) \<Rightarrow>
             Inr \<lparr>d_ret = len, d_opcode = 1, d_left = (if len < 0 then srclength else 0),
               d_target = target\<rparr>))"

end
