(* ===== verification/WebSocketStream.thy ===== *)
theory WebSocketStream
  imports WebSocketFrames
begin

unbundle bit_operations_syntax

text \<open>
  The HyBi decoder as a stream transducer: what one frame contributes, reassembly of a
  stream that arrives in pieces, and the inverse of the encoding of RFC 6455. All this is
  shown for \<open>decode_stream\<close>, which works on the received bytes alone; at the end
  decode\_hybi, which works on the buffer and looks at bytes that were not received, is
  shown to give the same result or to read behind the buffer.
\<close>

section \<open>One frame\<close>

datatype frame_view =
    Short
  | Close
  | Partial nat
  | Bad nat
  | Skip nat nat
  | Data nat nat "byte list"

definition view :: "byte list \<Rightarrow> nat \<Rightarrow> frame_view" where
  "view frame remaining =
     (if remaining < 2 then Short
      else if frame_opcode frame = 8 then Close
      else case frame_lengths frame of
          None \<Rightarrow> Bad (frame_opcode frame)
        | Some (hdr, pl) \<Rightarrow>
            let op = frame_opcode frame; total = hdr + 4 * frame_masked frame + pl in
            if total > remaining then Partial op
            else if op \<noteq> OPCODE_TEXT \<and> op \<noteq> OPCODE_BINARY \<or> pl = 0 then Skip op total
            else if frame_masked frame = 0 then Bad op
            else Data op total (unmask (take 4 (drop hdr frame)) (take pl (drop (hdr + 4) frame))))"

definition content :: "bio_read \<Rightarrow> nat \<Rightarrow> nat \<Rightarrow> byte list \<Rightarrow> int \<times> byte list" where
  "content bio targsize op payload =
     (if op = OPCODE_TEXT then ws_b64_pton bio payload targsize else (int (length payload), payload))"

lemma frame_masked_le: "frame_masked frame \<le> 1"
proof -
  have "drop_bit 7 (b AND 0x80) \<le> (1 :: byte)" for b :: byte
    by (simp add: word_le_nat_alt unat_drop_bit_eq) (simp add: unsigned_and_eq drop_bit_eq_div)
  then show ?thesis by (simp add: frame_masked_def word_le_nat_alt)
qed

lemma frame_lengths_ge: "frame_lengths frame = Some (hdr, pl) \<Longrightarrow> 2 \<le> hdr"
  by (auto simp: frame_lengths_def Let_def split: if_splits)

lemma view_less:
  "view frame remaining = Skip op tot \<Longrightarrow> 0 < tot \<and> tot \<le> remaining"
  "view frame remaining = Data op tot payload \<Longrightarrow> 0 < tot \<and> tot \<le> remaining"
  by (auto simp: view_def Let_def dest: frame_lengths_ge split: option.splits if_splits)

function decode_stream ::
  "bio_read \<Rightarrow> nat \<Rightarrow> nat \<Rightarrow> byte list \<Rightarrow> nat \<Rightarrow> nat \<Rightarrow> byte list \<Rightarrow> decoded"
where
  "decode_stream bio ts sl frame remaining opcode target =
    (case view frame remaining of
       Short \<Rightarrow> \<lparr>d_ret = int (length target), d_opcode = opcode, d_left = remaining, d_target = target\<rparr>
     | Close \<Rightarrow> \<lparr>d_ret = int (length target), d_opcode = 8, d_left = remaining, d_target = target\<rparr>
     | Partial op \<Rightarrow> \<lparr>d_ret = int (length target), d_opcode = op, d_left = remaining, d_target = target\<rparr>
     | Bad op \<Rightarrow> \<lparr>d_ret = - 1, d_opcode = op, d_left = sl, d_target = target\<rparr>
     | Skip op tot \<Rightarrow>
         decode_stream bio ts sl (drop tot frame) (remaining - tot) op target
     | Data op tot payload \<Rightarrow>
         let (len, data) = content bio ts op payload in
         if len < 0 then \<lparr>d_ret = len, d_opcode = op, d_left = sl, d_target = target @ data\<rparr>
         else decode_stream bio ts sl (drop tot frame) (remaining - tot) op (target @ data))"
  by pat_completeness auto
termination
  by (relation "measure (\<lambda>(bio, ts, sl, frame, remaining, op, target). remaining)")
    (auto dest: view_less)

declare decode_stream.simps [simp del]

lemma decode_stream_view:
  assumes "remaining \<le> length frame"
  shows "decode_stream bio ts sl frame remaining opcode target =
    (case view frame remaining of
       Short \<Rightarrow> \<lparr>d_ret = int (length target), d_opcode = opcode, d_left = remaining, d_target = target\<rparr>
     | Close \<Rightarrow> \<lparr>d_ret = int (length target), d_opcode = 8, d_left = remaining, d_target = target\<rparr>
     | Partial op \<Rightarrow> \<lparr>d_ret = int (length target), d_opcode = op, d_left = remaining, d_target = target\<rparr>
     | Bad op \<Rightarrow> \<lparr>d_ret = - 1, d_opcode = op, d_left = sl, d_target = target\<rparr>
     | Skip op tot \<Rightarrow>
         decode_stream bio ts sl (drop tot frame) (remaining - tot) op target
     | Data op tot payload \<Rightarrow>
         let (len, data) = content bio ts op payload in
         if len < 0 then \<lparr>d_ret = len, d_opcode = op, d_left = sl, d_target = target @ data\<rparr>
         else decode_stream bio ts sl (drop tot frame) (remaining - tot) op (target @ data))"
  by (rule decode_stream.simps)

lemma header_append:
  assumes "2 \<le> length a"
  shows "frame_opcode (a @ b) = frame_opcode a" "frame_masked (a @ b) = frame_masked a"
    "4 \<le> length a \<Longrightarrow> frame_lengths (a @ b) = frame_lengths a"
proof -
  have b: "(a @ b) ! 0 = a ! 0" "(a @ b) ! 1 = a ! 1"
    using assms by (auto simp: nth_append)
  then show "frame_opcode (a @ b) = frame_opcode a" "frame_masked (a @ b) = frame_masked a"
    by (simp_all add: frame_opcode_def frame_masked_def)
  show "frame_lengths (a @ b) = frame_lengths a" if "4 \<le> length a"
  proof -
    from that have "(a @ b) ! 2 = a ! 2" "(a @ b) ! 3 = a ! 3"
      by (simp_all add: nth_append)
    with b show ?thesis unfolding frame_lengths_def by presburger
  qed
qed

text \<open>A frame header of less than four bytes: the length is there, or the frame is cut off.\<close>

lemma frame_lengths_short:
  assumes "2 \<le> length a" "length a < 4"
  shows "frame_lengths (a @ b) = frame_lengths a
    \<or> (\<exists>p q. frame_lengths a = Some (4, p) \<and> frame_lengths (a @ b) = Some (4, q))"
  using assms by (auto simp: frame_lengths_def nth_append Let_def)

lemma view_append:
  assumes "length a \<le> k" and "k = length a \<or> (view a (length a) \<noteq> Short \<and> (\<forall>op. view a (length a) \<noteq> Partial op))"
  shows "view (a @ b) k = view a (length a)"
proof (cases "length a < 2")
  case True
  then show ?thesis using assms by (auto simp: view_def)
next
  case False
  note hdr = header_append [of a b]
  show ?thesis
  proof (cases "frame_lengths (a @ b) = frame_lengths a")
    case True
    then show ?thesis
      using assms False hdr frame_masked_le [of a]
      by (auto simp: view_def Let_def split: option.splits if_splits)
  next
    case differ: False
    then obtain p q where "frame_lengths a = Some (4, p)" "frame_lengths (a @ b) = Some (4, q)" "length a < 4"
      using frame_lengths_short [of a b] hdr(3) False by fastforce
    then show ?thesis
      using assms False hdr by (auto simp: view_def Let_def split: if_splits)
  qed
qed

lemma view_total:
  "view a (length a) = Skip op tot \<Longrightarrow> 2 \<le> tot \<and> tot \<le> length a"
  "view a (length a) = Data op tot payload \<Longrightarrow> 2 \<le> tot \<and> tot \<le> length a \<and> length payload \<le> tot"
  using frame_lengths_ge [of a]
  by (fastforce simp: view_def Let_def unmask_def split: option.splits if_splits)+


section \<open>Streams\<close>

text \<open>The result of the loop depends on the target only through a prefix of the result.\<close>

definition prepend :: "byte list \<Rightarrow> decoded \<Rightarrow> decoded" where
  "prepend t r = r\<lparr>d_target := t @ d_target r,
     d_ret := (if d_ret r < 0 then d_ret r else int (length t) + d_ret r)\<rparr>"

lemma prepend_Nil [simp]: "prepend [] r = r"
  by (simp add: prepend_def)

lemma prepend_prepend: "prepend s (prepend t r) = prepend (s @ t) r"
  by (simp add: prepend_def)

lemma decode_stream_target:
  assumes "remaining \<le> length frame"
  shows "decode_stream bio ts sl frame remaining op (s @ t)
    = prepend s (decode_stream bio ts sl frame remaining op t)"
  using assms
proof (induction remaining arbitrary: frame op t rule: less_induct)
  case (less remaining)
  show ?case
  proof (cases "view frame remaining")
    case (Skip op' tot)
    then have tot: "0 < tot" "tot \<le> remaining"
      by (auto simp: view_def Let_def dest: frame_lengths_ge split: option.splits if_splits)
    then show ?thesis
      using less.IH [of "remaining - tot" "drop tot frame" op' t] less.prems Skip
      by (simp add: decode_stream_view [OF less.prems])
  next
    case (Data op' tot payload)
    then have tot: "0 < tot" "tot \<le> remaining"
      by (auto simp: view_def Let_def dest: frame_lengths_ge split: option.splits if_splits)
    then show ?thesis
      using less.IH [of "remaining - tot" "drop tot frame" op' "t @ snd (content bio ts op' payload)"]
        less.prems Data
      by (auto simp: decode_stream_view [OF less.prems] prepend_def split: prod.split)
  qed (simp_all add: decode_stream_view [OF less.prems] prepend_def)
qed

text \<open>Induction over the frames of the received data.\<close>

lemma frame_induct [case_names frame]:
  assumes "\<And>a. (\<And>tot. 2 \<le> tot \<and> tot \<le> length a \<Longrightarrow> P (drop tot a)) \<Longrightarrow> P a"
  shows "P (a :: byte list)"
proof (induction "length a" arbitrary: a rule: less_induct)
  case less
  show ?case
  proof (rule assms)
    fix tot
    assume "2 \<le> tot \<and> tot \<le> length a"
    then have "length (drop tot a) < length a" by auto
    then show "P (drop tot a)" by (rule less.hyps)
  qed
qed

lemma decode_loop_empty [simp]:
  "decode_stream bio ts sl [] 0 op t =
     \<lparr>d_ret = int (length t), d_opcode = op, d_left = 0, d_target = t\<rparr>"
  by (simp add: decode_stream_view view_def)

lemmas loop_here = decode_stream_view [OF order_refl]

lemma decode_loop_junk:
  "decode_stream bio ts sl (a @ junk) (length a) op t = decode_stream bio ts sl a (length a) op t"
proof (induction a arbitrary: op t rule: frame_induct)
  case (frame a)
  have "view (a @ junk) (length a) = view a (length a)" by (rule view_append) auto
  then show ?case
    using frame.IH view_total [of a]
    by (cases "view a (length a)")
      (auto simp: loop_here [where frame = a] decode_stream_view [of "length a" "a @ junk"] split: prod.split)
qed

text \<open>
  Reassembly: when a piece \<open>a\<close> of the stream was decoded without error, decoding its last
  \<^verbatim>\<open>left\<close> bytes together with the next piece continues as if both had arrived together.
\<close>

definition rest :: "byte list \<Rightarrow> decoded \<Rightarrow> byte list" where
  "rest a r = drop (length a - d_left r) a"

lemma decode_loop_left:
  "0 \<le> d_ret (decode_stream bio ts sl a (length a) op t)
   \<Longrightarrow> d_left (decode_stream bio ts sl a (length a) op t) \<le> length a"
proof (induction a arbitrary: op t rule: frame_induct)
  case (frame a)
  have IH: "d_left (decode_stream bio ts sl (drop tot a) (length a - tot) op' t') \<le> length a"
    if "2 \<le> tot \<and> tot \<le> length a" "0 \<le> d_ret (decode_stream bio ts sl (drop tot a) (length a - tot) op' t')"
    for tot op' t'
    using frame.IH [OF that(1), of op' t'] that(2) by simp
  show ?case
    using frame.prems IH view_total [of a]
    by (cases "view a (length a)") (auto simp: loop_here [where frame = a] split: prod.splits if_splits)
qed

lemma decode_loop_opcode:
  assumes "2 \<le> remaining" "remaining \<le> length frame"
  shows "decode_stream bio ts sl frame remaining op t = decode_stream bio ts sl frame remaining op' t"
proof -
  have "view frame remaining \<noteq> Short" using assms(1) by (auto simp: view_def Let_def split: option.splits)
  then show ?thesis
    by (cases "view frame remaining") (simp_all add: decode_stream_view [OF assms(2)])
qed

lemma decode_loop_chunk:
  assumes "r = decode_stream bio ts sl a (length a) op t" "0 \<le> d_ret r"
  shows "decode_stream bio ts sl (a @ b) (length (a @ b)) op t =
    decode_stream bio ts sl (rest a r @ b) (length (rest a r @ b)) (d_opcode r) (d_target r)"
  using assms
proof (induction a arbitrary: op t rule: frame_induct)
  case (frame a)
  have two: "view a (length a) \<noteq> Short \<Longrightarrow> 2 \<le> length a" by (cases "length a < 2") (auto simp: view_def)
  have step: "decode_stream bio ts sl (drop tot (a @ b)) (length a + length b - tot) op' t' =
      decode_stream bio ts sl (rest a r @ b) (length (rest a r @ b)) (d_opcode r) (d_target r)"
    if "2 \<le> tot \<and> tot \<le> length a" "r = decode_stream bio ts sl (drop tot a) (length a - tot) op' t'"
    for tot op' t'
  proof -
    have "d_left r \<le> length a - tot"
      using decode_loop_left [of bio ts sl "drop tot a" op' t'] that(2) frame.prems(2) by simp
    then have "length a - tot - d_left r + tot = length a - d_left r" using that(1) by linarith
    then have "rest (drop tot a) r = rest a r" by (simp add: rest_def)
    then show ?thesis using frame.IH [OF that(1), of op' t'] that frame.prems(2) by simp
  qed
  show ?case
  proof (cases "view a (length a)")
    case Short
    with frame.prems show ?thesis by (simp add: loop_here [where frame = a] rest_def)
  next
    case Close
    with frame.prems two show ?thesis
      by (simp add: loop_here [where frame = a] rest_def decode_loop_opcode [of "length a + length b" "a @ b" _ _ _ op _ 8])
  next
    case (Partial op')
    with frame.prems two show ?thesis
      by (simp add: loop_here [where frame = a] rest_def decode_loop_opcode [of "length a + length b" "a @ b" _ _ _ op _ op'])
  next
    case (Bad op')
    with frame.prems show ?thesis by (simp add: loop_here [where frame = a])
  next
    case (Skip op' tot)
    have v: "view (a @ b) (length a + length b) = Skip op' tot"
      using view_append [of a "length a + length b" b] Skip by simp
    show ?thesis
      using step [of tot op' t] view_total(1) [OF Skip] frame.prems(1) Skip
      by (simp add: loop_here [where frame = a] decode_stream_view [where frame = "a @ b"] v)
  next
    case (Data op' tot payload)
    have v: "view (a @ b) (length a + length b) = Data op' tot payload"
      using view_append [of a "length a + length b" b] Data by simp
    show ?thesis
      using step [of tot op' "t @ snd (content bio ts op' payload)"] view_total(2) [OF Data] frame.prems Data
      by (auto simp: loop_here [where frame = a] decode_stream_view [where frame = "a @ b"] v split: prod.splits if_splits)
  qed
qed

section \<open>RFC 6455 frames\<close>

text \<open>
  The wire format of a frame with first byte \<open>b0\<close>: length in 7 or 16 bits, a masking key
  of four bytes, and the payload, whose bytes are combined with the bytes of the key in turn.
\<close>

definition length_bytes :: "byte \<Rightarrow> nat \<Rightarrow> byte list" where
  "length_bytes m n =
     (if n < 126 then [m OR word_of_nat n]
      else [m OR 126, word_of_nat (n div 256), word_of_nat n])"

fun apply_key :: "byte list \<Rightarrow> byte list \<Rightarrow> byte list" where
  "apply_key key [] = []"
| "apply_key key (b # bs) = (b XOR hd key) # apply_key (rotate1 key) bs"

definition masked_frame :: "byte \<Rightarrow> byte list \<Rightarrow> byte list \<Rightarrow> byte list" where
  "masked_frame b0 key payload = b0 # length_bytes 0x80 (length payload) @ key @ apply_key key payload"

lemma length_apply_key [simp]: "length (apply_key key p) = length p"
  by (induction key p rule: apply_key.induct) auto

lemma apply_key_nth: "\<lbrakk>length key = 4; i < length p\<rbrakk> \<Longrightarrow> apply_key key p ! i = p ! i XOR key ! (i mod 4)"
proof (induction key p arbitrary: i rule: apply_key.induct)
  case (2 key b bs)
  have "key \<noteq> []" using 2(2) by auto
  then show ?case using 2 by (cases i) (simp_all add: hd_conv_nth nth_rotate1 mod_Suc_eq)
qed simp

lemma unmask_apply_key: "length key = 4 \<Longrightarrow> unmask key (apply_key key p) = p"
  by (rule nth_equalityI) (simp_all add: unmask_def apply_key_nth xor.assoc)

lemma unat_and_7f: "unat ((w :: byte) AND 0x7f) = unat w mod 128"
proof -
  have "w AND 0x7f = take_bit 7 w" by (simp add: take_bit_eq_mask mask_eq_decr_exp)
  then have "unat (w AND 0x7f) = take_bit 7 (unat w)" by (simp only: unsigned_take_bit_eq)
  then show ?thesis by (simp add: take_bit_eq_mod)
qed

lemma mask_bit_and_7f: "unat ((0x80 OR (w :: byte)) AND 0x7f) = unat w mod 128"
proof -
  have "(0x80 OR w) AND 0x7f = w AND 0x7f"
    by (simp add: bit.conj_disj_distrib2)
  then show ?thesis by (simp add: unat_and_7f)
qed

lemma mask_bit_set: "unat (drop_bit 7 ((0x80 OR (w :: byte)) AND 0x80)) = 1"
proof -
  have "(0x80 OR w) AND 0x80 = 0x80" by (simp add: and.commute)
  then show ?thesis by simp
qed

lemma split_16: "n < 65536 \<Longrightarrow> unat (word_of_nat (n div 256) :: byte) * 256 + unat (word_of_nat n :: byte) = n"
  by (simp add: unat_of_nat take_bit_eq_mod)

lemma masked_frame_header:
  assumes "length payload < 65536"
  shows "frame_opcode (masked_frame b0 key payload) = unat (b0 AND 0x0f)"
    "frame_masked (masked_frame b0 key payload) = 1"
    "frame_lengths (masked_frame b0 key payload)
       = Some (if length payload < 126 then 2 else 4, length payload)"
  using assms
  by (auto simp: masked_frame_def frame_opcode_def frame_masked_def frame_lengths_def
      length_bytes_def mask_bit_set mask_bit_and_7f split_16 unat_of_nat take_bit_eq_mod Let_def)

text \<open>
  A stream of complete masked frames, none of them a close frame, is decoded to the
  concatenation of the payloads of its data frames (binary opcode); whatever follows them
  is decoded as if it came first.
\<close>

definition binary_payload :: "byte \<times> byte list \<times> byte list \<Rightarrow> byte list" where
  "binary_payload = (\<lambda>(b0, key, p). if unat (b0 AND 0x0f) = OPCODE_BINARY then p else [])"

definition client_frame_ok :: "byte \<times> byte list \<times> byte list \<Rightarrow> bool" where
  "client_frame_ok = (\<lambda>(b0, key, p). length key = 4 \<and> length p < 65536
     \<and> unat (b0 AND 0x0f) \<noteq> 8 \<and> unat (b0 AND 0x0f) \<noteq> OPCODE_TEXT)"

definition wire :: "byte \<times> byte list \<times> byte list \<Rightarrow> byte list" where
  "wire = (\<lambda>(b0, key, p). masked_frame b0 key p)"

lemma view_masked_frame:
  assumes "length key = 4" "length p < 65536" "unat (b0 AND 0x0f) \<noteq> 8"
  shows "view (masked_frame b0 key p @ b) (length (masked_frame b0 key p @ b)) =
    (let op = unat (b0 AND 0x0f); tot = length (masked_frame b0 key p) in
     if op \<noteq> OPCODE_TEXT \<and> op \<noteq> OPCODE_BINARY \<or> p = [] then Skip op tot else Data op tot p)"
proof -
  let ?f = "masked_frame b0 key p"
  note hdr = masked_frame_header [OF assms(2), of b0 key]
  define h where "h = (if length p < 126 then 2 else 4 :: nat)"
  have len: "length ?f = h + 4 + length p"
    using assms(1) by (simp add: masked_frame_def length_bytes_def h_def)
  have f: "take 4 (drop h ?f) = key" "take (length p) (drop (h + 4) ?f) = apply_key key p"
    using assms(1) by (auto simp: masked_frame_def length_bytes_def h_def)
  have "view ?f (length ?f) = (let op = unat (b0 AND 0x0f) in
      if op \<noteq> OPCODE_TEXT \<and> op \<noteq> OPCODE_BINARY \<or> p = [] then Skip op (length ?f)
      else Data op (length ?f) p)"
    using assms(3) len f hdr h_def [symmetric] unfolding view_def
    by (simp add: unmask_apply_key [OF assms(1)] Let_def)
  then show ?thesis by (subst view_append) (auto simp: Let_def)
qed

lemma decode_frames:
  assumes "\<forall>f\<in>set fs. client_frame_ok f"
  shows "\<exists>op'. decode_stream bio ts sl (concat (map wire fs) @ b) (length (concat (map wire fs) @ b)) op t
    = decode_stream bio ts sl b (length b) op' (t @ concat (map binary_payload fs))"
  using assms
proof (induction fs arbitrary: op t)
  case Nil
  then show ?case by auto
next
  case (Cons f fs)
  obtain b0 key p where f: "f = (b0, key, p)" by (cases f)
  let ?rest = "concat (map wire fs) @ b"
  have ok: "length key = 4" "length p < 65536" "unat (b0 AND 0x0f) \<noteq> 8" "unat (b0 AND 0x0f) \<noteq> OPCODE_TEXT"
    using Cons.prems by (auto simp: f client_frame_ok_def)
  have "decode_stream bio ts sl (wire f @ ?rest) (length (wire f @ ?rest)) op t =
      decode_stream bio ts sl ?rest (length ?rest) (unat (b0 AND 0x0f)) (t @ binary_payload f)"
    using ok(4) view_masked_frame [OF ok(1-3), of ?rest]
    by (subst loop_here) (auto simp: f wire_def binary_payload_def content_def Let_def)
  with Cons.IH [of "unat (b0 AND 0x0f)" "t @ binary_payload f"] Cons.prems show ?case by simp
qed

text \<open>On success the bookkeeping argument \<open>srclength\<close> plays no part.\<close>

lemma decode_loop_sl:
  "0 \<le> d_ret (decode_stream bio ts sl a (length a) op t) \<Longrightarrow>
   decode_stream bio ts sl' a (length a) op t = decode_stream bio ts sl a (length a) op t"
proof (induction a arbitrary: op t rule: frame_induct)
  case (frame a)
  show ?case
    using frame.prems frame.IH view_total [of a]
    by (cases "view a (length a)") (auto simp: loop_here [where frame = a] split: prod.splits if_splits)
qed

lemma decode_loop_sl_error:
  "decode_stream bio ts sl' a (length a) op t = decode_stream bio ts sl a (length a) op t
     \<lparr>d_left := d_left (decode_stream bio ts sl' a (length a) op t)\<rparr>"
proof (induction a arbitrary: op t rule: frame_induct)
  case (frame a)
  show ?case
    using frame.IH view_total [of a]
    by (cases "view a (length a)") (auto simp: loop_here [where frame = a] split: prod.splits)
qed

lemma decode_loop_ret:
  "0 \<le> d_ret (decode_stream bio ts sl a (length a) op t) \<Longrightarrow>
   d_ret (decode_stream bio ts sl a (length a) op t)
     = int (length (d_target (decode_stream bio ts sl a (length a) op t)))"
proof (induction a arbitrary: op t rule: frame_induct)
  case (frame a)
  show ?case
    using frame.prems frame.IH view_total [of a]
    by (cases "view a (length a)") (auto simp: loop_here [where frame = a] split: prod.splits if_splits)
qed

text \<open>The payload is never longer than the data it came in, if base64 text is not.\<close>

definition bio_read_ok :: "bio_read \<Rightarrow> bool" where
  "bio_read_ok bio \<longleftrightarrow>
     (\<forall>s n len data pending. bio s n = (len, data, pending) \<longrightarrow>
        len \<le> int n \<and> len \<le> int (length s) \<and> (0 < len \<longrightarrow> length data = nat len))"

lemma content_length:
  assumes "bio_read_ok bio" "content bio ts op payload = (len, data)" "0 \<le> len"
  shows "len = int (length data) \<and> length data \<le> length payload"
proof (cases "op = OPCODE_TEXT")
  case True
  obtain n d q where r: "bio (takeWhile (\<lambda>b. b \<noteq> 0) payload) ts = (n, d, q)"
    by (cases "bio (takeWhile (\<lambda>b. b \<noteq> 0) payload) ts")
  then have "n \<le> int ts \<and> n \<le> int (length (takeWhile (\<lambda>b. b \<noteq> 0) payload)) \<and> (0 < n \<longrightarrow> length d = nat n)"
    using assms(1) unfolding bio_read_ok_def by blast
  moreover have "length (takeWhile (\<lambda>b. b \<noteq> 0) payload) \<le> length payload"
    by (rule length_takeWhile_le)
  ultimately show ?thesis
    using assms(2,3) True r by (auto simp: content_def ws_b64_pton_def Let_def split: if_splits)
next
  case False
  then show ?thesis using assms(2) by (auto simp: content_def)
qed

lemma decode_loop_length:
  assumes "bio_read_ok bio" "r = decode_stream bio ts sl a (length a) op t" "0 \<le> d_ret r"
  shows "d_ret r = int (length (d_target r)) \<and> length (d_target r) + d_left r \<le> length t + length a"
  using assms(2,3)
proof (induction a arbitrary: op t rule: frame_induct)
  case (frame a)
  show ?case
  proof (cases "view a (length a)")
    case (Skip op' tot)
    then have "r = decode_stream bio ts sl (drop tot a) (length (drop tot a)) op' t"
      using frame.prems by (simp add: loop_here [where frame = a])
    then show ?thesis
      using frame.IH [of tot op' t] frame.prems(2) view_total(1) [OF Skip] by auto
  next
    case (Data op' tot payload)
    obtain len data where c: "content bio ts op' payload = (len, data)" by force
    have len: "0 \<le> len" "r = decode_stream bio ts sl (drop tot a) (length (drop tot a)) op' (t @ data)"
      using frame.prems Data by (auto simp: loop_here [where frame = a] c split: if_splits)
    then show ?thesis
      using frame.IH [of tot op' "t @ data"] frame.prems(2) view_total(2) [OF Data]
        content_length [OF assms(1) c] by auto
  qed (use frame.prems in \<open>simp_all add: loop_here [where frame = a]\<close>)
qed

section \<open>The encoder\<close>

definition plain_frame :: "byte \<Rightarrow> byte list \<Rightarrow> byte list" where
  "plain_frame b0 payload = b0 # length_bytes 0 (length payload) @ payload"

lemma encode_hybi_binary:
  assumes "src \<noteq> []" "length src < 65536"
  shows "encode_hybi bio src ts OPCODE_BINARY = (int (length (plain_frame 0x82 src)), plain_frame 0x82 src)"
proof -
  have "word_of_int (int n div 256) = (word_of_nat (n div 256) :: byte)" for n
    by (metis of_int_of_nat_eq of_nat_div of_nat_numeral)
  then show ?thesis
    using assms
    by (auto simp: encode_hybi_def plain_frame_def length_bytes_def OPCODE_BINARY_def OPCODE_TEXT_def
        c_int_id Let_def htons_bytes_def)
qed

section \<open>decode\_hybi\<close>

text \<open>One frame of the code's loop, in the terms of the stream decoder.\<close>

lemma decode_hybi_loop_view:
  assumes "remaining \<le> length frame" "2 \<le> remaining \<Longrightarrow> reads_length frame \<Longrightarrow> 4 \<le> length frame"
  shows "decode_hybi_loop bio ts sl frame remaining opcode target =
    (case view frame remaining of
       Skip op tot \<Rightarrow> decode_hybi_loop bio ts sl (drop tot frame) (remaining - tot) op target
     | Data op tot payload \<Rightarrow>
         let (len, data) = content bio ts op payload in
         if len < 0 then Inr \<lparr>d_ret = len, d_opcode = op, d_left = sl, d_target = target @ data\<rparr>
         else decode_hybi_loop bio ts sl (drop tot frame) (remaining - tot) op (target @ data)
     | Short \<Rightarrow> Inr \<lparr>d_ret = int (length target), d_opcode = opcode, d_left = remaining, d_target = target\<rparr>
     | Close \<Rightarrow> Inr \<lparr>d_ret = int (length target), d_opcode = 8, d_left = remaining, d_target = target\<rparr>
     | Partial op \<Rightarrow> Inr \<lparr>d_ret = int (length target), d_opcode = op, d_left = remaining, d_target = target\<rparr>
     | Bad op \<Rightarrow> Inr \<lparr>d_ret = - 1, d_opcode = op, d_left = sl, d_target = target\<rparr>)"
proof (cases "remaining < 2 \<or> frame_opcode frame = 8")
  case True
  then show ?thesis by (subst decode_hybi_loop.simps) (auto simp: view_def)
next
  case False
  have "length (unmask m p) = length p" for m p by (simp add: unmask_def)
  moreover have "\<not> (reads_length frame \<and> length frame < 4)" using assms(2) False by auto
  ultimately show ?thesis
    using assms(1) False frame_masked_le [of frame]
    by (subst decode_hybi_loop.simps, cases "frame_lengths frame")
      (auto simp: view_def content_def Let_def min_def)
qed

text \<open>
  The loop gives what the stream decoder gives on the received bytes, unless these end in
  the first two or three bytes of a header with a 16 bit length and the buffer ends too.
\<close>

definition header_cut :: "byte list \<Rightarrow> nat \<Rightarrow> bool" where
  "header_cut a n \<longleftrightarrow> 2 \<le> n \<and> n \<le> length a \<and> unat (a ! (length a - n + 1) AND 0x7f) = 126"

lemma header_cut_drop: "k \<le> length a \<Longrightarrow> header_cut (drop k a) n \<Longrightarrow> header_cut a n"
  by (auto simp: header_cut_def)

lemma decode_hybi_loop_stream:
  "decode_hybi_loop bio ts sl (a @ stale) (length a) op t = Inr (decode_stream bio ts sl a (length a) op t)
   \<or> decode_hybi_loop bio ts sl (a @ stale) (length a) op t = Inl ReadBeyond
     \<and> (\<exists>n. header_cut a n \<and> n + length stale < 4 \<and> 0 \<le> d_ret (decode_stream bio ts sl a (length a) op t)
           \<and> d_left (decode_stream bio ts sl a (length a) op t) = n)"
proof (induction a arbitrary: op t rule: frame_induct)
  case (frame a)
  have v: "view (a @ stale) (length a) = view a (length a)" by (rule view_append) auto
  show ?case
  proof (cases "2 \<le> length a \<and> reads_length (a @ stale) \<and> length (a @ stale) < 4 \<and> frame_opcode (a @ stale) \<noteq> 8")
    case True
    have r: "unat (a ! 1 AND 0x7f) = 126" using True by (auto simp: reads_length_def nth_append)
    have "view a (length a) = Partial (frame_opcode a)"
      using True r header_append(1) [of a stale] by (simp add: view_def frame_lengths_def Let_def)
    moreover have "decode_hybi_loop bio ts sl (a @ stale) (length a) op t = Inl ReadBeyond"
      using True by (subst decode_hybi_loop.simps) simp
    moreover have "header_cut a (length a)" using True r by (simp add: header_cut_def)
    ultimately show ?thesis using True by (simp add: loop_here [where frame = a])
  next
    case False
    show ?thesis
    proof (cases "2 \<le> length a \<and> frame_opcode (a @ stale) = 8")
      case True
      then have "view a (length a) = Close" using header_append(1) [of a stale] by (simp add: view_def)
      then show ?thesis
        using True by (subst decode_hybi_loop.simps) (simp add: loop_here [where frame = a])
    next
      case no8: False
      with False have "2 \<le> length a \<Longrightarrow> reads_length (a @ stale) \<Longrightarrow> 4 \<le> length (a @ stale)" by auto
      note l = decode_hybi_loop_view [of "length a" "a @ stale", OF _ this, unfolded v, simplified]
      have IH: "decode_hybi_loop bio ts sl (drop tot a @ stale) (length a - tot) op' t'
            = Inr (decode_stream bio ts sl (drop tot a) (length a - tot) op' t')
          \<or> decode_hybi_loop bio ts sl (drop tot a @ stale) (length a - tot) op' t' = Inl ReadBeyond
            \<and> (\<exists>n. header_cut a n \<and> n + length stale < 4
                 \<and> 0 \<le> d_ret (decode_stream bio ts sl (drop tot a) (length a - tot) op' t')
                 \<and> d_left (decode_stream bio ts sl (drop tot a) (length a - tot) op' t') = n)"
        if "2 \<le> tot \<and> tot \<le> length a" for tot op' t'
        using frame.IH [OF that, of op' t'] header_cut_drop [of tot a] that by auto
      have same: "decode_stream bio ts sl (a @ stale) (length a) op t = decode_stream bio ts sl a (length a) op t"
        by (rule decode_loop_junk)
      show ?thesis
        using IH view_total [of a] l same
        by (cases "view a (length a)") (auto simp: loop_here [where frame = a] split: prod.splits)
    qed
  qed
qed

lemma decode_hybi_loop_ok:
  "2 \<le> length stale \<Longrightarrow>
   decode_hybi_loop bio ts sl (a @ stale) (length a) op t = Inr (decode_stream bio ts sl a (length a) op t)"
  using decode_hybi_loop_stream [of bio ts sl a stale op t] by (auto simp: header_cut_def)

text \<open>A result of decode\_hybi is that of the stream decoder on the received bytes.\<close>

lemma decode_hybi_Inr:
  "decode_hybi bio (a @ stale) (length a) ts op = Inr r \<Longrightarrow> r = decode_stream bio ts (length a) a (length a) op []"
  using decode_hybi_loop_stream [of bio ts "length a" a stale op "[]"] by (auto simp: decode_hybi_def)

lemma decode_hybi_Inl:
  assumes "decode_hybi bio (a @ stale) (length a) ts op = Inl f"
  shows "f = ReadBeyond" "\<exists>n. header_cut a n \<and> n + length stale < 4"
  using assms decode_hybi_loop_stream [of bio ts "length a" a stale op "[]"] by (auto simp: decode_hybi_def)

lemma decode_hybi_chunks:
  assumes "decode_hybi bio (a @ x) (length a) ts op = Inr r" "0 \<le> d_ret r"
    and "decode_hybi bio (rest a r @ b @ y) (length (rest a r @ b)) ts (d_opcode r) = Inr s"
    and "decode_hybi bio (a @ b @ z) (length (a @ b)) ts op = Inr w"
  shows "d_target w = d_target r @ d_target s \<and> d_opcode w = d_opcode s
    \<and> d_ret w = (if d_ret s < 0 then d_ret s else d_ret r + d_ret s)
    \<and> (0 \<le> d_ret s \<longrightarrow> d_left w = d_left s)"
proof -
  let ?L = "decode_stream bio ts (length (a @ b))" and ?c = "rest a r @ b"
  have r0: "r = decode_stream bio ts (length a) a (length a) op []" by (rule decode_hybi_Inr [OF assms(1)])
  have s0: "s = decode_stream bio ts (length ?c) ?c (length ?c) (d_opcode r) []"
    by (rule decode_hybi_Inr [where stale = y]) (use assms(3) in simp)
  have w0: "w = ?L (a @ b) (length (a @ b)) op []"
    by (rule decode_hybi_Inr [where stale = z]) (use assms(4) in simp)
  have r: "r = ?L a (length a) op []" "d_ret r = int (length (d_target r))"
    using r0 assms(2) decode_loop_sl [of bio ts "length a" a op "[]" "length (a @ b)"]
      decode_loop_ret [of bio ts "length a" a op "[]"] by simp_all
  have "w = ?L ?c (length ?c) (d_opcode r) (d_target r @ [])"
    using decode_loop_chunk [OF r(1) assms(2), of b] w0 by simp
  then have w: "w = prepend (d_target r) (?L ?c (length ?c) (d_opcode r) [])"
    using decode_stream_target [of "length ?c" ?c bio ts "length (a @ b)" "d_opcode r" "d_target r" "[]"]
    by simp
  define q where "q = ?L ?c (length ?c) (d_opcode r) []"
  have q: "q = s\<lparr>d_left := d_left q\<rparr>"
    using decode_loop_sl_error [of bio ts "length (a @ b)" ?c "d_opcode r" "[]" "length ?c"] s0
    by (simp add: q_def)
  have q_sel: "d_target q = d_target s" "d_opcode q = d_opcode s" "d_ret q = d_ret s"
    using arg_cong [OF q, of d_target] arg_cong [OF q, of d_opcode] arg_cong [OF q, of d_ret] by simp_all
  have "0 \<le> d_ret s \<Longrightarrow> q = s"
    using decode_loop_sl [of bio ts "length ?c" ?c "d_opcode r" "[]" "length (a @ b)"] s0
    by (simp add: q_def)
  then show ?thesis unfolding w q_def [symmetric] by (simp add: prepend_def r(2) q_sel)
qed

text \<open>Complete frames leave nothing, and so nothing behind them is read.\<close>

lemma decode_hybi_frames:
  assumes "\<forall>f\<in>set fs. client_frame_ok f"
  shows "\<exists>op'. decode_hybi bio (concat (map wire fs) @ stale) (length (concat (map wire fs))) ts op =
    Inr \<lparr>d_ret = int (length (concat (map binary_payload fs))), d_opcode = op', d_left = 0,
     d_target = concat (map binary_payload fs)\<rparr>"
proof -
  let ?a = "concat (map wire fs)"
  obtain op' where "decode_stream bio ts (length ?a) ?a (length ?a) op [] =
      \<lparr>d_ret = int (length (concat (map binary_payload fs))), d_opcode = op', d_left = 0,
       d_target = concat (map binary_payload fs)\<rparr>"
    using decode_frames [OF assms, of bio ts "length ?a" "[]" op "[]"] by auto
  then show ?thesis
    using decode_hybi_loop_stream [of bio ts "length ?a" ?a stale op "[]"]
    by (auto simp: decode_hybi_def header_cut_def)
qed

text \<open>The loop goes through complete frames without looking at what is behind them.\<close>

lemma decode_hybi_loop_frames:
  assumes "\<forall>f\<in>set fs. client_frame_ok f" "n \<le> length m"
  shows "\<exists>op'. decode_hybi_loop bio ts sl (concat (map wire fs) @ m) (length (concat (map wire fs)) + n) op t
    = decode_hybi_loop bio ts sl m n op' (t @ concat (map binary_payload fs))"
  using assms
proof (induction fs arbitrary: op t)
  case Nil
  then show ?case by auto
next
  case (Cons f fs)
  obtain b0 key p where f: "f = (b0, key, p)" by (cases f)
  let ?rest = "concat (map wire fs) @ m" and ?n = "length (concat (map wire fs)) + n"
  have ok: "length key = 4" "length p < 65536" "unat (b0 AND 0x0f) \<noteq> 8" "unat (b0 AND 0x0f) \<noteq> OPCODE_TEXT"
    using Cons.prems by (auto simp: f client_frame_ok_def)
  let ?w = "masked_frame b0 key p"
  have len: "6 \<le> length ?w" using ok(1) by (simp add: masked_frame_def length_bytes_def)
  have v0: "view ?w (length ?w) = (let op = unat (b0 AND 0x0f); tot = length ?w in
     if op \<noteq> OPCODE_TEXT \<and> op \<noteq> OPCODE_BINARY \<or> p = [] then Skip op tot else Data op tot p)"
    using view_masked_frame [OF ok(1-3), of "[]"] by simp
  have v: "view (?w @ ?rest) (length ?w + ?n) = view ?w (length ?w)"
    by (rule view_append) (auto simp: v0 Let_def)
  have "decode_hybi_loop bio ts sl (?w @ ?rest) (length ?w + ?n) op t =
      decode_hybi_loop bio ts sl ?rest ?n (unat (b0 AND 0x0f)) (t @ binary_payload f)"
    using ok(4) len Cons.prems(2) v0
    by (subst decode_hybi_loop_view) (auto simp: v f binary_payload_def content_def Let_def)
  with Cons.IH [of "unat (b0 AND 0x0f)" "t @ binary_payload f"] Cons.prems show ?case
    by (simp add: f wire_def add.assoc)
qed

end
