(* ===== verification/WebSocketTypes.thy ===== *)
theory WebSocketTypes
  imports KasmPrelude
begin

text \<open>
  The connection state of \<^verbatim>\<open>src/common/network/websocket.h\<close>. C strings are strings
  without the terminating zero. The buffers of \<^verbatim>\<open>ws_ctx_t\<close> belong to the proxy loop,
  which keeps them in its own state.
\<close>

record headers_t =
  hd_path :: string
  hd_host :: string
  hd_origin :: string
  hd_version :: string
  hd_connection :: string
  hd_protocols :: string
  hd_key1 :: string
  hd_key2 :: string
  hd_key3 :: string

record ws_ctx =
  over_ssl :: bool
  hixie :: int
  hybi :: int
  ws_opcode :: nat
  headers :: headers_t
  ws_user :: string
  ws_ip :: string

end
