(* ===== verification/WebSocketProxy.thy ===== *)
theory WebSocketProxy
  imports WebSocketStream WebSocketTypes
begin

text \<open>
  The proxy loop do\_proxy of \<^verbatim>\<open>src/common/network/websockify.c\<close>, which copies frames
  between a WebSocket client and the VNC server's socket (the target).

  One iteration of the loop is a function of the loop's variables and of what the
  system calls of the iteration return. The bytes of a buffer up to its end index are a
  list; \<open>tin\<close> is tin\_buf up to tin\_end. The history fields record what has passed
  through the two sockets so far, and whether a send to the client has failed.
\<close>

section \<open>The loop\<close>

record proxy =
  tin :: "byte list"
  tout_buf :: "byte list"
  tout_start :: nat
  tout_end :: nat
  cout_buf :: "byte list"
  cout_start :: nat
  cout_end :: nat
  p_opcode :: nat
  p_left :: nat
  from_client :: "byte list"
  to_target :: "byte list"
  from_target :: "byte list list"
  to_client :: "byte list"
  send_failed :: bool

datatype stop_reason =
    PipeError | TargetException | ClientException | SelectFailed | TargetError
  | TargetClosed | EncodingError | ClientClosed | CloseFrame | DecodingError
  | NullPointer | OverRead

text \<open>
  What the system calls of one iteration give: the result of select and the sets it left,
  the values of pipe\_error after each call, and the results of the four transfers.
  \<open>tin_stale\<close> is what tin\_buf holds behind the received bytes, up to its end.
\<close>

record io =
  sel_ret :: int
  sel_r_client :: bool
  sel_r_target :: bool
  sel_w_client :: bool
  sel_w_target :: bool
  sel_e_client :: bool
  sel_e_target :: bool
  pe_select :: bool
  pe_send_target :: bool
  pe_send_client :: bool
  pe_recv_target :: bool
  pe_recv_client :: bool
  send_target :: int
  send_client :: int
  recv_target :: "int \<times> byte list"
  recv_client :: "int \<times> byte list"
  tin_stale :: "byte list"

type_synonym stage = "proxy \<times> stop_reason option"

definition then_stage :: "stage \<Rightarrow> (proxy \<Rightarrow> stage) \<Rightarrow> stage" where
  "then_stage s f = (case s of (p, None) \<Rightarrow> f p | (p, Some r) \<Rightarrow> (p, Some r))"

definition write_target :: "io \<Rightarrow> proxy \<Rightarrow> stage" where
  "write_target e p =
     (let len = tout_end p - tout_start p; bytes = send_target e;
          p1 = p\<lparr>to_target := to_target p @ take (nat bytes) (take len (drop (tout_start p) (tout_buf p)))\<rparr>
      in if pe_send_target e then (p1, Some PipeError)
         else if bytes < 0 then (p1, Some TargetError)
         else
           let start = u32 (int (tout_start p) + bytes) in
           (if start \<ge> tout_end p then p1\<lparr>tout_start := 0, tout_end := 0\<rparr>
            else p1\<lparr>tout_start := start\<rparr>, None))"

definition write_client :: "io \<Rightarrow> proxy \<Rightarrow> stage" where
  "write_client e p =
     (let len = cout_end p - cout_start p; bytes = send_client e;
          p1 = p\<lparr>to_client := to_client p @ take (nat bytes) (take len (drop (cout_start p) (cout_buf p))),
                 send_failed := send_failed p \<or> bytes < 0\<rparr>
      in if pe_send_client e then (p1, Some PipeError)
         else
           let start = u32 (int (cout_start p) + bytes) in
           (if start \<ge> cout_end p then p1\<lparr>cout_start := 0, cout_end := 0\<rparr>
            else p1\<lparr>cout_start := start\<rparr>, None))"

text \<open>cout\_end is unsigned, so the test for an encoding error never succeeds.\<close>

definition read_target :: "bio_write \<Rightarrow> ws_ctx \<Rightarrow> io \<Rightarrow> proxy \<Rightarrow> stage" where
  "read_target bio ctx e p =
     (let (bytes, data) = recv_target e in
      if pe_recv_target e then (p, Some PipeError)
      else if bytes \<le> 0 then (p, Some TargetClosed)
      else
        let (ret, buf) =
              (if hybi ctx \<noteq> 0 then encode_hybi bio data BUFSIZE (ws_opcode ctx)
               else encode_hixie bio data BUFSIZE);
            p1 = p\<lparr>cout_start := 0, cout_end := u32 ret, cout_buf := buf,
                   from_target := from_target p @ [data]\<rparr>
        in if int (cout_end p1) < 0 then (p1, Some EncodingError) else (p1, None))"

definition read_client :: "bio_read \<Rightarrow> ws_ctx \<Rightarrow> io \<Rightarrow> proxy \<Rightarrow> stage" where
  "read_client bio ctx e p =
     (let (bytes, data) = recv_client e in
      if pe_recv_client e then (p, Some PipeError)
      else if bytes \<le> 0 then (p, Some ClientClosed)
      else
        let buf = tin p @ data; mem = buf @ tin_stale e;
            p1 = p\<lparr>tin := buf, from_client := from_client p @ data\<rparr>
        in case (if hybi ctx \<noteq> 0
                 then decode_hybi bio mem (length buf) (BUFSIZE - 1) (p_opcode p)
                 else decode_hixie bio mem (length buf) (BUFSIZE - 1) (p_opcode p) (p_left p)) of
             Inl NullWrite \<Rightarrow> (p1, Some NullPointer)
           | Inl ReadBeyond \<Rightarrow> (p1, Some OverRead)
           | Inr d \<Rightarrow>
               let p2 = p1\<lparr>p_opcode := d_opcode d, p_left := d_left d, tout_buf := d_target d\<rparr> in
               if d_opcode d = 8 then (p2, Some CloseFrame)
               else if d_ret d < 0 then (p2, Some DecodingError)
               else
                 (p2\<lparr>tin := (if d_left d \<noteq> 0 then drop (length buf - d_left d) buf else []),
                     tout_start := 0, tout_end := nat (d_ret d)\<rparr>, None))"

text \<open>
  One iteration. A descriptor is in a result set of select only if it was put into the
  set before.
\<close>

definition proxy_step :: "bio_write \<Rightarrow> bio_read \<Rightarrow> ws_ctx \<Rightarrow> io \<Rightarrow> proxy \<Rightarrow> stage" where
  "proxy_step bw br ctx e p =
     (let idle_tout = (tout_end p = tout_start p);
          idle_cout = (cout_end p = cout_start p)
      in if pe_select e then (p, Some PipeError)
         else if sel_e_target e then (p, Some TargetException)
         else if sel_e_client e then (p, Some ClientException)
         else if sel_ret e = - 1 then (p, Some SelectFailed)
         else if sel_ret e = 0 then (p, None)
         else
           then_stage (then_stage (then_stage
             (if \<not> idle_tout \<and> sel_w_target e then write_target e p else (p, None))
             (\<lambda>p. if \<not> idle_cout \<and> sel_w_client e then write_client e p else (p, None)))
             (\<lambda>p. if idle_cout \<and> sel_r_target e then read_target bw ctx e p else (p, None)))
             (\<lambda>p. if idle_tout \<and> sel_r_client e then read_client br ctx e p else (p, None)))"

fun do_proxy :: "bio_write \<Rightarrow> bio_read \<Rightarrow> ws_ctx \<Rightarrow> io list \<Rightarrow> proxy \<Rightarrow> stage" where
  "do_proxy bw br ctx [] p = (p, None)"
| "do_proxy bw br ctx (e # es) p =
     then_stage (proxy_step bw br ctx e p) (do_proxy bw br ctx es)"

text \<open>The start of the loop. opcode and left are not initialised.\<close>

definition proxy_init :: "nat \<Rightarrow> nat \<Rightarrow> proxy" where
  "proxy_init op lft =
     \<lparr>tin = [], tout_buf = [], tout_start = 0, tout_end = 0, cout_buf = [], cout_start = 0,
      cout_end = 0, p_opcode = op, p_left = lft, from_client = [], to_target = [],
      from_target = [], to_client = [], send_failed = False\<rparr>"

end
