(* ===== verification/WebSocketProxyInv.thy ===== *)
theory WebSocketProxyInv
  imports WebSocketProxy "HOL-Library.Sublist"
begin

unbundle bit_operations_syntax

text \<open>
  Invariants of the proxy loop: every index stays inside its buffer, and no byte is lost,
  repeated or reordered in either direction, whatever the sockets deliver and accept per
  call.
\<close>

section \<open>Reachable states\<close>

text \<open>
  What send and recv promise: never more bytes than asked for, exactly the number of bytes
  they return, and -1 on errors. The receive buffer has BUFSIZE bytes.
\<close>

definition sends_target :: "io \<Rightarrow> proxy \<Rightarrow> bool" where
  "sends_target e p \<longleftrightarrow> send_target e \<le> int (tout_end p - tout_start p)"

definition sends_client :: "io \<Rightarrow> proxy \<Rightarrow> bool" where
  "sends_client e p \<longleftrightarrow> - 1 \<le> send_client e \<and> send_client e \<le> int (cout_end p - cout_start p)"

definition recvs_target :: "io \<Rightarrow> bool" where
  "recvs_target e \<longleftrightarrow> (case recv_target e of (n, data) \<Rightarrow>
     n \<le> int DBUFSIZE \<and> (0 < n \<longrightarrow> int (length data) = n))"

definition recvs_client :: "io \<Rightarrow> proxy \<Rightarrow> bool" where
  "recvs_client e p \<longleftrightarrow> (case recv_client e of (n, data) \<Rightarrow>
     n \<le> int (BUFSIZE - 1 - length (tin p))
     \<and> (0 < n \<longrightarrow> int (length data) = n \<and> length (tin p) + length data + length (tin_stale e) = BUFSIZE))"

definition io_ok :: "io \<Rightarrow> proxy \<Rightarrow> bool" where
  "io_ok e p \<longleftrightarrow> sends_target e p \<and> sends_client e p \<and> recvs_target e \<and> recvs_client e p"

inductive reachable :: "bio_write \<Rightarrow> bio_read \<Rightarrow> ws_ctx \<Rightarrow> nat \<Rightarrow> nat \<Rightarrow> proxy \<Rightarrow> bool"
  for bw br ctx op lft
where
  start: "reachable bw br ctx op lft (proxy_init op lft)"
| step: "\<lbrakk>reachable bw br ctx op lft p; io_ok e p; proxy_step bw br ctx e p = (p', None)\<rbrakk>
    \<Longrightarrow> reachable bw br ctx op lft p'"

section \<open>Client to target\<close>

definition pending_target :: "proxy \<Rightarrow> byte list" where
  "pending_target p = drop (tout_start p) (take (tout_end p) (tout_buf p))"

definition in_bounds :: "proxy \<Rightarrow> bool" where
  "in_bounds p \<longleftrightarrow>
     length (tin p) \<le> BUFSIZE - 1
     \<and> tout_start p \<le> tout_end p \<and> tout_end p \<le> length (tout_buf p) \<and> tout_end p \<le> BUFSIZE - 1"

definition inbound :: "bio_read \<Rightarrow> nat \<Rightarrow> proxy \<Rightarrow> bool" where
  "inbound br op p \<longleftrightarrow>
     (let D = to_target p @ pending_target p in
      decode_stream br (BUFSIZE - 1) 0 (from_client p) (length (from_client p)) op []
        = \<lparr>d_ret = int (length D), d_opcode = p_opcode p, d_left = length (tin p), d_target = D\<rparr>
      \<and> length (tin p) \<le> length (from_client p)
      \<and> tin p = drop (length (from_client p) - length (tin p)) (from_client p))"

lemma write_target_inbound:
  assumes "write_target e p = (p', None)" "sends_target e p" "in_bounds p" "inbound br op p"
  shows "in_bounds p' \<and> inbound br op p'"
proof -
  define n where "n = nat (send_target e)"
  have e: "\<not> pe_send_target e" "0 \<le> send_target e"
    using assms(1) by (auto simp: write_target_def Let_def split: if_splits)
  have n: "send_target e = int n" "n \<le> tout_end p - tout_start p"
    using e assms(2) by (auto simp: n_def sends_target_def)
  have u: "u32 (int (tout_start p) + int n) = tout_start p + n"
    using n(2) assms(3) by (intro u32_add) (auto simp: in_bounds_def BUFSIZE_def)
  have p': "p' = (if tout_start p + n \<ge> tout_end p
      then p\<lparr>to_target := to_target p @ take n (pending_target p), tout_start := 0, tout_end := 0\<rparr>
      else p\<lparr>to_target := to_target p @ take n (pending_target p), tout_start := tout_start p + n\<rparr>)"
    using assms(1) e n u
    by (auto simp: write_target_def Let_def pending_target_def drop_take split: if_splits)
  have "take n (pending_target p) @ pending_target p' = pending_target p"
  proof (cases "tout_start p + n \<ge> tout_end p")
    case True
    then show ?thesis by (simp add: p' pending_target_def)
  next
    case False
    then have "pending_target p' = drop n (pending_target p)"
      by (simp add: p' pending_target_def add.commute)
    then show ?thesis by simp
  qed
  moreover have "to_target p' = to_target p @ take n (pending_target p)" by (simp add: p')
  ultimately have "to_target p' @ pending_target p' = to_target p @ pending_target p"
    by simp
  then show ?thesis using assms(3,4) by (auto simp: inbound_def in_bounds_def p' Let_def)
qed

lemma read_client_inbound:
  assumes "read_client br ctx e p = (p', None)" "hybi ctx \<noteq> 0" "bio_read_ok br"
    and "recvs_client e p" "in_bounds p" "inbound br op p" "tout_end p = tout_start p"
  shows "in_bounds p' \<and> inbound br op p'"
proof -
  obtain n data where r: "recv_client e = (n, data)" by force
  define buf where "buf = tin p @ data"
  have "0 < n" using assms(1) by (simp add: read_client_def r split: if_splits)
  then have n: "int (length data) = n" "length buf \<le> BUFSIZE - 1"
    using assms(4,5) by (auto simp: buf_def recvs_client_def in_bounds_def r)
  obtain d where dec: "decode_hybi br (buf @ tin_stale e) (length buf) (BUFSIZE - 1) (p_opcode p) = Inr d"
    and d: "d_opcode d \<noteq> 8" "0 \<le> d_ret d"
    and p': "p' = p\<lparr>from_client := from_client p @ data, p_opcode := d_opcode d, p_left := d_left d,
        tout_buf := d_target d, tin := (if d_left d \<noteq> 0 then drop (length buf - d_left d) buf else []),
        tout_start := 0, tout_end := nat (d_ret d)\<rparr>"
    using assms(1,2)
    by (auto simp: read_client_def Let_def r buf_def split: if_splits sum.splits fault.splits)
  have pend: "pending_target p = []" using assms(7) by (simp add: pending_target_def)
  have d0: "d = decode_stream br (BUFSIZE - 1) 0 buf (length buf) (p_opcode p) []"
    using decode_hybi_Inr [OF dec] d(2)
      decode_loop_sl [of br "BUFSIZE - 1" "length buf" buf "p_opcode p" "[]" 0] by simp
  note len = decode_loop_length [OF assms(3) d0 d(2)]
  have left: "d_left d \<le> length buf" using len by simp
  have tin': "tin p' = drop (length buf - d_left d) buf" using left by (auto simp: p')
  define r where "r = decode_stream br (BUFSIZE - 1) 0 (from_client p) (length (from_client p)) op []"
  have r: "d_ret r = int (length (to_target p))" "d_opcode r = p_opcode p" "d_target r = to_target p"
    and rest: "rest (from_client p) r @ data = buf" and fit: "length (tin p) \<le> length (from_client p)"
    using assms(6) pend by (auto simp: inbound_def r_def Let_def rest_def buf_def)
  have "decode_stream br (BUFSIZE - 1) 0 (from_client p @ data) (length (from_client p @ data)) op []
      = decode_stream br (BUFSIZE - 1) 0 buf (length buf) (p_opcode p) (to_target p @ [])"
    using decode_loop_chunk [OF r_def, of data] by (simp add: r rest del: length_append)
  also have "\<dots> = prepend (to_target p) d"
    using decode_stream_target [of "length buf" buf br "BUFSIZE - 1" 0 "p_opcode p" "to_target p" "[]"] d0
    by simp
  finally have dec: "decode_stream br (BUFSIZE - 1) 0 (from_client p @ data) (length (from_client p @ data)) op []
      = prepend (to_target p) d" .
  define S where "S = from_client p @ data"
  have B: "buf = drop (length S - length buf) S" "length buf \<le> length S"
    using assms(6) fit by (auto simp: S_def buf_def inbound_def Let_def)
  then have suffix: "tin p' = drop (length S - d_left d) S"
  proof -
    have "tin p' = drop (length buf - d_left d) (drop (length S - length buf) S)"
      using tin' B(1) by simp
    also have "\<dots> = drop (length S - d_left d) S" using left B(2) by simp
    finally show ?thesis .
  qed
  have "length (tin p') = d_left d" using left by (simp add: tin')
  moreover have "from_client p' = S" "to_target p' @ pending_target p' = to_target p @ d_target d"
      "p_opcode p' = d_opcode d"
    using len d(2) by (simp_all add: p' S_def pending_target_def)
  ultimately have "inbound br op p'"
    using dec [folded S_def] len suffix left B(2) by (simp add: inbound_def prepend_def Let_def)
  moreover have "in_bounds p'" using len n(2) left by (auto simp: in_bounds_def p')
  ultimately show ?thesis by simp
qed

section \<open>Target to client\<close>

definition pending_client :: "proxy \<Rightarrow> byte list" where
  "pending_client p = drop (cout_start p) (take (cout_end p) (cout_buf p))"

definition out_bounds :: "proxy \<Rightarrow> bool" where
  "out_bounds p \<longleftrightarrow>
     cout_start p \<le> cout_end p \<and> cout_end p \<le> length (cout_buf p) \<and> length (cout_buf p) \<le> BUFSIZE"

definition outbound :: "proxy \<Rightarrow> bool" where
  "outbound p \<longleftrightarrow>
     to_client p @ pending_client p = concat (map (plain_frame 0x82) (from_target p))"

text \<open>Base64 text has four characters for each three bytes begun.\<close>

definition bio_write_ok :: "bio_write \<Rightarrow> bool" where
  "bio_write_ok bw \<longleftrightarrow> (\<forall>s. length (bw s) = 4 * ((length s + 2) div 3))"

text \<open>The connections whose messages the encoder accepts: HyBi, binary or text.\<close>

definition encodes :: "bio_write \<Rightarrow> ws_ctx \<Rightarrow> bool" where
  "encodes bw ctx \<longleftrightarrow>
     hybi ctx \<noteq> 0 \<and> (ws_opcode ctx = OPCODE_BINARY \<or> ws_opcode ctx = OPCODE_TEXT \<and> bio_write_ok bw)"

lemma write_client_bounds:
  assumes "write_client e p = (p', None)" "sends_client e p" "out_bounds p"
  shows "out_bounds p'"
proof -
  have "u32 (int (cout_start p) + send_client e) =
      (if cout_start p = 0 \<and> send_client e = - 1 then 4294967295 else nat (int (cout_start p) + send_client e))"
    using assms(2,3) by (auto simp: u32_def sends_client_def out_bounds_def BUFSIZE_def)
  then show ?thesis
    using assms by (auto simp: write_client_def Let_def sends_client_def out_bounds_def split: if_splits)
qed

lemma write_client_outbound:
  assumes "write_client e p = (p', None)" "sends_client e p" "out_bounds p" "outbound p" "\<not> send_failed p'"
  shows "outbound p'"
proof -
  define n where "n = nat (send_client e)"
  have "0 \<le> send_client e"
    using assms(1,5) by (auto simp: write_client_def Let_def split: if_splits)
  then have n: "send_client e = int n" "n \<le> cout_end p - cout_start p"
    using assms(2) by (auto simp: n_def sends_client_def)
  have u: "u32 (int (cout_start p) + int n) = cout_start p + n"
    using n(2) assms(3) by (intro u32_add) (auto simp: out_bounds_def BUFSIZE_def)
  have p': "to_client p' = to_client p @ take n (pending_client p) \<and> from_target p' = from_target p
      \<and> cout_buf p' = cout_buf p
      \<and> (if cout_start p + n \<ge> cout_end p then cout_start p' = 0 \<and> cout_end p' = 0
         else cout_start p' = cout_start p + n \<and> cout_end p' = cout_end p)"
    using assms(1) n u
    by (auto simp: write_client_def Let_def pending_client_def drop_take split: if_splits)
  have "take n (pending_client p) @ pending_client p' = pending_client p"
  proof (cases "cout_start p + n \<ge> cout_end p")
    case True
    then show ?thesis using p' by (simp add: pending_client_def)
  next
    case False
    then have "pending_client p' = drop n (pending_client p)"
      using p' by (simp add: pending_client_def add.commute)
    then show ?thesis by simp
  qed
  then have "to_client p' @ pending_client p' = to_client p @ pending_client p" using p' by simp
  then show ?thesis using assms(4) p' by (simp add: outbound_def)
qed

lemma length_plain_frame: "length (plain_frame b0 d) \<le> length d + 4"
  by (simp add: plain_frame_def length_bytes_def)

lemma read_target_outbound:
  assumes "read_target bw ctx e p = (p', None)" "hybi ctx \<noteq> 0" "ws_opcode ctx = OPCODE_BINARY"
    and "recvs_target e" "cout_end p = cout_start p"
  shows "out_bounds p'" "outbound p \<Longrightarrow> outbound p'"
proof -
  obtain n data where r: "recv_target e = (n, data)" by force
  have n: "0 < n" "int (length data) = n" "length data \<le> DBUFSIZE"
    using assms(1,4) by (auto simp: read_target_def recvs_target_def r split: if_splits)
  let ?f = "plain_frame 0x82 data"
  have enc: "encode_hybi bw data BUFSIZE OPCODE_BINARY = (int (length ?f), ?f)"
    using n by (intro encode_hybi_binary) (auto simp: DBUFSIZE_def BUFSIZE_def)
  have len: "length ?f \<le> BUFSIZE"
    using n(3) length_plain_frame [of "0x82" data] by (simp add: DBUFSIZE_def BUFSIZE_def)
  then have "u32 (int (length ?f)) = length ?f" using u32_add [of 0 "length ?f"] by (simp add: BUFSIZE_def)
  then have "p' = p\<lparr>cout_start := 0, cout_end := length ?f, cout_buf := ?f, from_target := from_target p @ [data]\<rparr>"
    using assms(1-3) r enc by (auto simp: read_target_def split: if_splits)
  then show "out_bounds p'" "outbound p \<Longrightarrow> outbound p'"
    using assms(5) len by (simp_all add: out_bounds_def outbound_def pending_client_def)
qed

text \<open>A text frame with its header and the zero behind it fits too.\<close>

lemma encode_hybi_text:
  assumes "src \<noteq> []" "length src \<le> DBUFSIZE" "bio_write_ok bw"
  shows "\<exists>buf n. encode_hybi bw src BUFSIZE OPCODE_TEXT = (int n, buf) \<and> n \<le> length buf \<and> length buf \<le> BUFSIZE"
proof -
  define m where "m = (length src + 2) div 3"
  have m: "length (bw src) = 4 * m" "m \<le> 16378"
    using assms(2,3) by (auto simp: m_def bio_write_ok_def DBUFSIZE_def BUFSIZE_def)
  have "(int (length src) - 1) div 3 + 1 = int m"
  proof -
    have "int m = (int (length src) + 2) div 3" by (simp add: m_def zdiv_int)
    then show ?thesis by simp
  qed
  then have k: "c_int ((int (length src) - 1) div 3 * 4 + 4) = int (4 * m)"
    using m(2) by (simp add: c_int_id)
  have "c_int (int (length src)) = int (length src)"
    using assms(2) by (intro c_int_id) (simp_all add: DBUFSIZE_def BUFSIZE_def)
  then show ?thesis
    using assms(1) m k
    by (auto simp: encode_hybi_def OPCODE_TEXT_def OPCODE_BINARY_def ws_b64_ntop_def htons_bytes_def BUFSIZE_def Let_def)
      presburger+
qed

lemma read_target_bounds:
  assumes "read_target bw ctx e p = (p', None)" "encodes bw ctx" "recvs_target e" "cout_end p = cout_start p"
  shows "out_bounds p'"
proof (cases "ws_opcode ctx = OPCODE_BINARY")
  case True
  then show ?thesis using read_target_outbound(1) assms by (auto simp: encodes_def)
next
  case False
  then have ctx: "hybi ctx \<noteq> 0" "ws_opcode ctx = OPCODE_TEXT" "bio_write_ok bw"
    using assms(2) by (auto simp: encodes_def)
  obtain n data where r: "recv_target e = (n, data)" by force
  have n: "0 < n" "int (length data) = n" "length data \<le> DBUFSIZE"
    using assms(1,3) by (auto simp: read_target_def recvs_target_def r split: if_splits)
  then have "data \<noteq> []" by auto
  from encode_hybi_text [OF this n(3) ctx(3)] obtain buf k where
    enc: "encode_hybi bw data BUFSIZE OPCODE_TEXT = (int k, buf)" "k \<le> length buf" "length buf \<le> BUFSIZE"
    by blast
  have "u32 (int k) = k" using u32_add [of 0 k] enc(2,3) by (simp add: BUFSIZE_def)
  then show ?thesis
    using assms(1) ctx(1,2) r enc by (auto simp: read_target_def out_bounds_def split: if_splits)
qed

section \<open>The iteration\<close>

lemma then_stage_None: "then_stage s f = (p', None) \<longleftrightarrow> (\<exists>q. s = (q, None) \<and> f q = (p', None))"
  by (auto simp: then_stage_def split: prod.splits option.splits)

text \<open>Each transfer touches the variables of its own direction only.\<close>

lemma write_target_frame:
  "write_target e p = (p', None) \<Longrightarrow>
     cout_buf p' = cout_buf p \<and> cout_start p' = cout_start p \<and> cout_end p' = cout_end p
     \<and> to_client p' = to_client p \<and> from_target p' = from_target p \<and> send_failed p' = send_failed p"
  by (auto simp: write_target_def Let_def split: if_splits)

lemma write_client_frame:
  "write_client e p = (p', None) \<Longrightarrow>
     tout_buf p' = tout_buf p \<and> tout_start p' = tout_start p \<and> tout_end p' = tout_end p
     \<and> to_target p' = to_target p \<and> from_client p' = from_client p \<and> tin p' = tin p
     \<and> p_opcode p' = p_opcode p"
  by (auto simp: write_client_def Let_def split: if_splits)

lemma read_target_frame:
  "read_target bw ctx e p = (p', None) \<Longrightarrow>
     tout_buf p' = tout_buf p \<and> tout_start p' = tout_start p \<and> tout_end p' = tout_end p
     \<and> to_target p' = to_target p \<and> from_client p' = from_client p \<and> tin p' = tin p
     \<and> p_opcode p' = p_opcode p"
  by (auto simp: read_target_def Let_def split: if_splits prod.splits)

lemma read_client_frame:
  "read_client br ctx e p = (p', None) \<Longrightarrow>
     cout_buf p' = cout_buf p \<and> cout_start p' = cout_start p \<and> cout_end p' = cout_end p
     \<and> to_client p' = to_client p \<and> from_target p' = from_target p \<and> send_failed p' = send_failed p"
  by (auto simp: read_client_def Let_def split: if_splits prod.splits sum.splits fault.splits)

lemma inbound_cong:
  "\<lbrakk>tout_buf p' = tout_buf p \<and> tout_start p' = tout_start p \<and> tout_end p' = tout_end p
     \<and> to_target p' = to_target p \<and> from_client p' = from_client p \<and> tin p' = tin p
     \<and> p_opcode p' = p_opcode p; in_bounds p; inbound br op p\<rbrakk> \<Longrightarrow> in_bounds p' \<and> inbound br op p'"
  by (simp add: inbound_def in_bounds_def pending_target_def)

lemma outbound_cong:
  "cout_buf p' = cout_buf p \<and> cout_start p' = cout_start p \<and> cout_end p' = cout_end p
     \<and> to_client p' = to_client p \<and> from_target p' = from_target p \<and> send_failed p' = send_failed p
   \<Longrightarrow> out_bounds p' = out_bounds p \<and> outbound p' = outbound p"
  by (simp add: outbound_def out_bounds_def pending_client_def)

lemma if_stage:
  "(if c then s else (p, None)) = (q, None) \<longleftrightarrow> (if c then s = (q, None) else q = p)"
  for s :: stage
  by auto

lemma proxy_step_cases:
  assumes "proxy_step bw br ctx e p = (p', None)"
  obtains "p' = p"
  | p1 p2 p3 where
      "if tout_end p \<noteq> tout_start p \<and> sel_w_target e then write_target e p = (p1, None) else p1 = p"
      "if cout_end p \<noteq> cout_start p \<and> sel_w_client e then write_client e p1 = (p2, None) else p2 = p1"
      "if cout_end p = cout_start p \<and> sel_r_target e then read_target bw ctx e p2 = (p3, None) else p3 = p2"
      "if tout_end p = tout_start p \<and> sel_r_client e then read_client br ctx e p3 = (p', None) else p' = p3"
proof (cases "pe_select e \<or> sel_e_target e \<or> sel_e_client e \<or> sel_ret e = - 1 \<or> sel_ret e = 0")
  case True
  then show ?thesis using assms that(1) by (auto simp: proxy_step_def Let_def split: if_splits)
next
  case False
  then have "then_stage (then_stage (then_stage
      (if tout_end p \<noteq> tout_start p \<and> sel_w_target e then write_target e p else (p, None))
      (\<lambda>q. if cout_end p \<noteq> cout_start p \<and> sel_w_client e then write_client e q else (q, None)))
      (\<lambda>q. if cout_end p = cout_start p \<and> sel_r_target e then read_target bw ctx e q else (q, None)))
      (\<lambda>q. if tout_end p = tout_start p \<and> sel_r_client e then read_client br ctx e q else (q, None))
    = (p', None)"
    using assms by (simp add: proxy_step_def Let_def)
  then obtain p1 p2 p3 where
      "(if tout_end p \<noteq> tout_start p \<and> sel_w_target e then write_target e p else (p, None)) = (p1, None)"
      "(if cout_end p \<noteq> cout_start p \<and> sel_w_client e then write_client e p1 else (p1, None)) = (p2, None)"
      "(if cout_end p = cout_start p \<and> sel_r_target e then read_target bw ctx e p2 else (p2, None)) = (p3, None)"
      "(if tout_end p = tout_start p \<and> sel_r_client e then read_client br ctx e p3 else (p3, None)) = (p', None)"
    unfolding then_stage_None by blast
  then show ?thesis unfolding if_stage by (rule that(2))
qed

lemma proxy_step_inbound:
  assumes "proxy_step bw br ctx e p = (p', None)" "io_ok e p" "hybi ctx \<noteq> 0" "bio_read_ok br"
    and "in_bounds p" "inbound br op p"
  shows "in_bounds p' \<and> inbound br op p'"
  using assms(1)
proof (cases rule: proxy_step_cases)
  case 1
  with assms show ?thesis by simp
next
  case (2 p1 p2 p3)
  have p1: "in_bounds p1 \<and> inbound br op p1"
    using 2(1) write_target_inbound assms(2,5,6) by (auto simp: io_ok_def split: if_splits)
  have p2: "in_bounds p2 \<and> inbound br op p2"
    using 2(2) p1 inbound_cong [OF write_client_frame] by (auto split: if_splits)
  have p3: "in_bounds p3 \<and> inbound br op p3"
    using 2(3) p2 inbound_cong [OF read_target_frame] by (auto split: if_splits)
  show ?thesis
  proof (cases "tout_end p = tout_start p \<and> sel_r_client e")
    case True
    have "tout_end p3 = tout_start p3 \<and> tin p3 = tin p"
      using 2(1-3) True write_client_frame read_target_frame by (fastforce split: if_splits)
    then have "tout_end p3 = tout_start p3" "recvs_client e p3"
      using assms(2) by (simp_all add: io_ok_def recvs_client_def)
    moreover have "read_client br ctx e p3 = (p', None)" using 2(4) True by simp
    ultimately show ?thesis using read_client_inbound assms(3,4) p3 by blast
  next
    case False
    then show ?thesis using 2(4) p3 by auto
  qed
qed

text \<open>The stages that touch the output buffer, and when they are entered.\<close>

lemma proxy_step_out:
  assumes "proxy_step bw br ctx e p = (p', None)"
  obtains "p' = p"
  | p1 p2 p3 where
      "out_bounds p1 = out_bounds p" "outbound p1 = outbound p" "send_failed p1 = send_failed p"
      "cout_end p1 = cout_end p" "cout_start p1 = cout_start p"
      "cout_end p = cout_start p \<or> \<not> sel_w_client e \<Longrightarrow> p2 = p1"
      "cout_end p \<noteq> cout_start p \<Longrightarrow> sel_w_client e \<Longrightarrow> write_client e p1 = (p2, None) \<and> p3 = p2"
      "cout_end p = cout_start p \<Longrightarrow> sel_r_target e \<Longrightarrow> read_target bw ctx e p2 = (p3, None)"
      "cout_end p \<noteq> cout_start p \<or> \<not> sel_r_target e \<Longrightarrow> p3 = p2"
      "out_bounds p' = out_bounds p3" "outbound p' = outbound p3" "send_failed p' = send_failed p3"
  using assms
proof (cases rule: proxy_step_cases)
  case (2 p1 p2 p3)
  have a: "out_bounds p1 = out_bounds p \<and> outbound p1 = outbound p \<and> send_failed p1 = send_failed p
      \<and> cout_end p1 = cout_end p \<and> cout_start p1 = cout_start p"
    using 2(1) outbound_cong [OF write_target_frame] write_target_frame by (auto split: if_splits)
  have b: "out_bounds p' = out_bounds p3 \<and> outbound p' = outbound p3 \<and> send_failed p' = send_failed p3"
    using 2(4) outbound_cong [OF read_client_frame] read_client_frame by (auto split: if_splits)
  show ?thesis
    by (rule that(2) [of p1 p2 p3]) (use a b 2(2,3) in \<open>auto split: if_splits\<close>)
qed (use that(1) in blast)

lemma read_target_failed: "read_target bw ctx e p = (p', None) \<Longrightarrow> send_failed p' = send_failed p"
  by (auto simp: read_target_def Let_def split: if_splits prod.splits)

lemma proxy_step_out_bounds:
  assumes "proxy_step bw br ctx e p = (p', None)" "io_ok e p" "encodes bw ctx" "out_bounds p"
  shows "out_bounds p'"
  using assms(1)
proof (cases rule: proxy_step_out)
  case (2 p1 p2 p3)
  have e: "sends_client e p1" "recvs_target e" using assms(2) 2(4,5) by (auto simp: io_ok_def sends_client_def)
  have "out_bounds p2" using 2(1,6,7) write_client_bounds [OF _ e(1)] assms(4) by blast
  then have "out_bounds p3" using 2(4-9) read_target_bounds [OF _ assms(3) e(2)] by metis
  then show ?thesis using 2(10) by simp
qed (use assms in simp)

lemma proxy_step_outbound:
  assumes "proxy_step bw br ctx e p = (p', None)" "io_ok e p" "hybi ctx \<noteq> 0" "ws_opcode ctx = OPCODE_BINARY"
    and "out_bounds p" "\<not> send_failed p \<longrightarrow> outbound p"
  shows "\<not> send_failed p' \<longrightarrow> outbound p'"
  using assms(1)
proof (cases rule: proxy_step_out)
  case (2 p1 p2 p3)
  have e: "sends_client e p1" "recvs_target e" using assms(2) 2(4,5) by (auto simp: io_ok_def sends_client_def)
  show ?thesis
  proof (cases "cout_end p = cout_start p")
    case True
    then have p2: "p2 = p1" using 2(6) by simp
    have "send_failed p3 = send_failed p \<and> (outbound p \<longrightarrow> outbound p3)"
    proof (cases "sel_r_target e")
      case True
      then have "read_target bw ctx e p1 = (p3, None)" using 2(8) \<open>cout_end p = cout_start p\<close> p2 by simp
      then show ?thesis
        using read_target_outbound(2) [OF _ assms(3,4) e(2)] read_target_failed 2(2-5) \<open>cout_end p = cout_start p\<close> by metis
    qed (use 2(2,3,9) p2 in simp)
    then show ?thesis using 2(11,12) assms(6) by simp
  next
    case False
    show ?thesis
    proof (cases "sel_w_client e")
      case True
      then have w: "write_client e p1 = (p3, None)" using 2(7) False by simp
      then have "\<not> send_failed p3 \<Longrightarrow> \<not> send_failed p1"
        by (auto simp: write_client_def Let_def split: if_splits)
      then show ?thesis
        using write_client_outbound [OF w e(1)] 2(1-3,11,12) assms(5,6) by auto
    qed (use 2 False assms(6) in simp)
  qed
qed (use assms in simp)

lemma reachable_inbound:
  assumes "reachable bw br ctx op lft p" "hybi ctx \<noteq> 0" "bio_read_ok br"
  shows "in_bounds p \<and> inbound br op p"
  using assms(1)
proof (induction rule: reachable.induct)
  case start
  show ?case
    by (simp add: proxy_init_def in_bounds_def inbound_def pending_target_def view_def
        decode_stream_view [of 0 "[]"])
next
  case (step p e p')
  then show ?case using proxy_step_inbound assms(2,3) by blast
qed

lemma reachable_out_bounds:
  assumes "reachable bw br ctx op lft p" "encodes bw ctx"
  shows "out_bounds p"
  using assms(1)
proof (induction rule: reachable.induct)
  case start
  show ?case by (simp add: proxy_init_def out_bounds_def)
next
  case (step p e p')
  then show ?case using proxy_step_out_bounds assms(2) by blast
qed

lemma reachable_outbound:
  assumes "reachable bw br ctx op lft p" "hybi ctx \<noteq> 0" "ws_opcode ctx = OPCODE_BINARY"
  shows "\<not> send_failed p \<longrightarrow> outbound p"
  using assms(1)
proof (induction rule: reachable.induct)
  case start
  show ?case by (simp add: proxy_init_def outbound_def pending_client_def)
next
  case (step p e p')
  have "out_bounds p" using reachable_out_bounds [OF step.hyps(1)] assms(2,3) by (simp add: encodes_def)
  then show ?case using proxy_step_outbound step assms(2,3) by blast
qed

section \<open>Reads behind the buffer\<close>

lemma then_stage_Some:
  "then_stage s f = (q, Some r) \<longleftrightarrow> s = (q, Some r) \<or> (\<exists>m. s = (m, None) \<and> f m = (q, Some r))"
  by (auto simp: then_stage_def split: prod.splits option.splits)

lemma proxy_step_fault:
  assumes "proxy_step bw br ctx e p = (q, Some r)" "r = NullPointer \<or> r = OverRead"
  obtains m where "tin m = tin p" "read_client br ctx e m = (q, Some r)"
proof -
  have t: "write_target e x \<noteq> (q, Some r)" "write_client e x \<noteq> (q, Some r)" "read_target bw ctx e x \<noteq> (q, Some r)" for x
    using assms(2) by (auto simp: write_target_def write_client_def read_target_def Let_def split: prod.splits)
  have k: "write_target e x = (y, None) \<Longrightarrow> tin y = tin x" "write_client e x = (y, None) \<Longrightarrow> tin y = tin x"
    "read_target bw ctx e x = (y, None) \<Longrightarrow> tin y = tin x" for x y
    by (auto simp: write_target_def write_client_def read_target_def Let_def split: if_splits prod.splits)
  have s: "(if c then s else (x, None)) = (q, Some r) \<longleftrightarrow> c \<and> s = (q, Some r)" for c x and s :: stage
    by auto
  show thesis
    using assms that
    by (auto simp: proxy_step_def Let_def then_stage_Some then_stage_None if_stage s t split: if_splits
        intro: that [OF k(2)] that [OF k(3)])
qed

lemma read_client_fault:
  assumes "read_client br ctx e p = (q, Some r)" "r = NullPointer \<or> r = OverRead"
    and "hybi ctx \<noteq> 0" "recvs_client e p" "length (tin p) \<le> BUFSIZE - 1"
  shows "r = OverRead" "length (tin q) = BUFSIZE - 1" "header_cut (tin q) 2"
proof -
  obtain n data where rc: "recv_client e = (n, data)" by force
  let ?buf = "tin p @ data"
  let ?d = "decode_hybi br (?buf @ tin_stale e) (length ?buf) (BUFSIZE - 1) (p_opcode p)"
  have run: "0 < n" "\<not> pe_recv_client e" using assms(1,2) by (auto simp: read_client_def rc split: if_splits)
  obtain f where f: "?d = Inl f" "0 < n" "tin q = ?buf" "r = OverRead \<longleftrightarrow> f = ReadBeyond"
  proof (cases ?d)
    case (Inl f)
    then show thesis
      using assms(1,3) run that [of f] by (cases f) (auto simp: read_client_def rc Let_def)
  next
    case (Inr d)
    then show thesis
      using assms(1-3) run by (auto simp: read_client_def rc Let_def split: if_splits)
  qed
  have len: "length ?buf + length (tin_stale e) = BUFSIZE" "length ?buf \<le> BUFSIZE - 1"
    using assms(4,5) f(2) by (auto simp: recvs_client_def rc)
  obtain k where k: "header_cut ?buf k" "k + length (tin_stale e) < 4"
    using decode_hybi_Inl(2) [OF f(1)] by blast
  then have "2 \<le> k" by (simp add: header_cut_def)
  then have "k = 2" "length ?buf = BUFSIZE - 1" using len k(2) by (auto simp: BUFSIZE_def)
  then show "r = OverRead" "length (tin q) = BUFSIZE - 1" "header_cut (tin q) 2"
    using f(3,4) decode_hybi_Inl(1) [OF f(1)] k(1) by auto
qed

section \<open>Frames that do not fit\<close>

text \<open>A proper prefix of a masked frame is left undecoded.\<close>

lemma frame_prefix_undecoded:
  assumes "length key = 4" "length p < 65536" "unat (b0 AND 0x0f) \<noteq> 8" "k < length (masked_frame b0 key p)"
  shows "\<exists>op'. decode_stream bio ts sl (take k (masked_frame b0 key p)) k op t =
    \<lparr>d_ret = int (length t), d_opcode = op', d_left = k, d_target = t\<rparr>"
proof -
  let ?f = "masked_frame b0 key p"
  define a where "a = take k ?f"
  have k: "length a = k" using assms(4) by (simp add: a_def)
  have f: "?f = a @ drop k ?f" by (simp add: a_def)
  have "view a k = Short \<or> (\<exists>op'. view a k = Partial op')"
  proof (rule ccontr)
    assume n: "\<not> ?thesis"
    then have v: "view ?f (length ?f) = view a k"
      using view_append [of a "length ?f" "drop k ?f"] assms(4) k f by auto
    have "view a k = Skip (unat (b0 AND 0x0f)) (length ?f) \<or> view a k = Data (unat (b0 AND 0x0f)) (length ?f) p"
      using view_masked_frame [OF assms(1-3), of "[]"] v by (auto simp: Let_def split: if_splits)
    then show False using view_total [of a] k assms(4) by auto
  qed
  then show ?thesis
    using decode_stream_view [of k a bio ts sl op t] k by (auto simp: a_def)
qed

lemma proxy_step_from_client:
  assumes "proxy_step bw br ctx e p = (p', None)" "io_ok e p"
  shows "from_client p' = from_client p
    \<or> (\<exists>data. from_client p' = from_client p @ data \<and> length (tin p) + length data \<le> max (length (tin p)) (BUFSIZE - 1))"
  using assms(1)
proof (cases rule: proxy_step_cases)
  case (2 p1 p2 p3)
  have w: "from_client p1 = from_client p \<and> tin p1 = tin p"
    using 2(1) by (auto simp: write_target_def Let_def split: if_splits)
  have f: "from_client p3 = from_client p" "tin p3 = tin p"
    using 2(2,3) w write_client_frame [of e p1 p2] read_target_frame [of bw ctx e p2 p3] by (auto split: if_splits)
  show ?thesis
  proof (cases "tout_end p = tout_start p \<and> sel_r_client e")
    case True
    obtain n data where r: "recv_client e = (n, data)" by force
    have "0 < n" "from_client p' = from_client p3 @ data"
      using 2(4) True
      by (auto simp: read_client_def r Let_def split: if_splits sum.splits fault.splits)
    moreover from this have "length data \<le> BUFSIZE - 1 - length (tin p)"
      using assms(2) by (auto simp: io_ok_def recvs_client_def r)
    ultimately show ?thesis using f by auto
  qed (use 2(4) f in auto)
qed simp

lemma inbound_decoded:
  "inbound br op p \<Longrightarrow>
   decode_stream br (BUFSIZE - 1) 0 (from_client p) (length (from_client p)) op []
     = \<lparr>d_ret = int (length (to_target p @ pending_target p)), d_opcode = p_opcode p,
        d_left = length (tin p), d_target = to_target p @ pending_target p\<rparr>"
  unfolding inbound_def Let_def by (rule conjunct1)

text \<open>A frame that does not fit the buffer is never received as a whole.\<close>

lemma oversized_frame_stuck:
  assumes "reachable bw br ctx op lft p" "hybi ctx \<noteq> 0" "bio_read_ok br" "\<forall>f\<in>set fs. client_frame_ok f"
    and "length key = 4" "65528 \<le> length payload" "length payload < 65536" "unat (b0 AND 0x0f) \<noteq> 8"
    and "prefix (from_client p) (concat (map wire fs) @ masked_frame b0 key payload @ later)"
  shows "length (from_client p) \<le> length (concat (map wire fs)) + (BUFSIZE - 1)
    \<and> (\<forall>part. from_client p = concat (map wire fs) @ part \<longrightarrow>
         to_target p @ pending_target p = concat (map binary_payload fs) \<and> tin p = part)"
  using assms(1,9)
proof (induction rule: reachable.induct)
  case start
  have "concat (map wire fs) = []" "concat (map binary_payload fs) = []" if "[] = concat (map wire fs) @ part" for part
  proof -
    have "fs = []" using that by (cases fs) (auto simp: wire_def masked_frame_def split: prod.splits)
    then show "concat (map wire fs) = []" "concat (map binary_payload fs) = []" by simp_all
  qed
  then show ?case by (auto simp: proxy_init_def pending_target_def)
next
  case (step p e p')
  let ?f = "masked_frame b0 key payload" and ?w = "concat (map wire fs)"
  have len: "length ?f = 8 + length payload"
    using assms(5,6) by (simp add: masked_frame_def length_bytes_def)
  have reach: "reachable bw br ctx op lft p'" by (rule reachable.step [OF step.hyps])
  have inv: "in_bounds p" "inbound br op p'"
    using reachable_inbound [OF step.hyps(1) assms(2,3)] reachable_inbound [OF reach assms(2,3)] by simp_all
  note fc = proxy_step_from_client [OF step.hyps(3,2)]
  then have "prefix (from_client p) (?w @ ?f @ later)" using step.prems by (auto intro: append_prefixD)
  then have IH: "length (from_client p) \<le> length ?w + (BUFSIZE - 1)"
    "\<And>part. from_client p = ?w @ part \<Longrightarrow> tin p = part"
    using step.IH by auto
  have le: "length (from_client p') \<le> length ?w + (BUFSIZE - 1)"
  proof (cases "length ?w \<le> length (from_client p)")
    case True
    then obtain part where "from_client p = ?w @ part"
      using prefix_length_prefix [OF _ \<open>prefix (from_client p) _\<close>, of ?w] by (auto simp: prefix_def)
    then show ?thesis using fc IH by auto
  next
    case False
    then show ?thesis using fc inv(1) by (auto simp: in_bounds_def)
  qed
  have "to_target p' @ pending_target p' = concat (map binary_payload fs) \<and> tin p' = part"
    if part: "from_client p' = ?w @ part" for part
  proof -
    define k where "k = length part"
    have k: "k < length ?f" using le len assms(6) by (simp add: part k_def BUFSIZE_def)
    then have "part = take k ?f"
      using step.prems by (auto simp: part k_def prefix_def append_eq_append_conv_if)
    obtain op' where d: "decode_stream br (BUFSIZE - 1) 0 (from_client p') (length (from_client p')) op []
        = decode_stream br (BUFSIZE - 1) 0 part k op' (concat (map binary_payload fs))"
      using decode_frames [OF assms(4), of br "BUFSIZE - 1" 0 part op "[]"] by (auto simp: part k_def)
    obtain op'' where "decode_stream br (BUFSIZE - 1) 0 part k op' (concat (map binary_payload fs))
        = \<lparr>d_ret = int (length (concat (map binary_payload fs))), d_opcode = op'', d_left = k,
           d_target = concat (map binary_payload fs)\<rparr>"
      using frame_prefix_undecoded [OF assms(5,7,8) k, of br "BUFSIZE - 1" 0 op' "concat (map binary_payload fs)"]
        \<open>part = take k ?f\<close> by metis
    then have "to_target p' @ pending_target p' = concat (map binary_payload fs)" "length (tin p') = k"
      using inbound_decoded [OF inv(2)] d by simp_all
    moreover have "tin p' = drop (length (from_client p') - length (tin p')) (from_client p')"
      using inv(2) by (simp add: inbound_def Let_def)
    ultimately show ?thesis by (simp add: part k_def)
  qed
  with le show ?case by blast
qed

lemma read_client_full:
  assumes "length (tin p) = BUFSIZE - 1" "recvs_client e p" "\<not> pe_recv_client e"
  shows "read_client br ctx e p = (p, Some ClientClosed)"
  using assms by (auto simp: read_client_def recvs_client_def split: prod.splits)

end
