(* ===== verification/WebSocketProps.thy ===== *)
theory WebSocketProps
  imports WebSocketProxyInv
begin

unbundle bit_operations_syntax

text \<open>
  The properties of the WebSocket codecs and of the proxy loop.
\<close>

section \<open>Inputs for the witnesses\<close>

text \<open>A base64 filter that reads nothing, a connection, an iteration without events.\<close>

definition no_base64 :: bio_read where
  "no_base64 s n = (0, [], 0)"

definition hybi_ctx :: ws_ctx where
  "hybi_ctx =
     \<lparr>over_ssl = False, hixie = 0, hybi = 13, ws_opcode = OPCODE_BINARY,
      headers = \<lparr>hd_path = ''/'', hd_host = '''', hd_origin = '''', hd_version = ''13'',
        hd_connection = '''', hd_protocols = '''', hd_key1 = '''', hd_key2 = '''', hd_key3 = ''''\<rparr>,
      ws_user = ''kasm_user'', ws_ip = ''127.0.0.1''\<rparr>"

definition quiet :: io where
  "quiet = \<lparr>sel_ret = 1, sel_r_client = False, sel_r_target = False, sel_w_client = False,
     sel_w_target = False, sel_e_client = False, sel_e_target = False, pe_select = False,
     pe_send_target = False, pe_send_client = False, pe_recv_target = False,
     pe_recv_client = False, send_target = 0, send_client = 0, recv_target = (0, []),
     recv_client = (0, []), tin_stale = []\<rparr>"

text \<open>A masked binary frame with three bytes, and the state after the proxy has read it.\<close>

definition hello :: "byte \<times> byte list \<times> byte list" where
  "hello = (0x82, [1, 2, 3, 4], [8, 11, 10])"

lemma hello_wire: "wire hello = [0x82, 0x83, 1, 2, 3, 4, 9, 9, 9]"
  by (simp add: hello_def wire_def) code_simp

lemma hello_ok [simp]: "client_frame_ok hello" "binary_payload hello = [8, 11, 10]"
  by (simp_all add: hello_def client_frame_ok_def binary_payload_def OPCODE_TEXT_def OPCODE_BINARY_def)

lemma no_base64_ok [simp]: "bio_read_ok no_base64"
  by (simp add: bio_read_ok_def no_base64_def)

definition after_hello :: proxy where
  "after_hello = (proxy_init 0 0)\<lparr>from_client := wire hello, tout_buf := [8, 11, 10], tout_end := 3, p_opcode := 2\<rparr>"

lemma hello_stream:
  "decode_stream bio ts sl (wire hello) (length (wire hello)) op [] =
     \<lparr>d_ret = 3, d_opcode = 2, d_left = 0, d_target = [8, 11, 10]\<rparr>"
  using view_masked_frame [of "[1,2,3,4]" "[8,11,10]" "0x82" "[]"]
  by (simp add: hello_def loop_here [where frame = "masked_frame _ _ _"] wire_def
      OPCODE_TEXT_def OPCODE_BINARY_def content_def)

lemma hello_decoded:
  "decode_hybi bio (wire hello @ stale) (length (wire hello)) ts op =
     Inr \<lparr>d_ret = 3, d_opcode = 2, d_left = 0, d_target = [8, 11, 10]\<rparr>"
  using decode_hybi_loop_stream [of bio ts "length (wire hello)" "wire hello" stale op "[]"]
  by (auto simp: decode_hybi_def hello_stream header_cut_def)

definition hello_io :: io where
  "hello_io = quiet\<lparr>sel_r_client := True, recv_client := (9, wire hello), tin_stale := replicate 65527 0\<rparr>"

lemma after_hello_step: "proxy_step bw no_base64 hybi_ctx hello_io (proxy_init 0 0) = (after_hello, None)"
  using hello_decoded [of no_base64 "replicate 65527 0" "BUFSIZE - 1" 0]
  by (simp add: proxy_step_def hello_io_def quiet_def hybi_ctx_def proxy_init_def then_stage_def read_client_def
      after_hello_def)

lemma after_hello_reachable: "reachable bw no_base64 hybi_ctx 0 0 after_hello"
  by (rule reachable.step [OF reachable.start _ after_hello_step])
    (simp add: io_ok_def hello_io_def quiet_def proxy_init_def sends_target_def sends_client_def recvs_target_def
      recvs_client_def BUFSIZE_def hello_wire)

lemma hybi_ctx_encodes [simp]: "encodes bw hybi_ctx"
  by (simp add: encodes_def hybi_ctx_def)

text \<open>A chunk of three bytes from the server, of whose frame two bytes are sent.\<close>

definition chunk_read :: proxy where
  "chunk_read = (proxy_init 0 0)\<lparr>from_target := [[5, 6, 7]], cout_buf := [0x82, 3, 5, 6, 7], cout_end := 5\<rparr>"

definition chunk_sent :: proxy where
  "chunk_sent = chunk_read\<lparr>to_client := [0x82, 3], cout_start := 2\<rparr>"

definition chunk_io :: io where
  "chunk_io = quiet\<lparr>sel_r_target := True, recv_target := (3, [5, 6, 7])\<rparr>"

definition chunk_send_io :: io where
  "chunk_send_io = quiet\<lparr>sel_w_client := True, send_client := 2\<rparr>"

lemma chunk_encoded: "encode_hybi bw [5, 6, 7] BUFSIZE OPCODE_BINARY = (5, [0x82, 3, 5, 6, 7])"
  using encode_hybi_binary [of "[5, 6, 7]" bw BUFSIZE] by (simp add: plain_frame_def length_bytes_def)

lemma chunk_read_target: "read_target bw hybi_ctx chunk_io (proxy_init 0 0) = (chunk_read, None)"
  by (simp add: chunk_io_def quiet_def hybi_ctx_def proxy_init_def read_target_def chunk_encoded u32_def chunk_read_def)

lemma chunk_write_client: "write_client chunk_send_io chunk_read = (chunk_sent, None)"
  by (simp add: chunk_send_io_def quiet_def proxy_init_def write_client_def u32_def chunk_read_def chunk_sent_def)

lemma chunk_steps:
  "proxy_step bw br hybi_ctx chunk_io (proxy_init 0 0) = (chunk_read, None)"
  "proxy_step bw br hybi_ctx chunk_send_io chunk_read = (chunk_sent, None)"
proof -
  have "read_target bw hybi_ctx chunk_io (proxy_init 0 0) = (chunk_read, None)" by (rule chunk_read_target)
  then show "proxy_step bw br hybi_ctx chunk_io (proxy_init 0 0) = (chunk_read, None)"
    by (simp add: proxy_step_def chunk_io_def quiet_def proxy_init_def then_stage_def)
  have "write_client chunk_send_io chunk_read = (chunk_sent, None)" by (rule chunk_write_client)
  then show "proxy_step bw br hybi_ctx chunk_send_io chunk_read = (chunk_sent, None)"
    by (simp add: proxy_step_def chunk_send_io_def quiet_def chunk_read_def proxy_init_def then_stage_def)
qed

lemma chunk_io_ok: "io_ok chunk_io (proxy_init 0 0)" "io_ok chunk_send_io chunk_read"
  by (simp_all add: io_ok_def chunk_io_def chunk_send_io_def quiet_def proxy_init_def sends_target_def sends_client_def
      recvs_target_def recvs_client_def DBUFSIZE_def BUFSIZE_def chunk_read_def)

lemma chunk_reachable: "reachable bw br hybi_ctx 0 0 chunk_sent"
  using reachable.start chunk_io_ok chunk_steps reachable.step by metis

text \<open>A message that fills the buffer and ends in the first two bytes of a header with a 16 bit length.\<close>

definition cut_io :: io where
  "cut_io = quiet\<lparr>sel_r_client := True, tin_stale := [0],
     recv_client := (65535, wire (0x82, [1, 2, 3, 4], replicate 65525 0) @ [0x82, 0xfe])\<rparr>"

lemma cut_header_read:
  assumes "\<forall>f\<in>set fs. client_frame_ok f" "unat (b AND 0x0f) \<noteq> 8" "unat (h AND 0x7f) = 126" "length stale < 2"
  shows "decode_hybi bio (concat (map wire fs) @ [b, h] @ stale) (length (concat (map wire fs)) + 2) ts op = Inl ReadBeyond"
proof -
  let ?n = "length (concat (map wire fs)) + 2"
  have "decode_hybi_loop bio ts ?n ([b, h] @ stale) 2 op' t = Inl ReadBeyond" for op' t
    using assms(2-4) by (subst decode_hybi_loop.simps) (simp add: frame_opcode_def reads_length_def Let_def)
  then show ?thesis
    using decode_hybi_loop_frames [OF assms(1), of 2 "[b, h] @ stale" bio ts ?n op "[]"]
    by (auto simp: decode_hybi_def)
qed

lemma cut_step: "\<exists>q. proxy_step bw br hybi_ctx cut_io (proxy_init 0 0) = (q, Some OverRead)
    \<and> length (tin q) = 65535 \<and> io_ok cut_io (proxy_init 0 0)"
proof -
  let ?f = "(0x82, [1, 2, 3, 4], replicate 65525 0) :: byte \<times> byte list \<times> byte list"
  have len: "length (wire ?f) = 65533" by (simp add: wire_def masked_frame_def length_bytes_def)
  have "client_frame_ok ?f" by (simp add: client_frame_ok_def OPCODE_TEXT_def)
  then have "decode_hybi br (wire ?f @ [0x82, 0xfe] @ [0]) 65535 (BUFSIZE - 1) 0 = Inl ReadBeyond"
    using cut_header_read [of "[?f]" "0x82" "0xfe" "[0]" br "BUFSIZE - 1" 0] len by simp
  then show ?thesis
    using len by (simp add: proxy_step_def cut_io_def quiet_def hybi_ctx_def proxy_init_def then_stage_def read_client_def
        io_ok_def sends_target_def sends_client_def recvs_target_def recvs_client_def BUFSIZE_def)
qed

text \<open>The first 65535 bytes of a frame with the largest payload of a 16 bit length.\<close>

definition big_frame :: "byte list" where
  "big_frame = masked_frame 0x82 [1, 2, 3, 4] (replicate 65535 7)"

lemma big_reachable:
  "\<exists>p. reachable bw no_base64 hybi_ctx 0 0 p \<and> from_client p = take 65535 big_frame \<and> length (from_client p) = 65535"
proof -
  let ?a = "take 65535 big_frame"
  let ?e = "quiet\<lparr>sel_r_client := True, tin_stale := [0], recv_client := (65535, ?a)\<rparr>"
  have len: "length big_frame = 65543" by (simp add: big_frame_def masked_frame_def length_bytes_def)
  have la: "length ?a = 65535" by (simp add: len)
  obtain op' where d: "decode_stream no_base64 (BUFSIZE - 1) 65535 ?a 65535 0 [] =
      \<lparr>d_ret = 0, d_opcode = op', d_left = 65535, d_target = []\<rparr>" "op' \<noteq> 8"
  proof -
    note h = masked_frame_header [of "replicate 65535 7" "0x82" "[1, 2, 3, 4]", folded big_frame_def]
    have "frame_opcode ?a = 2" "frame_masked ?a = 1" "frame_lengths ?a = Some (4, 65535)"
      using h header_append [of ?a "drop 65535 big_frame"] la by simp_all
    then have v: "view ?a 65535 = Partial 2" by (simp add: view_def Let_def)
    show thesis by (rule that [of 2]) (simp_all add: decode_stream.simps v)
  qed
  have "decode_hybi no_base64 (?a @ [0]) (length ?a) (BUFSIZE - 1) 0 =
      Inr \<lparr>d_ret = 0, d_opcode = op', d_left = 65535, d_target = []\<rparr>"
    using decode_hybi_loop_stream [of no_base64 "BUFSIZE - 1" 65535 ?a "[0]" 0 "[]"] d(1)
    by (auto simp: decode_hybi_def len)
  then have "proxy_step bw no_base64 hybi_ctx ?e (proxy_init 0 0) =
      ((proxy_init 0 0)\<lparr>tin := ?a, from_client := ?a, p_opcode := op', p_left := 65535\<rparr>, None)"
    using d(2) by (simp add: proxy_step_def quiet_def hybi_ctx_def proxy_init_def then_stage_def read_client_def la)
  moreover have "io_ok ?e (proxy_init 0 0)"
    by (simp add: io_ok_def quiet_def proxy_init_def sends_target_def sends_client_def recvs_target_def
        recvs_client_def BUFSIZE_def len)
  ultimately have "reachable bw no_base64 hybi_ctx 0 0
      ((proxy_init 0 0)\<lparr>tin := ?a, from_client := ?a, p_opcode := op', p_left := 65535\<rparr>)"
    by (intro reachable.step [OF reachable.start])
  then show ?thesis using la by (intro exI conjI) (assumption, simp_all add: len)
qed

section \<open>The codecs\<close>

text \<open>
  C17. Reassembly. When the first part of a byte stream decodes without error, decoding the
  bytes it reports as left, followed by the next part, gives the same payload, opcode,
  result and rest as decoding both parts in one call: where recv cuts the stream does
  not matter, and neither does what the buffer holds behind the received bytes (\<open>x\<close>, \<open>y\<close>
  and \<open>z\<close>), unless the decoder reads behind the buffer.
\<close>

theorem decode_hybi_reassembles:
  assumes "decode_hybi bio (a @ x) (length a) ts op = Inr r" "0 \<le> d_ret r"
    and "decode_hybi bio (rest a r @ b @ y) (length (rest a r @ b)) ts (d_opcode r) = Inr s"
    and "decode_hybi bio (a @ b @ z) (length (a @ b)) ts op = Inr w"
  shows "d_target w = d_target r @ d_target s \<and> d_opcode w = d_opcode s
    \<and> d_ret w = (if d_ret s < 0 then d_ret s else d_ret r + d_ret s)
    \<and> (0 \<le> d_ret s \<longrightarrow> d_left w = d_left s)"
  using assms by (rule decode_hybi_chunks)

theorem decode_hybi_reassembles_witness:
  "\<exists>w. decode_hybi no_base64 (wire hello @ [0x82] @ [7, 7]) 10 65535 0 = Inr w \<and> d_target w = [8, 11, 10] \<and> d_left w = 1"
proof -
  obtain w where w: "decode_hybi no_base64 ((wire hello @ [0x82]) @ [7, 7]) (length (wire hello @ [0x82])) 65535 0 = Inr w"
    using decode_hybi_loop_ok [of "[7, 7]" no_base64 65535 "length (wire hello @ [0x82])" "wire hello @ [0x82]" 0 "[]"]
    unfolding decode_hybi_def by fastforce
  have len: "length (wire hello @ [0x82]) = 10" by (simp add: hello_wire)
  have "rest (wire hello) \<lparr>d_ret = 3, d_opcode = 2, d_left = 0, d_target = [8, 11, 10]\<rparr> = []"
    by (simp add: rest_def)
  moreover have "decode_hybi no_base64 ([0x82] @ [7]) (length ([0x82] :: byte list)) 65535 2 =
      Inr \<lparr>d_ret = 0, d_opcode = 2, d_left = 1, d_target = []\<rparr>"
    by (simp add: decode_hybi_def decode_hybi_loop.simps)
  ultimately show ?thesis
    using decode_hybi_reassembles [OF hello_decoded [of no_base64 "[]" 65535 0], of "[0x82]" "[7]" _ "[7, 7]" w] w [unfolded len]
    by (simp add: len [simplified])
qed

text \<open>
  C6. The decoder inverts the masking and framing of RFC 6455: a stream of complete frames
  with 7 or 16 bit lengths, none of them close or text frames, decodes to the payloads of
  its binary frames, in order and with nothing left, whatever stands behind it in the
  buffer.
\<close>

theorem decode_hybi_inverts_framing:
  assumes "\<forall>f\<in>set fs. client_frame_ok f"
  shows "\<exists>op'. decode_hybi bio (concat (map wire fs) @ stale) (length (concat (map wire fs))) ts op =
    Inr \<lparr>d_ret = int (length (concat (map binary_payload fs))), d_opcode = op', d_left = 0,
      d_target = concat (map binary_payload fs)\<rparr>"
  using assms by (rule decode_hybi_frames)

theorem decode_hybi_inverts_framing_witness:
  "\<exists>op'. decode_hybi no_base64 (wire hello @ wire hello @ [0x82, 0xfe]) (length (wire hello @ wire hello)) 65535 0 =
    Inr \<lparr>d_ret = 6, d_opcode = op', d_left = 0, d_target = [8, 11, 10, 8, 11, 10]\<rparr>"
  using decode_hybi_inverts_framing [of "[hello, hello]" no_base64 "[0x82, 0xfe]" 65535 0] by simp

text \<open>
  What the buffer holds behind the received bytes has no influence on the result, as
  long as there are two bytes of it.
\<close>

theorem decode_hybi_ignores_stale_bytes:
  assumes "2 \<le> length x" "2 \<le> length y"
  shows "decode_hybi bio (a @ x) (length a) ts op = decode_hybi bio (a @ y) (length a) ts op"
  using assms by (simp add: decode_hybi_def decode_hybi_loop_ok)

theorem decode_hybi_ignores_stale_bytes_witness:
  "decode_hybi bio [0x82, 0xfe, 1, 2] 2 ts op = decode_hybi bio [0x82, 0xfe, 3, 4, 5] 2 ts op"
  using decode_hybi_ignores_stale_bytes [of "[1, 2]" "[3, 4, 5]" bio "[0x82, 0xfe]" ts op] by (simp add: numeral_2_eq_2)

text \<open>
  The payload and the rest together are never longer than the received data, so the
  target buffer, which is as large as the receive buffer, cannot overflow. The base64
  filter is assumed to return no more bytes than asked for or than its text has.
\<close>

theorem decode_hybi_fits:
  assumes "bio_read_ok bio" "decode_hybi bio (a @ stale) (length a) ts op = Inr r" "0 \<le> d_ret r"
  shows "d_ret r = int (length (d_target r)) \<and> length (d_target r) + d_left r \<le> length a"
  using decode_loop_length [OF assms(1) decode_hybi_Inr [OF assms(2)] assms(3)] by simp

theorem decode_hybi_fits_witness:
  "length [8 :: byte, 11, 10] + 0 \<le> length (wire hello)"
  using decode_hybi_fits [OF no_base64_ok hello_decoded] by simp

text \<open>
  encode_hybi puts between one byte and DBUFSIZE bytes into a binary frame of RFC 6455,
  with the shortest length field, and the frame fits the output buffer.
\<close>

theorem encode_hybi_frames:
  assumes "src \<noteq> []" "length src \<le> DBUFSIZE"
  shows "encode_hybi bio src BUFSIZE OPCODE_BINARY = (int (length (plain_frame 0x82 src)), plain_frame 0x82 src)
    \<and> length (plain_frame 0x82 src) \<le> BUFSIZE"
  using assms encode_hybi_binary [of src bio BUFSIZE] length_plain_frame [of "0x82" src]
  by (simp add: DBUFSIZE_def BUFSIZE_def)

theorem encode_hybi_frames_witness:
  "encode_hybi id [1, 2, 3] BUFSIZE OPCODE_BINARY = (5, [0x82, 3, 1, 2, 3])"
  using encode_hybi_frames [of "[1, 2, 3]" id] by (simp add: DBUFSIZE_def BUFSIZE_def plain_frame_def length_bytes_def)

section \<open>The proxy\<close>

text \<open>
  C5. Client to server. In every state the loop can reach on a HyBi connection, the bytes
  handed to the VNC server followed by the bytes queued for it are exactly the payload of
  everything the client has sent, decoded in one piece, and tin\_buf holds the undecoded
  rest: nothing is lost, repeated or reordered, however the sockets split the data and
  whatever the buffers hold behind it.
\<close>

theorem proxy_forwards_client_stream:
  assumes "reachable bw br ctx op lft p" "hybi ctx \<noteq> 0" "bio_read_ok br" "2 \<le> length stale"
  shows "decode_hybi br (from_client p @ stale) (length (from_client p)) (BUFSIZE - 1) op
    = Inr \<lparr>d_ret = int (length (to_target p @ pending_target p)), d_opcode = p_opcode p,
        d_left = length (tin p), d_target = to_target p @ pending_target p\<rparr>"
proof -
  note d = inbound_decoded [OF conjunct2 [OF reachable_inbound [OF assms(1-3)]]]
  then show ?thesis
    using decode_loop_sl [of br "BUFSIZE - 1" 0 "from_client p" op "[]" "length (from_client p)"]
    by (simp add: decode_hybi_def decode_hybi_loop_ok [OF assms(4)])
qed

theorem proxy_forwards_client_stream_witness:
  "decode_hybi no_base64 (wire hello @ [0, 0]) (length (wire hello)) (BUFSIZE - 1) 0
   = Inr \<lparr>d_ret = 3, d_opcode = 2, d_left = 0, d_target = pending_target after_hello\<rparr>"
  using proxy_forwards_client_stream [OF after_hello_reachable, of "[0, 0]"]
  by (simp add: after_hello_def proxy_init_def hybi_ctx_def pending_target_def)

text \<open>
  C18. Server to client. On a binary HyBi connection, as long as no send to the client has
  failed, the bytes sent to the client followed by the bytes queued for it are one frame
  per chunk read from the VNC server, in order. After a failed send this is lost, because
  the loop does not look at the result of the send.
\<close>

theorem proxy_frames_server_stream:
  assumes "reachable bw br ctx op lft p" "hybi ctx \<noteq> 0" "ws_opcode ctx = OPCODE_BINARY" "\<not> send_failed p"
  shows "to_client p @ pending_client p = concat (map (plain_frame 0x82) (from_target p))"
  using reachable_outbound [OF assms(1-3)] assms(4) by (simp add: outbound_def)

text \<open>Three bytes were read from the server; of their frame two are sent and three are queued.\<close>

theorem proxy_frames_server_stream_witness:
  "to_client chunk_sent = [0x82, 3] \<and> pending_client chunk_sent = [5, 6, 7]
   \<and> to_client chunk_sent @ pending_client chunk_sent = plain_frame 0x82 [5, 6, 7]"
  using proxy_frames_server_stream [OF chunk_reachable]
  by (simp add: hybi_ctx_def chunk_sent_def chunk_read_def proxy_init_def pending_client_def plain_frame_def length_bytes_def)

text \<open>
  C16. On a HyBi connection, with binary or base64 messages, and whatever sends fail, every
  index of the loop stays inside its buffer of 65536 bytes and the encoder's output too;
  no null pointer is written through. The decoder leaves the receive buffer in one case
  only: 65535 bytes have been received and the last two begin a header with a 16 bit
  length, whose fourth byte is read behind the buffer.
\<close>

theorem proxy_stays_in_buffers:
  assumes "reachable bw br ctx op lft p" "bio_read_ok br" "encodes bw ctx"
  shows "length (tin p) < BUFSIZE \<and> tout_start p \<le> tout_end p \<and> tout_end p < BUFSIZE
    \<and> cout_start p \<le> cout_end p \<and> cout_end p \<le> length (cout_buf p) \<and> length (cout_buf p) \<le> BUFSIZE
    \<and> (\<forall>e q r. io_ok e p \<and> proxy_step bw br ctx e p = (q, Some r) \<longrightarrow>
         r \<noteq> NullPointer
         \<and> (r = OverRead \<longrightarrow> length (tin q) = BUFSIZE - 1 \<and> unat (tin q ! (BUFSIZE - 2) AND 0x7f) = 126))"
proof -
  have hybi: "hybi ctx \<noteq> 0" using assms(3) by (simp add: encodes_def)
  have inb: "in_bounds p" using reachable_inbound [OF assms(1) hybi assms(2)] by simp
  have "r \<noteq> NullPointer \<and> (r = OverRead \<longrightarrow> length (tin q) = BUFSIZE - 1 \<and> unat (tin q ! (BUFSIZE - 2) AND 0x7f) = 126)"
    if "io_ok e p" "proxy_step bw br ctx e p = (q, Some r)" for e q r
  proof (cases "r = NullPointer \<or> r = OverRead")
    case True
    from proxy_step_fault [OF that(2) True] obtain m where
      m: "tin m = tin p" "read_client br ctx e m = (q, Some r)" .
    have "recvs_client e m" using that(1) m(1) by (simp add: io_ok_def recvs_client_def)
    note f = read_client_fault [OF m(2) True hybi this]
    show ?thesis using f inb m(1) by (auto simp: in_bounds_def header_cut_def BUFSIZE_def)
  qed simp
  then show ?thesis
    using inb reachable_out_bounds [OF assms(1,3)] by (auto simp: in_bounds_def out_bounds_def BUFSIZE_def)
qed

text \<open>The read behind the buffer happens.\<close>

theorem proxy_stays_in_buffers_witness:
  "tout_end after_hello < BUFSIZE
   \<and> (\<exists>q. proxy_step id no_base64 hybi_ctx cut_io (proxy_init 0 0) = (q, Some OverRead)
         \<and> unat (tin q ! (BUFSIZE - 2) AND 0x7f) = 126)"
proof -
  have a: "tout_end after_hello < BUFSIZE"
    using proxy_stays_in_buffers [OF after_hello_reachable [of id]] by simp
  obtain q where q: "proxy_step id no_base64 hybi_ctx cut_io (proxy_init 0 0) = (q, Some OverRead)"
    "io_ok cut_io (proxy_init 0 0)" using cut_step by blast
  have "unat (tin q ! (BUFSIZE - 2) AND 0x7f) = 126"
    using proxy_stays_in_buffers [OF reachable.start no_base64_ok hybi_ctx_encodes [of id], of 0 0] q by blast
  with a q(1) show ?thesis by blast
qed

text \<open>
  C36. A frame whose payload has 65528 to 65535 bytes has a legal 16 bit length, but is never
  delivered: with header and mask it does not fit the receive buffer. After any frames
  before it no more than 65535 bytes of it are received, the frames before it are all that
  reaches the server, and when 65535 bytes are in, the next receive call asks for no bytes
  and its result is taken for the end of the connection.
\<close>

theorem proxy_oversized_frame:
  assumes "reachable bw br ctx op lft p" "hybi ctx \<noteq> 0" "bio_read_ok br" "\<forall>f\<in>set fs. client_frame_ok f"
    and "length key = 4" "65528 \<le> length payload" "length payload < 65536" "unat (b0 AND 0x0f) \<noteq> 8"
    and "prefix (from_client p) (concat (map wire fs) @ masked_frame b0 key payload @ later)"
  shows "length (from_client p) \<le> length (concat (map wire fs)) + 65535
    \<and> (\<forall>part. from_client p = concat (map wire fs) @ part \<longrightarrow>
         to_target p @ pending_target p = concat (map binary_payload fs)
         \<and> (length part = 65535 \<and> io_ok e p \<and> \<not> pe_recv_client e \<longrightarrow>
              read_client br ctx e p = (p, Some ClientClosed)))"
  using oversized_frame_stuck [OF assms] read_client_full [of p e br ctx] by (auto simp: BUFSIZE_def io_ok_def)

text \<open>65535 bytes of a frame of 65543 bytes were received.\<close>

theorem proxy_oversized_frame_witness:
  "\<exists>p. from_client p = take 65535 big_frame \<and> length (from_client p) = 65535 \<and> to_target p = []
     \<and> read_client no_base64 hybi_ctx (quiet\<lparr>sel_r_client := True\<rparr>) p = (p, Some ClientClosed)"
proof -
  let ?e = "quiet\<lparr>sel_r_client := True\<rparr>"
  obtain p where p: "reachable id no_base64 hybi_ctx 0 0 p" "from_client p = take 65535 big_frame"
    "length (from_client p) = 65535"
    using big_reachable by blast
  have "prefix (from_client p) (concat (map wire []) @ masked_frame 0x82 [1, 2, 3, 4] (replicate 65535 7) @ [])"
    using p(2) take_is_prefix [of 65535 big_frame] by (simp add: big_frame_def)
  note o = proxy_oversized_frame [OF p(1) _ _ _ _ _ _ _ this, of ?e]
  have io: "io_ok ?e p" using reachable_out_bounds [OF p(1)] hybi_ctx_encodes
    by (simp add: io_ok_def quiet_def sends_target_def sends_client_def recvs_target_def recvs_client_def)
  have "to_target p = [] \<and> read_client no_base64 hybi_ctx ?e p = (p, Some ClientClosed)"
    using o io p(3) by (simp add: hybi_ctx_def quiet_def)
  with p show ?thesis by blast
qed

text \<open>
  A send to the client that fails at the start of the output buffer is not noticed: the
  unsigned index wraps around, the queued frame is thrown away and the loop goes on.
\<close>

theorem proxy_client_send_error:
  assumes "send_client e = - 1" "\<not> pe_send_client e" "cout_start p = 0" "cout_end p \<le> BUFSIZE"
  shows "write_client e p = (p\<lparr>cout_start := 0, cout_end := 0, send_failed := True\<rparr>, None)"
  using assms by (simp add: write_client_def u32_def BUFSIZE_def)

theorem proxy_client_send_error_witness:
  "write_client (quiet\<lparr>send_client := - 1\<rparr>) (after_hello\<lparr>cout_buf := [0x82, 1, 5], cout_end := 3\<rparr>)
   = (after_hello\<lparr>cout_buf := [0x82, 1, 5], cout_start := 0, cout_end := 0, send_failed := True\<rparr>, None)"
  using proxy_client_send_error [of "quiet\<lparr>send_client := - 1\<rparr>" "after_hello\<lparr>cout_buf := [0x82, 1, 5], cout_end := 3\<rparr>"]
  by (simp add: quiet_def after_hello_def proxy_init_def BUFSIZE_def)

end
