(* ===== verification/CString.thy ===== *)
theory CString
  imports KasmPrelude
begin

text \<open>
  The string functions of the C library that the network code and the password tools
  use. A C string is the list of its characters without the terminating zero; a pointer
  into a string is the suffix it points at.
\<close>

definition NUL :: char where
  "NUL = CHR 0x00"

definition LF :: char where
  "LF = CHR 0x0A"

text \<open>The C string in a buffer that may hold a zero.\<close>

definition cstr :: "string \<Rightarrow> string" where
  "cstr buf = takeWhile (\<lambda>c. c \<noteq> NUL) buf"

definition strchr :: "string \<Rightarrow> char \<Rightarrow> string option" where
  "strchr s c = (case dropWhile (\<lambda>x. x \<noteq> c) s of [] \<Rightarrow> None | t \<Rightarrow> Some t)"

definition strrchr :: "string \<Rightarrow> char \<Rightarrow> string option" where
  "strrchr s c =
     (case dropWhile (\<lambda>x. x \<noteq> c) (rev s) of [] \<Rightarrow> None
      | _ \<Rightarrow> Some (c # rev (takeWhile (\<lambda>x. x \<noteq> c) (rev s))))"

fun starts :: "string \<Rightarrow> string \<Rightarrow> bool" where
  "starts [] s = True"
| "starts (c # p) [] = False"
| "starts (c # p) (d # s) = (c = d \<and> starts p s)"

fun strstr :: "string \<Rightarrow> string \<Rightarrow> string option" where
  "strstr [] n = (if n = [] then Some [] else None)"
| "strstr (c # s) n = (if starts n (c # s) then Some (c # s) else strstr s n)"

definition tolower :: "char \<Rightarrow> char" where
  "tolower c = (let n = of_char c :: nat in if 65 \<le> n \<and> n \<le> 90 then char_of (n + 32) else c)"

fun starts_nocase :: "string \<Rightarrow> string \<Rightarrow> bool" where
  "starts_nocase [] s = True"
| "starts_nocase (c # p) [] = False"
| "starts_nocase (c # p) (d # s) = (tolower c = tolower d \<and> starts_nocase p s)"

fun strcasestr :: "string \<Rightarrow> string \<Rightarrow> string option" where
  "strcasestr [] n = (if n = [] then Some [] else None)"
| "strcasestr (c # s) n = (if starts_nocase n (c # s) then Some (c # s) else strcasestr s n)"

definition isdigit :: "char \<Rightarrow> bool" where
  "isdigit c = (let n = of_char c :: nat in 48 \<le> n \<and> n \<le> 57)"

definition isupper :: "char \<Rightarrow> bool" where
  "isupper c = (let n = of_char c :: nat in 65 \<le> n \<and> n \<le> 90)"

definition islower :: "char \<Rightarrow> bool" where
  "islower c = (let n = of_char c :: nat in 97 \<le> n \<and> n \<le> 122)"

definition isalpha :: "char \<Rightarrow> bool" where
  "isalpha c \<longleftrightarrow> isupper c \<or> islower c"

definition isalnum :: "char \<Rightarrow> bool" where
  "isalnum c \<longleftrightarrow> isalpha c \<or> isdigit c"

text \<open>The value of a hexadecimal digit.\<close>

definition hexval :: "char \<Rightarrow> nat option" where
  "hexval c = (let n = of_char c :: nat in
     if 48 \<le> n \<and> n \<le> 57 then Some (n - 48)
     else if 65 \<le> n \<and> n \<le> 70 then Some (n - 55)
     else if 97 \<le> n \<and> n \<le> 102 then Some (n - 87)
     else None)"

definition isxdigit :: "char \<Rightarrow> bool" where
  "isxdigit c \<longleftrightarrow> hexval c \<noteq> None"

definition isspace :: "char \<Rightarrow> bool" where
  "isspace c = (let n = of_char c :: nat in n = 32 \<or> 9 \<le> n \<and> n \<le> 13)"

text \<open>
  The digits of a number in a given base at the start of a string. Overflow to LONG\_MAX
  is written out by the callers for which it can happen.
\<close>

fun digits :: "nat \<Rightarrow> nat \<Rightarrow> string \<Rightarrow> nat" where
  "digits base acc [] = acc"
| "digits base acc (c # s) =
     (case hexval c of None \<Rightarrow> acc
      | Some d \<Rightarrow> if d < base then digits base (acc * base + d) s else acc)"

definition strtol :: "nat \<Rightarrow> string \<Rightarrow> int" where
  "strtol base s =
     (let s1 = dropWhile isspace s;
          neg = (s1 \<noteq> [] \<and> hd s1 = CHR ''-'');
          s2 = (if s1 \<noteq> [] \<and> (hd s1 = CHR ''-'' \<or> hd s1 = CHR ''+'') then tl s1 else s1);
          s3 = (if base = 16 \<and> length s2 > 2 \<and> hd s2 = CHR ''0'' \<and> tolower (s2 ! 1) = CHR ''x''
                   \<and> isxdigit (s2 ! 2) then drop 2 s2 else s2);
          n = int (digits base 0 s3)
      in if neg then - n else n)"

text \<open>
  fgets with a buffer of \<open>n\<close> characters: a line with its newline, or as much of it as fits.
\<close>

definition fgets :: "nat \<Rightarrow> string \<Rightarrow> string \<times> string" where
  "fgets n s =
     (let line = takeWhile (\<lambda>c. c \<noteq> LF) s;
          k = min (n - 1) (if length line < length s then Suc (length line) else length line)
      in (take k s, drop k s))"

lemma fgets_shorter:
  assumes "s \<noteq> []" "2 \<le> n"
  shows "length (snd (fgets n s)) < length s"
proof -
  define k where "k = min (n - 1) (if length (takeWhile (\<lambda>c. c \<noteq> LF) s) < length s
    then Suc (length (takeWhile (\<lambda>c. c \<noteq> LF) s)) else length (takeWhile (\<lambda>c. c \<noteq> LF) s))"
  have "length (takeWhile (\<lambda>c. c \<noteq> LF) s) \<le> length s" by (rule length_takeWhile_le)
  then have "1 \<le> k" using assms by (auto simp: k_def min_def Suc_le_eq)
  moreover have "snd (fgets n s) = drop k s" by (simp add: fgets_def Let_def k_def)
  ultimately show ?thesis using assms(1) by simp
qed

function file_lines :: "nat \<Rightarrow> string \<Rightarrow> string list" where
  "file_lines n s =
     (if s = [] \<or> n < 2 then [] else fst (fgets n s) # file_lines n (snd (fgets n s)))"
  by pat_completeness auto
termination
  by (relation "measure (\<lambda>(n, s). length s)") (auto simp: fgets_shorter)

declare file_lines.simps [simp del]

lemma strchr_None: "strchr s c = None \<longleftrightarrow> c \<notin> set s"
  by (induction s) (auto simp: strchr_def)

lemma strchr_append: "c \<notin> set a \<Longrightarrow> strchr (a @ c # b) c = Some (c # b)"
  by (induction a) (auto simp: strchr_def)

lemma takeWhile_not: "c \<notin> set a \<Longrightarrow> takeWhile (\<lambda>x. x \<noteq> c) (a @ c # b) = a"
  by (induction a) auto

text \<open>A file of newline-terminated lines that fit the buffer is read line by line.\<close>

lemma fgets_line:
  assumes "LF \<notin> set l" "length l + 2 \<le> n"
  shows "fgets n (l @ LF # rest) = (l @ [LF], rest)"
  using assms by (simp add: fgets_def Let_def takeWhile_not)

lemma file_lines_concat:
  assumes "\<forall>l\<in>set ls. LF \<notin> set l \<and> length l + 2 \<le> n"
  shows "file_lines n (concat (map (\<lambda>l. l @ [LF]) ls)) = map (\<lambda>l. l @ [LF]) ls"
  using assms
proof (induction ls)
  case Nil
  then show ?case by (simp add: file_lines.simps)
next
  case (Cons l ls)
  then have "2 \<le> n" by simp
  with Cons show ?case by (subst file_lines.simps) (simp add: fgets_line)
qed

lemma starts_iff: "starts p s \<longleftrightarrow> (\<exists>t. s = p @ t)"
  by (induction p s rule: starts.induct) auto

lemma strstr_None: "strstr s n = None \<longleftrightarrow> (\<nexists>a b. s = a @ n @ b)"
proof (induction s)
  case Nil
  then show ?case by auto
next
  case (Cons c s)
  have "(\<exists>a b. c # s = a @ n @ b) \<longleftrightarrow> starts n (c # s) \<or> (\<exists>a b. s = a @ n @ b)"
    unfolding starts_iff by (metis append_Cons append_Nil list.exhaust list.sel(3) )
  with Cons show ?case by simp
qed

end
