(* ===== verification/HttpRequest.thy ===== *)
theory HttpRequest
  imports CString WebSocketTypes
begin

text \<open>
  The request parsing of \<^verbatim>\<open>src/common/network/websocket.c\<close>: query parameters, percent
  encoding, MIME types, address checks, and the WebSocket handshake.
\<close>

section \<open>Query parameters\<close>

text \<open>
  parse\_get returns a pointer to the value and its length, the distance from the value to
  the end of the parameter as an unsigned int.
\<close>

function parse_get :: "string \<Rightarrow> string \<Rightarrow> string \<times> nat" where
  "parse_get start opt =
     (let endp = dropWhile (\<lambda>c. c \<noteq> CHR ''&'') start in
      if starts opt start then
        (case strchr start (CHR ''='') of None \<Rightarrow> ('''', 0)
         | Some a \<Rightarrow> (tl a, u32 (int (length (tl a)) - int (length endp))))
      else if endp = [] then ('''', 0)
      else parse_get (tl endp) opt)"
  by pat_completeness auto
termination
proof (relation "measure (\<lambda>(start, opt). length start)", goal_cases)
  case 1
  then show ?case by simp
next
  case (2 start opt x)
  then have "x \<noteq> []" "length x \<le> length start" by (simp_all add: length_dropWhile_le)
  then show ?case by (cases x) auto
qed

declare parse_get.simps [simp del]

section \<open>Percent encoding\<close>

fun percent_decode :: "bool \<Rightarrow> string \<Rightarrow> string" where
  "percent_decode filt [] = []"
| "percent_decode filt (c # s) =
     (if c \<noteq> CHR ''%'' then c # percent_decode filt s
      else
        (case s of a # b # r \<Rightarrow>
           let d = char_of (strtol 16 [a, b]) in
           (if filt \<and> d = CHR ''/'' then CHR ''_'' else d) # percent_decode filt r
         | _ \<Rightarrow> []))"

definition hexdigit :: "nat \<Rightarrow> char" where
  "hexdigit n = (if n < 10 then char_of (48 + n) else char_of (55 + n))"

text \<open>
  sprintf prints the int that a char promotes to. For a char above 127, which is negative,
  this gives eight digits, of which the first two stay: FF.
\<close>

definition encode_char :: "char \<Rightarrow> string" where
  "encode_char c =
     (if isalnum c \<or> c = CHR ''.'' \<or> c = CHR '','' then [c]
      else CHR ''%'' #
        (let n = of_char c :: nat in
         if n < 128 then [hexdigit (n div 16), hexdigit (n mod 16)] else ''FF''))"

fun percent_encode :: "string \<Rightarrow> string" where
  "percent_encode [] = []"
| "percent_encode (c # s) = encode_char c @ percent_encode s"

section \<open>Small checks\<close>

definition name2mime :: "string \<Rightarrow> string" where
  "name2mime name =
     (case strrchr name (CHR ''.'') of None \<Rightarrow> ''application/octet-stream''
      | Some e \<Rightarrow>
          let ext = tl e in
          if strcasestr name ''Downloads/'' \<noteq> None then ''application/octet-stream''
          else if starts ''htm'' ext then ''text/html''
          else if starts ''txt'' ext then ''text/plain''
          else if starts ''css'' ext then ''text/css''
          else if starts ''js'' ext then ''application/javascript''
          else if starts ''gif'' ext then ''image/gif''
          else if starts ''jpg'' ext then ''image/jpeg''
          else if starts ''jpeg'' ext then ''image/jpeg''
          else if starts ''png'' ext then ''image/png''
          else if starts ''svg'' ext then ''image/svg+xml''
          else ''application/octet-stream'')"

definition isValidIp :: "string \<Rightarrow> bool" where
  "isValidIp s \<longleftrightarrow> (\<forall>c\<in>set s. isxdigit c \<or> c = CHR ''.'' \<or> c = CHR '':'')"

text \<open>
  The key of a Hixie 76 handshake: the number formed by its digits, modulo 2 to the 64,
  divided by the number of its spaces. Without a space the division traps: none.
\<close>

definition key_number :: "string \<Rightarrow> nat" where
  "key_number key =
     fold (\<lambda>c n. if isdigit c then (n * 10 + (of_char c - 48)) mod 2 ^ 64 else n) key 0"

definition parse_hixie76_key :: "string \<Rightarrow> int option" where
  "parse_hixie76_key key =
     (let spaces = length (filter (\<lambda>c. c = CHR '' '') key) in
      if spaces = 0 then None else Some (c_int (int (key_number key div spaces))))"

text \<open>The four bytes of a key, most significant first.\<close>

definition be32 :: "int \<Rightarrow> byte list" where
  "be32 n = [word_of_int (n div 16777216), word_of_int (n div 65536), word_of_int (n div 256), word_of_int n]"

definition gen_md5 :: "(byte list \<Rightarrow> byte list) \<Rightarrow> headers_t \<Rightarrow> byte list option" where
  "gen_md5 md5 hs =
     (case (parse_hixie76_key (hd_key1 hs), parse_hixie76_key (hd_key2 hs)) of
        (Some k1, Some k2) \<Rightarrow>
          Some (md5 (be32 k1 @ be32 k2
            @ map (\<lambda>i. if i < length (hd_key3 hs) then of_char (hd_key3 hs ! i) else 0) [0..<8]))
      | _ \<Rightarrow> None)"

section \<open>The handshake\<close>

text \<open>
  parse\_handshake returns 0 (Reject) or 1 with the context filled in (Accept). A header
  value is copied into an array of 1025 chars without a check of its length, and the end
  of a header line is used without a check that there is one: both are a Fault.
\<close>

datatype handshake = Accept ws_ctx | Reject | Fault

definition CRLF :: string where
  "CRLF = [CHR 0x0D, CHR 0x0A]"

definition copy_until :: "string \<Rightarrow> string \<Rightarrow> string option" where
  "copy_until start stop =
     (case strstr start stop of None \<Rightarrow> None
      | Some e \<Rightarrow>
          let n = length start - length e in if n > 1024 then None else Some (take n start))"

definition header_field ::
  "string \<Rightarrow> string \<Rightarrow> (string \<Rightarrow> handshake) \<Rightarrow> handshake"
where
  "header_field req name k =
     (case strcasestr req (CRLF @ name) of None \<Rightarrow> Reject
      | Some s \<Rightarrow>
          (case copy_until (drop (length (CRLF @ name)) s) CRLF of None \<Rightarrow> Fault | Some v \<Rightarrow> k v))"

definition origin_field :: "string \<Rightarrow> (string \<Rightarrow> handshake) \<Rightarrow> handshake" where
  "origin_field req k =
     (if strcasestr req (CRLF @ ''Origin: '') \<noteq> None then header_field req ''Origin: '' k
      else header_field req ''Sec-WebSocket-Origin: '' k)"

definition hybi_fields :: "ws_ctx \<Rightarrow> headers_t \<Rightarrow> string \<Rightarrow> handshake" where
  "hybi_fields ctx h req =
     header_field req ''Sec-WebSocket-Version: '' (\<lambda>version.
     header_field req ''Sec-WebSocket-Key: '' (\<lambda>key1.
     header_field req ''Connection: '' (\<lambda>connection.
     header_field req ''Sec-WebSocket-Protocol: '' (\<lambda>protocols.
       Accept (ctx\<lparr>hixie := 0, hybi := c_int (strtol 10 version),
         headers := h\<lparr>hd_version := version, hd_key1 := key1, hd_connection := connection,
                      hd_protocols := protocols\<rparr>\<rparr>)))))"

definition hixie_fields :: "ws_ctx \<Rightarrow> headers_t \<Rightarrow> string \<Rightarrow> handshake" where
  "hixie_fields ctx h req =
     (case strstr req (CRLF @ CRLF) of None \<Rightarrow> Reject
      | Some s \<Rightarrow>
          let body = drop 4 s in
          if length body = 8 then
            header_field req ''Sec-WebSocket-Key1: '' (\<lambda>key1.
            header_field req ''Sec-WebSocket-Key2: '' (\<lambda>key2.
              Accept (ctx\<lparr>hybi := 0, hixie := 76,
                headers := h\<lparr>hd_key1 := key1, hd_key2 := key2, hd_key3 := body\<rparr>\<rparr>)))
          else Accept (ctx\<lparr>hybi := 0, hixie := 75, headers := h\<rparr>))"

definition parse_handshake :: "ws_ctx \<Rightarrow> string \<Rightarrow> handshake" where
  "parse_handshake ctx req =
     (let h = (headers ctx)\<lparr>hd_key1 := '''', hd_key2 := '''', hd_key3 := ''''\<rparr> in
      if length req < 92 \<or> \<not> starts ''GET '' req \<or> strcasestr req ''Upgrade: websocket'' = None
      then Reject
      else
        let start = drop 4 req in
        if strstr start '' HTTP/1.1'' = None then Reject
        else
          (case copy_until start '' HTTP/1.1'' of None \<Rightarrow> Fault
           | Some path \<Rightarrow>
               header_field req ''Host: '' (\<lambda>host.
               origin_field req (\<lambda>origin.
                 let h1 = h\<lparr>hd_path := path, hd_host := host, hd_origin := origin\<rparr> in
                 if strcasestr req (CRLF @ ''Sec-WebSocket-Version: '') \<noteq> None
                 then hybi_fields ctx h1 req else hixie_fields ctx h1 req))))"

end
