(* ===== verification/HttpServe.thy ===== *)
theory HttpServe
  imports HttpProps
begin

text \<open>
  The static file server of \<^verbatim>\<open>websocket.c\<close>: servefile and dirlisting. The file
  system is a parameter: which paths are directories, what they hold (in the order of
  scandir, with a mark for directories) and which paths can be opened for reading.
\<close>

record filesys =
  is_dir :: "string \<Rightarrow> bool"
  dir_entries :: "string \<Rightarrow> (string \<times> bool) list"
  file_content :: "string \<Rightarrow> string option"

text \<open>
  The replies, with what distinguishes them: the location of a redirection, the title and
  the links of a listing, the MIME type and the body of a file.
\<close>

datatype reply =
    NotFound
  | Moved string
  | Index string "(string \<times> string) list"
  | Body string string

definition dirlisting :: "filesys \<Rightarrow> string \<Rightarrow> string \<Rightarrow> reply" where
  "dirlisting fs fullpath path =
     (if last fullpath \<noteq> CHR ''/'' then Moved (path @ ''/'')
      else Index path
        (map (\<lambda>(name, dir).
                if dir then (percent_encode name @ ''/'', name @ ''/'') else (percent_encode name, name))
          (filter (\<lambda>(name, dir). name \<noteq> ''.'' \<and> name \<noteq> ''..'') (dir_entries fs fullpath))))"

text \<open>
  The path of a request: the text between the method and the next space. When there
  is no space the code takes the low 32 bits of the difference between a null pointer and
  the request's address as the length. The model refuses such a request, as the code does
  unless the request lies less than 1025 bytes below a multiple of four gigabytes.
\<close>

definition request_path :: "string \<Rightarrow> string option" where
  "request_path inp =
     (case strchr inp (CHR '' '') of None \<Rightarrow> None
      | Some e \<Rightarrow>
          let len = length inp - length e in
          if len < 1 \<or> len > 1024 \<or> strstr inp ''../'' \<noteq> None then None
          else Some (take len inp))"

definition servefile :: "filesys \<Rightarrow> string \<Rightarrow> string \<Rightarrow> reply" where
  "servefile fs httpdir inp =
     (if \<not> starts ''GET '' inp then NotFound
      else
        (case request_path (drop 4 inp) of None \<Rightarrow> NotFound
         | Some p \<Rightarrow>
             let path0 = takeWhile (\<lambda>c. c \<noteq> CHR ''?'') p;
                 path = (if path0 = ''/'' then ''/index.html'' else path0);
                 buf = cstr (percent_decode True path)
             in if strstr buf ''../'' \<noteq> None then NotFound
                else
                  let fullpath = httpdir @ ''/'' @ buf in
                  if is_dir fs fullpath then dirlisting fs fullpath buf
                  else
                    (case file_content fs fullpath of None \<Rightarrow> NotFound
                     | Some body \<Rightarrow> Body (name2mime path) body)))"

section \<open>Paths\<close>

fun components :: "string \<Rightarrow> string list" where
  "components [] = ['''']"
| "components (c # s) =
     (if c = CHR ''/'' then '''' # components s
      else (c # hd (components s)) # tl (components s))"

lemma components_nonempty [simp]: "components s \<noteq> []"
  by (induction s) auto

lemma components_append:
  "CHR ''/'' \<notin> set a \<Longrightarrow> components (a @ CHR ''/'' # b) = a # components b"
  by (induction a) auto

lemma components_slash: "components (a @ CHR ''/'' # b) = butlast (components a) @ last (components a) # components b"
proof (induction a)
  case (Cons c a)
  then show ?case
    by (cases "components a") (auto simp: butlast_append)
qed simp

lemma components_no_slash: "CHR ''/'' \<notin> set a \<Longrightarrow> components a = [a]"
  by (induction a) auto

text \<open>A component \<open>..\<close> that is not the last one is followed by a slash.\<close>

lemma dotdot_substring:
  assumes "''..'' \<in> set (butlast (components s))"
  shows "strstr s ''../'' \<noteq> None"
  using assms
proof (induction "length s" arbitrary: s rule: less_induct)
  case less
  show ?case
  proof (cases "CHR ''/'' \<in> set s")
    case True
    then obtain a b where s: "s = a @ CHR ''/'' # b" "CHR ''/'' \<notin> set a" by (metis split_list_first)
    then have c: "components s = a # components b" by (simp add: components_append)
    show ?thesis
    proof (cases "a = ''..''")
      case True
      then have "s = [] @ ''../'' @ b" using s by simp
      then show ?thesis unfolding strstr_None by blast
    next
      case False
      then have "strstr b ''../'' \<noteq> None" using less c s by simp
      then obtain u v where "b = u @ ''../'' @ v" unfolding strstr_None by auto
      then have "s = (a @ CHR ''/'' # u) @ ''../'' @ v" using s by simp
      then show ?thesis unfolding strstr_None by blast
    qed
  next
    case False
    then show ?thesis using less.prems by (simp add: components_no_slash)
  qed
qed

lemma components_last_slash: "s \<noteq> [] \<Longrightarrow> last s = CHR ''/'' \<Longrightarrow> last (components s) = ''''"
  by (metis append_butlast_last_id components.simps(1) components_slash last.simps last_appendR list.distinct(1))

lemma no_dotdot:
  assumes "strstr s ''../'' = None" "last (components s) \<noteq> ''..''"
  shows "''..'' \<notin> set (components s)"
proof
  assume "''..'' \<in> set (components s)"
  then have "''..'' \<in> set (butlast (components s)) \<or> ''..'' = last (components s)"
    by (metis append_butlast_last_id components_nonempty in_set_conv_decomp in_set_butlast_appendI
        set_append Un_iff list.set(1) list.set(2) insertE emptyE)
  then show False using assms dotdot_substring by auto
qed

text \<open>
  What servefile reads, and the reply it makes of it. \<open>reads\<close> lists the paths that opendir,
  scandir and fopen get.
\<close>

definition served_path :: "string \<Rightarrow> string option" where
  "served_path inp =
     (if \<not> starts ''GET '' inp then None
      else
        (case request_path (drop 4 inp) of None \<Rightarrow> None
         | Some p \<Rightarrow>
             let path0 = takeWhile (\<lambda>c. c \<noteq> CHR ''?'') p;
                 path = (if path0 = ''/'' then ''/index.html'' else path0);
                 buf = cstr (percent_decode True path)
             in if strstr buf ''../'' \<noteq> None then None else Some buf))"

lemma servefile_served:
  "servefile fs httpdir inp =
     (case served_path inp of None \<Rightarrow> NotFound
      | Some buf \<Rightarrow>
          let fullpath = httpdir @ ''/'' @ buf in
          if is_dir fs fullpath then dirlisting fs fullpath buf
          else (case file_content fs fullpath of None \<Rightarrow> NotFound
                | Some body \<Rightarrow>
                    Body (name2mime
                      (let p = takeWhile (\<lambda>c. c \<noteq> CHR ''?'') (the (request_path (drop 4 inp)))
                       in if p = ''/'' then ''/index.html'' else p)) body))"
  by (auto simp: servefile_def served_path_def Let_def split: option.split)

lemma served_path_no_dotdot: "served_path inp = Some buf \<Longrightarrow> strstr buf ''../'' = None"
  by (auto simp: served_path_def Let_def split: option.splits if_splits)

lemma servefile_content_path:
  assumes "servefile fs httpdir inp = Index t links \<or> servefile fs httpdir inp = Body m body"
    and "\<forall>p. last (components p) = ''..'' \<longrightarrow> file_content fs p \<noteq> None \<longrightarrow> is_dir fs p"
  obtains buf where "served_path inp = Some buf" "''..'' \<notin> set (components buf)"
proof -
  obtain buf where b: "served_path inp = Some buf"
    using assms(1) by (auto simp: servefile_served split: option.splits)
  let ?full = "httpdir @ ''/'' @ buf"
  have last: "last (components ?full) = last (components buf)"
    by (simp add: components_slash)
  have "last (components buf) \<noteq> ''..''"
  proof (cases "is_dir fs ?full")
    case True
    then have "last ?full = CHR ''/''"
      using assms(1) b by (auto simp: servefile_served dirlisting_def split: if_splits)
    then have "buf = [] \<or> last buf = CHR ''/''" by (auto split: if_splits)
    then show ?thesis by (cases "buf = []") (auto simp: components_last_slash)
  next
    case False
    then have "file_content fs ?full \<noteq> None"
      using assms(1) b by (auto simp: servefile_served split: option.splits)
    then show ?thesis using assms(2) False last by metis
  qed
  then show thesis using that [OF b] no_dotdot served_path_no_dotdot [OF b] by blast
qed

section \<open>Properties\<close>

text \<open>
  C28. Whatever the request says, what servefile lists or reads is at the configured
  directory followed by a path none of whose components is \<open>..\<close>: no encoding of the
  request escapes the directory. A request that names \<open>..\<close> at the end without a slash is
  redirected. The file system is only assumed to be one in which a path ending in \<open>..\<close>
  that can be opened is a directory.
\<close>

theorem servefile_no_traversal:
  assumes "servefile fs httpdir inp = Index t links \<or> servefile fs httpdir inp = Body mime body"
    and "\<forall>p. last (components p) = ''..'' \<longrightarrow> file_content fs p \<noteq> None \<longrightarrow> is_dir fs p"
  shows "\<exists>buf. ''..'' \<notin> set (components buf) \<and>
    (is_dir fs (httpdir @ ''/'' @ buf) \<and> servefile fs httpdir inp = dirlisting fs (httpdir @ ''/'' @ buf) buf
     \<or> (\<exists>mime body. file_content fs (httpdir @ ''/'' @ buf) = Some body \<and> servefile fs httpdir inp = Body mime body))"
proof -
  obtain buf where b: "served_path inp = Some buf" "''..'' \<notin> set (components buf)"
    using servefile_content_path [OF assms] .
  show ?thesis
  proof (intro exI [of _ buf] conjI)
    show "is_dir fs (httpdir @ ''/'' @ buf) \<and> servefile fs httpdir inp = dirlisting fs (httpdir @ ''/'' @ buf) buf
      \<or> (\<exists>mime body. file_content fs (httpdir @ ''/'' @ buf) = Some body \<and> servefile fs httpdir inp = Body mime body)"
      using assms(1) b(1)
      by (cases "is_dir fs (httpdir @ ''/'' @ buf)"; cases "file_content fs (httpdir @ ''/'' @ buf)")
        (simp_all add: servefile_served)
  qed (rule b(2))
qed

definition one_file :: filesys where
  "one_file = \<lparr>is_dir = (\<lambda>p. last (components p) = ''..''), dir_entries = (\<lambda>_. []),
     file_content = (\<lambda>p. if p = ''www//a b'' then Some ''x'' else None)\<rparr>"

lemma one_file_served: "servefile one_file ''www'' ''GET /a%20b HTTP/1.1'' = Body ''application/octet-stream'' ''x''"
  by (simp add: servefile_def request_path_def strchr_def one_file_def cstr_def NUL_def name2mime_def strrchr_def
      strtol_def isspace_def hexval_def isxdigit_def tolower_def Let_def char_of_def)

theorem servefile_no_traversal_witness:
  "\<exists>buf. ''..'' \<notin> set (components buf) \<and>
    (is_dir one_file (''www'' @ ''/'' @ buf)
       \<and> servefile one_file ''www'' ''GET /a%20b HTTP/1.1'' = dirlisting one_file (''www'' @ ''/'' @ buf) buf
     \<or> (\<exists>mime body. file_content one_file (''www'' @ ''/'' @ buf) = Some body
           \<and> servefile one_file ''www'' ''GET /a%20b HTTP/1.1'' = Body mime body))"
  by (rule servefile_no_traversal [OF disjI2 [OF one_file_served]]) (simp add: one_file_def)

end
