(* ===== verification/KasmPasswd.thy ===== *)
theory KasmPasswd
  imports CString
begin

text \<open>
  The password file of \<^verbatim>\<open>src/unix/kasmvncpasswd\<close>: reading and writing it
  (\<^verbatim>\<open>kasmpasswd.c\<close>) and the tool that edits it (\<^verbatim>\<open>kasmvncpasswd.c\<close>).
\<close>

section \<open>The file\<close>

record kasmpasswd_entry =
  user :: string
  password :: string
  p_read :: bool
  p_write :: bool
  p_owner :: bool

definition USERNAME_LEN :: nat where
  "USERNAME_LEN = 128"

definition PASSWORD_LEN :: nat where
  "PASSWORD_LEN = 128"

text \<open>One line of the file: the body of the second loop of readkasmpasswd.\<close>

definition parse_entry :: "string \<Rightarrow> kasmpasswd_entry option" where
  "parse_entry buf =
     (case strchr buf (CHR '':'') of None \<Rightarrow> None
      | Some lim \<Rightarrow>
          let u = takeWhile (\<lambda>c. c \<noteq> CHR '':'') buf; rest = tl lim in
          (case strchr rest (CHR '':'') of None \<Rightarrow> None
           | Some lim2 \<Rightarrow>
               let pw = takeWhile (\<lambda>c. c \<noteq> CHR '':'') rest;
                   perms = takeWhile (\<lambda>c. c \<noteq> LF) (tl lim2)
               in if length u + 1 > USERNAME_LEN then None
                  else if length pw + 1 > PASSWORD_LEN then None
                  else Some
                    \<lparr>user = u, password = pw,
                     p_read = (strchr perms (CHR ''r'') \<noteq> None),
                     p_write = (strchr perms (CHR ''w'') \<noteq> None),
                     p_owner = (strchr perms (CHR ''o'') \<noteq> None)\<rparr>))"

text \<open>
  A file that cannot be opened has no users. fgets reads bytes, a zero among them too, and
  the string functions then see the line up to its first zero.
\<close>

definition readkasmpasswd :: "string option \<Rightarrow> kasmpasswd_entry list" where
  "readkasmpasswd f =
     (case f of None \<Rightarrow> [] | Some s \<Rightarrow> List.map_filter (\<lambda>buf. parse_entry (cstr buf)) (file_lines 4096 s))"

definition print_entry :: "kasmpasswd_entry \<Rightarrow> string" where
  "print_entry e =
     user e @ '':'' @ password e @ '':''
     @ (if p_read e then ''r'' else '''') @ (if p_write e then ''w'' else '''')
     @ (if p_owner e then ''o'' else '''') @ [LF]"

definition print_entries :: "kasmpasswd_entry list \<Rightarrow> string" where
  "print_entries pset = concat (map (\<lambda>e. if user e = '''' then '''' else print_entry e) pset)"

text \<open>
  writekasmpasswd as the sequence of states of the file system it goes through, the last
  one being the result: the temporary file is truncated, grows byte by byte and is
  renamed. \<open>open_ok\<close> and \<open>rename_ok\<close> say whether fopen and rename succeed, and \<open>space\<close> how
  many bytes the file system takes, none for as many as there are. The results of
  fprintf, fsync and fclose are not looked at, so a file that was cut is renamed like a
  complete one.
\<close>

type_synonym files = "string \<rightharpoonup> string"

definition PATH_MAX :: nat where
  "PATH_MAX = 4096"

definition tmp_name :: "string \<Rightarrow> string" where
  "tmp_name path = take (PATH_MAX - 1) (path @ ''.tmp'')"

fun taken :: "nat option \<Rightarrow> string \<Rightarrow> string" where
  "taken None s = s"
| "taken (Some n) s = take n s"

definition writekasmpasswd_states ::
  "nat option \<Rightarrow> bool \<Rightarrow> bool \<Rightarrow> string \<Rightarrow> kasmpasswd_entry list \<Rightarrow> files \<Rightarrow> files list"
where
  "writekasmpasswd_states space open_ok rename_ok path pset fs =
     (if pset = [] then [fs]
      else if \<not> open_ok then [fs]
      else
        let bytes = taken space (print_entries pset);
            growing = map (\<lambda>k. fs(tmp_name path \<mapsto> take k bytes)) [0..<Suc (length bytes)];
            written = last growing
        in fs # growing
           @ (if rename_ok
              then [written(path := written (tmp_name path), tmp_name path := None)] else []))"

definition writekasmpasswd ::
  "nat option \<Rightarrow> bool \<Rightarrow> bool \<Rightarrow> string \<Rightarrow> kasmpasswd_entry list \<Rightarrow> files \<Rightarrow> files"
where
  "writekasmpasswd space open_ok rename_ok path pset fs =
     last (writekasmpasswd_states space open_ok rename_ok path pset fs)"

section \<open>The tool\<close>

text \<open>What getopt returns for the option string \<open>u:rwnod\<close>.\<close>

datatype opt = OptUser string | OptNopass | OptRead | OptWrite | OptOwner | OptDelete | OptBad

record options =
  o_user :: "string option"
  o_nopass :: bool
  o_reader :: bool
  o_writer :: bool
  o_owner :: bool
  o_deleting :: bool

definition no_options :: options where
  "no_options = \<lparr>o_user = None, o_nopass = False, o_reader = False, o_writer = False,
     o_owner = False, o_deleting = False\<rparr>"

text \<open>The option loop; none when the program exits with an error.\<close>

fun parse_opts :: "opt list \<Rightarrow> options \<Rightarrow> options option" where
  "parse_opts [] os = Some os"
| "parse_opts (OptUser u # r) os =
     (if length u + 1 > USERNAME_LEN then None else parse_opts r (os\<lparr>o_user := Some u\<rparr>))"
| "parse_opts (OptNopass # r) os = parse_opts r (os\<lparr>o_nopass := True\<rparr>)"
| "parse_opts (OptRead # r) os = parse_opts r (os\<lparr>o_reader := True\<rparr>)"
| "parse_opts (OptWrite # r) os = parse_opts r (os\<lparr>o_writer := True\<rparr>)"
| "parse_opts (OptOwner # r) os = parse_opts r (os\<lparr>o_owner := True\<rparr>)"
| "parse_opts (OptDelete # r) os = parse_opts r (os\<lparr>o_deleting := True\<rparr>)"
| "parse_opts (OptBad # r) os = None"

text \<open>getpassword: the line that fgets returned, up to a zero and without its newline.\<close>

definition chomp :: "string \<Rightarrow> string" where
  "chomp line = (let s = cstr line in if s \<noteq> [] \<and> last s = LF then butlast s else s)"

text \<open>
  readpassword on the lines of the standard input; none when the program exits. \<open>crypt\<close>
  stands for the library's crypt with the salt \<open>$5$kasm$\<close>.
\<close>

fun readpassword :: "(string \<Rightarrow> string) \<Rightarrow> bool \<Rightarrow> string list \<Rightarrow> string option" where
  "readpassword crypt tty [] = None"
| "readpassword crypt tty [l1] = None"
| "readpassword crypt tty (l1 # l2 # rest) =
     (let pw1 = chomp l1 in
      if length pw1 < 6 then (if length pw1 = 0 then None else readpassword crypt tty (l2 # rest))
      else
        let pw2 = chomp l2 in
        if pw1 \<noteq> pw2 then (if \<not> tty then None else readpassword crypt tty rest)
        else Some (crypt pw1))"

definition find_user :: "string \<Rightarrow> kasmpasswd_entry list \<Rightarrow> nat option" where
  "find_user u pset =
     (let i = length (takeWhile (\<lambda>e. user e \<noteq> u) pset) in if i < length pset then Some i else None)"

text \<open>
  main: the exit code and the file system. \<open>home\<close> is the expansion of \<open>~/.kasmpasswd\<close>, if
  any. \<open>crypt\<close>, the terminal, the lines of the standard input and the success of the writes
  are the environment.
\<close>

record env =
  e_crypt :: "string \<Rightarrow> string"
  e_tty :: bool
  e_stdin :: "string list"
  e_home :: "string option"
  e_open_ok :: bool
  e_rename_ok :: bool
  e_space :: "nat option"

definition kasm_main :: "env \<Rightarrow> opt list \<Rightarrow> string list \<Rightarrow> files \<Rightarrow> int \<times> files" where
  "kasm_main env opts rest fs =
     (case parse_opts opts no_options of None \<Rightarrow> (1, fs)
      | Some os \<Rightarrow>
          if o_deleting os \<and> (o_nopass os \<or> o_reader os \<or> o_writer os \<or> o_owner os) then (1, fs)
          else
            (case o_user os of None \<Rightarrow> (1, fs)
             | Some u \<Rightarrow>
                 (case (if rest \<noteq> [] then Some (hd rest) else e_home env) of None \<Rightarrow> (1, fs)
                  | Some fname \<Rightarrow>
                      let pset = readkasmpasswd (fs fname);
                          write = (\<lambda>s. writekasmpasswd (e_space env) (e_open_ok env) (e_rename_ok env) fname s fs)
                      in if o_nopass os then
                           (case find_user u pset of None \<Rightarrow> (1, fs)
                            | Some i \<Rightarrow>
                                (0, write (pset[i := (pset ! i)\<lparr>p_read := o_reader os,
                                        p_write := o_writer os, p_owner := o_owner os\<rparr>])))
                         else if o_deleting os then
                           (case find_user u pset of None \<Rightarrow> (1, fs)
                            | Some i \<Rightarrow> (0, write (pset[i := (pset ! i)\<lparr>user := ''''\<rparr>])))
                         else
                           (case readpassword (e_crypt env) (e_tty env) (e_stdin env) of
                              None \<Rightarrow> (1, fs)
                            | Some encrypted \<Rightarrow>
                                let e = \<lparr>user = u, password = encrypted, p_read = o_reader os,
                                         p_write = o_writer os, p_owner = o_owner os\<rparr>
                                in (0, write (case find_user u pset of
                                                None \<Rightarrow> pset @ [e] | Some i \<Rightarrow> pset[i := e]))))))"

end
