(* ===== verification/KasmPasswdProps.thy ===== *)
theory KasmPasswdProps
  imports KasmPasswd
begin

text \<open>
  Properties of the password file: what is written is read back, the file is replaced
  atomically, and the tool changes the named user and nobody else.
\<close>

section \<open>Round trip\<close>

definition valid_field :: "string \<Rightarrow> bool" where
  "valid_field s \<longleftrightarrow> CHR '':'' \<notin> set s \<and> LF \<notin> set s \<and> NUL \<notin> set s"

definition valid_entry :: "kasmpasswd_entry \<Rightarrow> bool" where
  "valid_entry e \<longleftrightarrow>
     valid_field (user e) \<and> valid_field (password e)
     \<and> length (user e) < USERNAME_LEN \<and> length (password e) < PASSWORD_LEN"

definition entry_line :: "kasmpasswd_entry \<Rightarrow> string" where
  "entry_line e =
     user e @ '':'' @ password e @ '':''
     @ (if p_read e then ''r'' else '''') @ (if p_write e then ''w'' else '''')
     @ (if p_owner e then ''o'' else '''')"

lemma print_entry_line: "print_entry e = entry_line e @ [LF]"
  by (simp add: print_entry_def entry_line_def)

lemma entry_line_ok:
  assumes "valid_entry e"
  shows "LF \<notin> set (entry_line e) \<and> length (entry_line e) + 2 \<le> 4096"
  using assms
  by (auto simp: entry_line_def valid_entry_def valid_field_def LF_def NUL_def USERNAME_LEN_def PASSWORD_LEN_def)

lemma cstr_NUL: "NUL \<notin> set s \<Longrightarrow> cstr s = s" "NUL \<notin> set (cstr s)"
  by (auto simp: cstr_def takeWhile_eq_all_conv dest: set_takeWhileD)

lemma print_entry_NUL: "valid_entry e \<Longrightarrow> cstr (print_entry e) = print_entry e"
  by (rule cstr_NUL(1)) (auto simp: print_entry_def valid_entry_def valid_field_def NUL_def LF_def)

lemma parse_print_entry:
  assumes "valid_entry e"
  shows "parse_entry (print_entry e) = Some e"
proof -
  define perms where "perms = (if p_read e then ''r'' else '''') @ (if p_write e then ''w'' else '''')
    @ (if p_owner e then ''o'' else '''')"
  have line: "print_entry e = user e @ CHR '':'' # (password e @ CHR '':'' # (perms @ LF # []))"
    by (simp add: print_entry_def perms_def)
  have colon: "CHR '':'' \<notin> set (user e)" "CHR '':'' \<notin> set (password e)"
    and len: "length (user e) + 1 \<le> USERNAME_LEN" "length (password e) + 1 \<le> PASSWORD_LEN"
    using assms by (auto simp: valid_entry_def valid_field_def)
  have "takeWhile (\<lambda>c. c \<noteq> LF) (perms @ LF # []) = perms"
    by (rule takeWhile_not) (simp add: perms_def LF_def)
  moreover have "(strchr perms (CHR ''r'') \<noteq> None) = p_read e" "(strchr perms (CHR ''w'') \<noteq> None) = p_write e"
    "(strchr perms (CHR ''o'') \<noteq> None) = p_owner e"
    by (simp_all add: strchr_None perms_def)
  ultimately show ?thesis
    using colon len
    by (simp add: line parse_entry_def strchr_append takeWhile_not Let_def)
qed

lemma print_entries_lines:
  "print_entries es = concat (map (\<lambda>l. l @ [LF]) (map entry_line (filter (\<lambda>e. user e \<noteq> '''') es)))"
  by (induction es) (simp_all add: print_entries_def print_entry_line)

lemma map_filter_Some: "(\<And>x. x \<in> set xs \<Longrightarrow> f (g x) = Some x) \<Longrightarrow> List.map_filter f (map g xs) = xs"
  by (induction xs) (simp_all add: List.map_filter_simps)

lemma read_print_entries:
  assumes "\<forall>e\<in>set es. valid_entry e"
  shows "readkasmpasswd (Some (print_entries es)) = filter (\<lambda>e. user e \<noteq> '''') es"
proof -
  let ?es = "filter (\<lambda>e. user e \<noteq> '''') es"
  have "file_lines 4096 (print_entries es) = map (\<lambda>l. l @ [LF]) (map entry_line ?es)"
    unfolding print_entries_lines using assms entry_line_ok by (intro file_lines_concat) auto
  also have "\<dots> = map print_entry ?es" by (simp add: print_entry_line)
  finally have "readkasmpasswd (Some (print_entries es)) =
    List.map_filter (\<lambda>buf. parse_entry (cstr buf)) (map print_entry ?es)"
    by (simp add: readkasmpasswd_def)
  also have "\<dots> = ?es" using assms by (intro map_filter_Some) (simp add: print_entry_NUL parse_print_entry)
  finally show ?thesis .
qed

interpretation passwd_codec: codec print_entries "\<lambda>s. readkasmpasswd (Some s)"
  "\<lambda>es. \<forall>e\<in>set es. valid_entry e \<and> user e \<noteq> ''''"
  by unfold_locales (simp add: read_print_entries filter_id_conv)

text \<open>Every entry that was read can be written.\<close>

lemma fgets_LF: "LF \<notin> set (butlast (fst (fgets n s)))"
proof
  let ?t = "takeWhile (\<lambda>c. c \<noteq> LF) s"
  define k where "k = min (n - 1) (if length ?t < length s then Suc (length ?t) else length ?t)"
  assume "LF \<in> set (butlast (fst (fgets n s)))"
  then have "LF \<in> set (butlast (take k s))" by (simp add: fgets_def Let_def k_def)
  then obtain i where i: "i < length (butlast (take k s))" "butlast (take k s) ! i = LF"
    by (auto simp: in_set_conv_nth)
  then have "i < length ?t" by (auto simp: k_def split: if_splits)
  moreover have "s ! i = LF" using i by (simp add: nth_butlast)
  ultimately have "LF \<in> set ?t" by (metis nth_mem takeWhile_nth)
  then show False by (auto dest: set_takeWhileD)
qed

lemma file_lines_LF: "l \<in> set (file_lines n s) \<Longrightarrow> LF \<notin> set (butlast l)"
proof (induction n s rule: file_lines.induct)
  case (1 n s)
  then show ?case
    using fgets_LF [of n s] by (subst (asm) file_lines.simps) (auto split: if_splits)
qed

lemma parse_entry_valid:
  assumes "parse_entry l = Some e" "LF \<notin> set (butlast l)" "NUL \<notin> set l"
  shows "valid_entry e"
proof -
  obtain a r where l: "l = a @ CHR '':'' # r" "CHR '':'' \<notin> set a"
    using assms(1) strchr_None [of l "CHR '':''"] split_list_first [of "CHR '':''" l]
    by (fastforce simp: parse_entry_def split: option.splits)
  obtain b q where r: "r = b @ CHR '':'' # q" "CHR '':'' \<notin> set b"
    using assms(1) strchr_None [of r "CHR '':''"] split_list_first [of "CHR '':''" r] l
    by (fastforce simp: parse_entry_def strchr_append takeWhile_not Let_def split: option.splits)
  have "user e = a" "password e = b" "length a < USERNAME_LEN" "length b < PASSWORD_LEN"
    using assms(1) l r
    by (auto simp: parse_entry_def strchr_append takeWhile_not Let_def split: if_splits)
  moreover have "LF \<notin> set a" "LF \<notin> set b" using assms(2) l r by (auto simp: butlast_append)
  ultimately show ?thesis using assms(3) l r by (simp add: valid_entry_def valid_field_def)
qed

lemma cstr_LF: "LF \<notin> set (butlast l) \<Longrightarrow> LF \<notin> set (butlast (cstr l))"
  by (induction l) (auto simp: cstr_def split: if_splits)

lemma readkasmpasswd_valid: "e \<in> set (readkasmpasswd f) \<Longrightarrow> valid_entry e"
  using parse_entry_valid [OF _ cstr_LF [OF file_lines_LF] cstr_NUL(2)]
  by (auto simp: readkasmpasswd_def List.map_filter_def split: option.splits)

section \<open>Atomic replacement\<close>

lemma tmp_name_other: "length path \<le> PATH_MAX - 5 \<Longrightarrow> tmp_name path \<noteq> path"
  by (simp add: tmp_name_def PATH_MAX_def)

lemma writekasmpasswd_path:
  assumes "s \<in> set (writekasmpasswd_states space open_ok rename_ok path pset fs)" "length path \<le> PATH_MAX - 5"
  shows "s path = fs path \<or> s path = Some (taken space (print_entries pset))"
    and "q \<noteq> path \<Longrightarrow> q \<noteq> tmp_name path \<Longrightarrow> s q = fs q"
  using assms(1) tmp_name_other [OF assms(2)]
  by (auto simp: writekasmpasswd_states_def Let_def split: if_splits)

lemma writekasmpasswd_result:
  assumes "pset \<noteq> []" "length path \<le> PATH_MAX - 5"
  shows "writekasmpasswd space True True path pset fs path = Some (taken space (print_entries pset))"
  using assms tmp_name_other [OF assms(2)]
  by (auto simp: writekasmpasswd_def writekasmpasswd_states_def Let_def)

lemma taken_all: "space = None \<or> length s \<le> the space \<Longrightarrow> taken space s = s"
  by (cases space) auto

section \<open>Looking up users\<close>

definition lookup :: "string \<Rightarrow> kasmpasswd_entry list \<Rightarrow> kasmpasswd_entry option" where
  "lookup u es = List.find (\<lambda>e. user e = u) es"

lemma lookup_nonempty: "u \<noteq> '''' \<Longrightarrow> lookup u (filter (\<lambda>e. user e \<noteq> '''') es) = lookup u es"
  by (induction es) (auto simp: lookup_def)

lemma find_user_Some:
  assumes "find_user u es = Some i"
  shows "\<exists>as b bs. es = as @ b # bs \<and> length as = i \<and> user b = u \<and> (\<forall>a\<in>set as. user a \<noteq> u)"
proof -
  let ?as = "takeWhile (\<lambda>e. user e \<noteq> u) es" and ?bs = "dropWhile (\<lambda>e. user e \<noteq> u) es"
  have i: "i = length ?as" "i < length es" using assms by (auto simp: find_user_def Let_def split: if_splits)
  have es: "es = ?as @ ?bs" by simp
  then have "?bs \<noteq> []" using i by (metis append_Nil2 less_irrefl)
  then have "user (hd ?bs) = u" using hd_dropWhile by blast
  moreover have "es = ?as @ hd ?bs # tl ?bs" using \<open>?bs \<noteq> []\<close> by simp
  moreover have "\<forall>a\<in>set ?as. user a \<noteq> u" by (auto dest: set_takeWhileD)
  ultimately show ?thesis using i(1) by blast
qed

lemma find_user_None: "find_user u es = None \<Longrightarrow> \<forall>e\<in>set es. user e \<noteq> u"
proof -
  assume "find_user u es = None"
  then have "length (takeWhile (\<lambda>e. user e \<noteq> u) es) = length es"
    using length_takeWhile_le [of "\<lambda>e. user e \<noteq> u" es] by (auto simp: find_user_def Let_def split: if_splits)
  then show ?thesis by (metis set_takeWhileD takeWhile_eq_take take_all_iff le_refl)
qed

lemma lookup_append: "lookup v (as @ bs) = (case lookup v as of None \<Rightarrow> lookup v bs | Some e \<Rightarrow> Some e)"
  by (induction as) (auto simp: lookup_def)

lemma lookup_None: "\<forall>a\<in>set as. user a \<noteq> u \<Longrightarrow> lookup u as = None"
  by (induction as) (auto simp: lookup_def)

lemma lookup_Cons: "lookup v (e # es) = (if user e = v then Some e else lookup v es)"
  by (simp add: lookup_def)

lemma lookup_Nil [simp]: "lookup v [] = None"
  by (simp add: lookup_def)

lemma lookup_update:
  assumes "find_user u es = Some i"
  shows "user e = u \<Longrightarrow> lookup u (es[i := e]) = Some e"
    and "v \<noteq> u \<Longrightarrow> user e \<noteq> v \<Longrightarrow> lookup v (es[i := e]) = lookup v es"
proof -
  obtain as b bs where es: "es = as @ b # bs" "length as = i" "user b = u" "\<forall>a\<in>set as. user a \<noteq> u"
    using find_user_Some [OF assms] by blast
  have upd: "es[i := e] = as @ e # bs" using es by (simp add: list_update_append flip: es(2))
  show "lookup u (es[i := e]) = Some e" if "user e = u"
    using that es(4) by (simp add: upd lookup_append lookup_None lookup_Cons)
  show "lookup v (es[i := e]) = lookup v es" if "v \<noteq> u" "user e \<noteq> v"
    using that es(3) unfolding upd
    by (subst es(1)) (simp add: lookup_append lookup_Cons split: option.split)
qed

section \<open>The tool\<close>

text \<open>The users after a run that wrote \<open>pset\<close>.\<close>

lemma lookup_written:
  assumes "\<forall>e\<in>set pset. valid_entry e" "pset \<noteq> []" "length path \<le> PATH_MAX - 5" "u \<noteq> ''''"
  shows "lookup u (readkasmpasswd (writekasmpasswd None True True path pset fs path)) = lookup u pset"
  using assms by (simp add: writekasmpasswd_result read_print_entries lookup_nonempty)

text \<open>
  What the tool accepts, stated on what was typed. A line is the typed text with or without
  the newline that ends it. Lines of one to five characters are skipped; then two lines of
  at least six characters decide: they agree, or on a terminal the dialogue starts again.
\<close>

definition typed_line :: "string \<Rightarrow> string \<Rightarrow> bool" where
  "typed_line line pw \<longleftrightarrow> (line = pw \<or> line = pw @ [LF]) \<and> LF \<notin> set pw \<and> NUL \<notin> set pw"

inductive accepted :: "bool \<Rightarrow> string list \<Rightarrow> string \<Rightarrow> bool" for tty where
  agree: "\<lbrakk>typed_line l1 pw; typed_line l2 pw; 6 \<le> length pw\<rbrakk> \<Longrightarrow> accepted tty (l1 # l2 # ls) pw"
| short: "\<lbrakk>typed_line l1 w; 0 < length w; length w < 6; accepted tty ls pw\<rbrakk> \<Longrightarrow> accepted tty (l1 # ls) pw"
| differ: "\<lbrakk>typed_line l1 w1; typed_line l2 w2; 6 \<le> length w1; w1 \<noteq> w2; tty; accepted tty ls pw\<rbrakk>
    \<Longrightarrow> accepted tty (l1 # l2 # ls) pw"

text \<open>The lines that fgets returns for a text without zeros.\<close>

definition text_lines :: "string list \<Rightarrow> bool" where
  "text_lines ls \<longleftrightarrow> (\<forall>l\<in>set ls. NUL \<notin> set l \<and> LF \<notin> set (butlast l))"

lemma typed_chomp:
  assumes "NUL \<notin> set l" "LF \<notin> set (butlast l)"
  shows "typed_line l (chomp l)"
proof (cases "l \<noteq> [] \<and> last l = LF")
  case True
  then have "l = butlast l @ [LF]" by (metis append_butlast_last_id)
  then show ?thesis
    using True assms by (auto simp: typed_line_def chomp_def cstr_NUL(1) Let_def dest: in_set_butlastD)
next
  case False
  have "l = [] \<or> l = butlast l @ [last l]" using append_butlast_last_id by metis
  then have "LF \<notin> set l" using False assms(2) by (metis Un_iff append_is_Nil_conv empty_iff empty_set insert_iff list.set(2) set_append)
  then show ?thesis using False assms(1) by (auto simp: typed_line_def chomp_def cstr_NUL(1) Let_def)
qed

lemma readpassword_accepted:
  "\<lbrakk>readpassword crypt tty ls = Some c; text_lines ls\<rbrakk> \<Longrightarrow> \<exists>pw. accepted tty ls pw \<and> c = crypt pw"
proof (induction crypt tty ls rule: readpassword.induct)
  case (3 crypt tty l1 l2 rest)
  have t: "typed_line l1 (chomp l1)" "typed_line l2 (chomp l2)" "text_lines (l2 # rest)" "text_lines rest"
    using "3.prems"(2) typed_chomp by (auto simp: text_lines_def)
  consider (short) "length (chomp l1) < 6" "readpassword crypt tty (l2 # rest) = Some c" "chomp l1 \<noteq> []"
    | (differ) "6 \<le> length (chomp l1)" "chomp l1 \<noteq> chomp l2" "readpassword crypt tty rest = Some c" "tty"
    | (agree) "6 \<le> length (chomp l1)" "chomp l1 = chomp l2" "c = crypt (chomp l1)"
    using "3.prems"(1) by (force simp: Let_def split: if_splits)
  then show ?case
  proof cases
    case short
    then obtain pw where "accepted tty (l2 # rest) pw" "c = crypt pw" using "3.IH"(1) t(3) by auto
    then show ?thesis using accepted.short [OF t(1)] short by auto
  next
    case differ
    then obtain pw where "accepted tty rest pw" "c = crypt pw" using "3.IH"(2) t(4) by auto
    then show ?thesis using accepted.differ [OF t(1,2)] differ by auto
  next
    case agree
    then show ?thesis using accepted.agree [OF t(1)] t(2) by auto
  qed
qed simp_all

definition target_file :: "env \<Rightarrow> string list \<Rightarrow> string option" where
  "target_file env rest = (if rest \<noteq> [] then Some (hd rest) else e_home env)"

lemma valid_update:
  "\<lbrakk>\<forall>e\<in>set es. valid_entry e; valid_entry e\<rbrakk> \<Longrightarrow> \<forall>x\<in>set (es[i := e]). valid_entry x"
  by (metis in_set_conv_nth length_list_update nth_list_update_eq nth_list_update_neq)

lemma kasm_main_add:
  assumes "kasm_main env opts rest fs = (0, fs')" "parse_opts opts no_options = Some os"
    and "\<not> o_nopass os" "\<not> o_deleting os" "o_user os = Some u" "u \<noteq> ''''" "valid_field u"
    and "length u < USERNAME_LEN" "target_file env rest = Some fname" "length fname \<le> PATH_MAX - 5"
    and "e_open_ok env" "e_rename_ok env"
    and "\<forall>pw. valid_field (e_crypt env pw) \<and> length (e_crypt env pw) < PASSWORD_LEN"
    and "e_space env = None" "text_lines (e_stdin env)"
  obtains pw where "accepted (e_tty env) (e_stdin env) pw"
    "lookup u (readkasmpasswd (fs' fname)) = Some \<lparr>user = u, password = e_crypt env pw,
       p_read = o_reader os, p_write = o_writer os, p_owner = o_owner os\<rparr>"
    "\<And>v. v \<noteq> u \<Longrightarrow> v \<noteq> '''' \<Longrightarrow> lookup v (readkasmpasswd (fs' fname)) = lookup v (readkasmpasswd (fs fname))"
proof -
  let ?old = "readkasmpasswd (fs fname)"
  obtain c where c: "readpassword (e_crypt env) (e_tty env) (e_stdin env) = Some c"
    using assms by (auto simp: kasm_main_def target_file_def Let_def split: option.splits if_splits)
  obtain pw where pw: "accepted (e_tty env) (e_stdin env) pw" "c = e_crypt env pw"
    using readpassword_accepted [OF c assms(15)] by blast
  define e where "e = \<lparr>user = u, password = c, p_read = o_reader os, p_write = o_writer os,
    p_owner = o_owner os\<rparr>"
  define new where "new = (case find_user u ?old of None \<Rightarrow> ?old @ [e] | Some i \<Rightarrow> ?old[i := e])"
  have fs': "fs' = writekasmpasswd None True True fname new fs"
    using assms c
    by (auto simp: kasm_main_def target_file_def new_def e_def Let_def split: option.splits if_splits)
  have e: "valid_entry e" "user e = u" using assms(7,8,13) pw(2) by (simp_all add: e_def valid_entry_def)
  have old: "\<forall>x\<in>set ?old. valid_entry x" using readkasmpasswd_valid by blast
  have "find_user u ?old = Some i \<Longrightarrow> ?old \<noteq> []" for i by (auto simp: find_user_def)
  then have "\<forall>x\<in>set new. valid_entry x" "new \<noteq> []"
    using old e(1) valid_update [OF old e(1)] by (auto simp: new_def split: option.splits)
  then have new: "v \<noteq> '''' \<Longrightarrow> lookup v (readkasmpasswd (fs' fname)) = lookup v new" for v
    using lookup_written assms(10) by (simp add: fs')
  have "lookup u new = Some e"
    using lookup_update(1) e(2) find_user_None [of u ?old] lookup_None [of ?old u]
    by (auto simp: new_def lookup_append lookup_Cons split: option.split)
  moreover have "lookup v new = lookup v ?old" if "v \<noteq> u" for v
    using lookup_update(2) e(2) that
    by (auto simp: new_def lookup_append lookup_Cons split: option.split)
  ultimately show thesis using that [of pw] pw new assms(6) by (simp add: e_def)
qed

lemma kasm_main_delete:
  assumes "kasm_main env opts rest fs = (0, fs')" "parse_opts opts no_options = Some os"
    and "o_deleting os" "o_user os = Some u" "u \<noteq> ''''"
    and "target_file env rest = Some fname" "length fname \<le> PATH_MAX - 5"
    and "e_open_ok env" "e_rename_ok env" "e_space env = None"
  shows "lookup u (readkasmpasswd (fs fname)) \<noteq> None"
    and "\<And>v. v \<noteq> u \<Longrightarrow> v \<noteq> '''' \<Longrightarrow> lookup v (readkasmpasswd (fs' fname)) = lookup v (readkasmpasswd (fs fname))"
    and "distinct (map user (readkasmpasswd (fs fname))) \<Longrightarrow> lookup u (readkasmpasswd (fs' fname)) = None"
proof -
  let ?old = "readkasmpasswd (fs fname)"
  have no: "\<not> o_nopass os"
    using assms by (auto simp: kasm_main_def split: if_splits)
  obtain i where i: "find_user u ?old = Some i"
    using assms no by (auto simp: kasm_main_def target_file_def Let_def split: option.splits if_splits)
  define e where "e = (?old ! i)\<lparr>user := ''''\<rparr>"
  have fs': "fs' = writekasmpasswd None True True fname (?old[i := e]) fs"
    using assms i no by (auto simp: kasm_main_def target_file_def Let_def e_def split: if_splits)
  obtain as b bs where o: "?old = as @ b # bs" "length as = i" "user b = u" "\<forall>a\<in>set as. user a \<noteq> u"
    using find_user_Some [OF i] by blast
  have old: "\<forall>x\<in>set ?old. valid_entry x" using readkasmpasswd_valid by blast
  have "?old ! i \<in> set ?old" using o(1,2) by (metis in_set_conv_decomp nth_append_length)
  then have "valid_entry e" using old by (auto simp: e_def valid_entry_def valid_field_def USERNAME_LEN_def)
  then have new: "v \<noteq> '''' \<Longrightarrow> lookup v (readkasmpasswd (fs' fname)) = lookup v (?old[i := e])" for v
    using lookup_written [of "?old[i := e]"] valid_update [OF old] assms(7) o(1) by (auto simp: fs')
  show "lookup u ?old \<noteq> None" using o by (simp add: lookup_append lookup_Cons split: option.split)
  show "lookup v (readkasmpasswd (fs' fname)) = lookup v ?old" if "v \<noteq> u" "v \<noteq> ''''" for v
    using new [OF that(2)] lookup_update(2) [OF i that(1), of e] that(2) by (simp add: e_def)
  show "lookup u (readkasmpasswd (fs' fname)) = None" if "distinct (map user ?old)"
  proof -
    have "\<forall>x\<in>set as \<union> set bs. user x \<noteq> u" using that o by (auto simp: rev_image_eqI)
    moreover have "?old[i := e] = as @ e # bs" using o(1,2) by (metis list_update_length)
    ultimately show ?thesis
      using new [OF assms(5)] assms(5) by (simp add: lookup_append lookup_None lookup_Cons e_def)
  qed
qed

section \<open>Properties\<close>

text \<open>Inputs for the witnesses.\<close>

definition alice :: kasmpasswd_entry where
  "alice = \<lparr>user = ''alice'', password = ''$5$kasm$x'', p_read = True, p_write = False, p_owner = True\<rparr>"

lemma alice_valid [simp]: "valid_entry alice" "user alice = ''alice''"
  by (simp_all add: alice_def valid_entry_def valid_field_def LF_def NUL_def USERNAME_LEN_def PASSWORD_LEN_def)

definition demo_crypt :: "string \<Rightarrow> string" where
  "demo_crypt pw = ''$5$kasm$'' @ take 100 (filter (\<lambda>c. c \<notin> {CHR '':'', LF, NUL}) (rev pw))"

lemma demo_crypt_valid: "valid_field (demo_crypt pw) \<and> length (demo_crypt pw) < PASSWORD_LEN"
proof -
  have "set (take 100 (filter (\<lambda>c. c \<notin> {CHR '':'', LF, NUL}) (rev pw))) \<subseteq> - {CHR '':'', LF, NUL}"
    using set_take_subset [of 100 "filter (\<lambda>c. c \<notin> {CHR '':'', LF, NUL}) (rev pw)"] by auto
  then show ?thesis by (auto simp: demo_crypt_def valid_field_def PASSWORD_LEN_def LF_def NUL_def)
qed

text \<open>The user first types a short line, then the password twice.\<close>

definition typed :: env where
  "typed = \<lparr>e_crypt = demo_crypt, e_tty = False, e_stdin = [''abc'' @ [LF], ''secret'' @ [LF], ''secret'' @ [LF]],
     e_home = Some ''pw'', e_open_ok = True, e_rename_ok = True, e_space = None\<rparr>"

definition disk :: files where
  "disk = [''pw'' \<mapsto> print_entries [alice]]"

lemma disk_users: "readkasmpasswd (disk ''pw'') = [alice]"
  using read_print_entries [of "[alice]"] by (simp add: disk_def)

text \<open>
  C20. Reading a password file that was written gives back the entries with a name, in
  order and with their permissions, if no field has a colon or a newline and all fit
  their buffers.
\<close>

theorem password_file_round_trip:
  assumes "\<forall>e\<in>set es. valid_entry e"
  shows "readkasmpasswd (Some (print_entries es)) = filter (\<lambda>e. user e \<noteq> '''') es"
  using assms by (rule read_print_entries)

theorem password_file_round_trip_witness:
  "readkasmpasswd (Some (print_entries [alice, alice\<lparr>user := ''''\<rparr>])) = [alice]"
  using password_file_round_trip [of "[alice, alice\<lparr>user := ''''\<rparr>]"]
  by (simp add: valid_entry_def valid_field_def alice_def LF_def NUL_def USERNAME_LEN_def PASSWORD_LEN_def)

text \<open>
  C19. At every moment of writekasmpasswd, and whatever fails, the path holds its old content
  or what the file system took of the new one, and no file but the path and the temporary
  one is touched. The replacement is atomic, with the old or the complete new content, as
  long as the disk takes the new content; on a full disk the cut file replaces the good
  one, because nobody looks at the results of the writes.
\<close>

theorem writekasmpasswd_atomic:
  assumes "length path \<le> PATH_MAX - 5" "s \<in> set (writekasmpasswd_states space open_ok rename_ok path pset fs)"
  shows "(s path = fs path \<or> s path = Some (taken space (print_entries pset)))
    \<and> (space = None \<or> length (print_entries pset) \<le> the space \<longrightarrow>
         s path = fs path \<or> s path = Some (print_entries pset))
    \<and> (\<forall>q. q \<noteq> path \<longrightarrow> q \<noteq> tmp_name path \<longrightarrow> s q = fs q)
    \<and> (open_ok \<and> rename_ok \<and> pset \<noteq> [] \<longrightarrow>
         writekasmpasswd space open_ok rename_ok path pset fs path = Some (taken space (print_entries pset)))"
  using writekasmpasswd_path [OF assms(2,1)] taken_all [of space "print_entries pset"]
    writekasmpasswd_result [OF _ assms(1)] by auto

text \<open>With room for 10 bytes the file of two users is replaced by a file of none.\<close>

theorem writekasmpasswd_atomic_witness:
  "writekasmpasswd None True True ''pw'' [alice, alice] disk ''pw'' = Some (print_entries [alice, alice])
   \<and> readkasmpasswd (writekasmpasswd (Some 10) True True ''pw'' [alice, alice] disk ''pw'') = []"
proof -
  have m: "writekasmpasswd sp True True ''pw'' [alice, alice] disk
      \<in> set (writekasmpasswd_states sp True True ''pw'' [alice, alice] disk)" for sp
    unfolding writekasmpasswd_def by (rule last_in_set) (simp add: writekasmpasswd_states_def Let_def)
  have "length ''pw'' \<le> PATH_MAX - 5" by (simp add: PATH_MAX_def)
  note w = writekasmpasswd_atomic [OF this m]
  have "writekasmpasswd (Some 10) True True ''pw'' [alice, alice] disk ''pw'' = Some ''alice:$5$k''"
    using w [of "Some 10"] by (simp add: print_entries_def print_entry_def alice_def)
  moreover have "readkasmpasswd (Some ''alice:$5$k'') = []"
    by (simp add: readkasmpasswd_def file_lines.simps fgets_def LF_def Let_def List.map_filter_simps cstr_def NUL_def
        parse_entry_def strchr_def)
  ultimately show ?thesis using w [of None] by simp
qed

text \<open>
  C26. A successful run that sets a password leaves in the file, for the named user, the
  encryption of the password that was typed, which has at least six characters and was
  typed twice in a row after what the dialogue skipped, with the permissions of the
  command line, and leaves every other user as it was.
\<close>

theorem kasm_main_sets_user:
  assumes "kasm_main env opts rest fs = (0, fs')" "parse_opts opts no_options = Some os"
    and "\<not> o_nopass os" "\<not> o_deleting os" "o_user os = Some u" "u \<noteq> ''''" "valid_field u"
    and "length u < USERNAME_LEN" "target_file env rest = Some fname" "length fname \<le> PATH_MAX - 5"
    and "e_open_ok env" "e_rename_ok env"
    and "\<forall>pw. valid_field (e_crypt env pw) \<and> length (e_crypt env pw) < PASSWORD_LEN"
    and "e_space env = None" "text_lines (e_stdin env)"
  shows "(\<exists>pw. accepted (e_tty env) (e_stdin env) pw
       \<and> lookup u (readkasmpasswd (fs' fname)) = Some \<lparr>user = u, password = e_crypt env pw,
           p_read = o_reader os, p_write = o_writer os, p_owner = o_owner os\<rparr>)
    \<and> (\<forall>v. v \<noteq> u \<longrightarrow> v \<noteq> '''' \<longrightarrow>
         lookup v (readkasmpasswd (fs' fname)) = lookup v (readkasmpasswd (fs fname)))"
  by (rule kasm_main_add [OF assms]) auto

lemma typed_env: "e_crypt typed = demo_crypt" "e_home typed = Some ''pw''" "e_open_ok typed" "e_rename_ok typed"
  "e_space typed = None"
  by (simp_all add: typed_def)

text \<open>What is typed here can only be accepted as \<open>secret\<close>.\<close>

inductive_simps accepted_Cons: "accepted tty (l1 # ls) pw"
inductive_simps accepted_Nil: "accepted tty [] pw"

lemma typed_line_LF: "typed_line (w @ [LF]) v \<longleftrightarrow> v = w \<and> LF \<notin> set w \<and> NUL \<notin> set w"
  by (auto simp: typed_line_def)

lemma typed_accepted: "accepted (e_tty typed) (e_stdin typed) pw \<Longrightarrow> pw = ''secret''"
  by (auto simp: typed_def accepted_Cons accepted_Nil typed_line_LF simp del: append.simps)

lemma typed_lines: "text_lines (e_stdin typed)"
  by (simp add: typed_def text_lines_def LF_def NUL_def)

theorem kasm_main_sets_user_witness:
  "fst (kasm_main typed [OptUser ''bob'', OptWrite] [] disk) = 0
   \<and> lookup ''bob'' (readkasmpasswd (snd (kasm_main typed [OptUser ''bob'', OptWrite] [] disk) ''pw'')) =
       Some \<lparr>user = ''bob'', password = ''$5$kasm$terces'', p_read = False, p_write = True, p_owner = False\<rparr>
   \<and> lookup ''alice'' (readkasmpasswd (snd (kasm_main typed [OptUser ''bob'', OptWrite] [] disk) ''pw'')) = Some alice"
proof -
  obtain fs' where run: "kasm_main typed [OptUser ''bob'', OptWrite] [] disk = (0, fs')"
    by (simp add: kasm_main_def typed_def no_options_def USERNAME_LEN_def disk_users chomp_def cstr_def NUL_def LF_def Let_def)
  have "\<exists>pw. accepted (e_tty typed) (e_stdin typed) pw
       \<and> lookup ''bob'' (readkasmpasswd (fs' ''pw'')) = Some \<lparr>user = ''bob'', password = demo_crypt pw,
           p_read = False, p_write = True, p_owner = False\<rparr>"
    and "lookup ''alice'' (readkasmpasswd (fs' ''pw'')) = lookup ''alice'' (readkasmpasswd (disk ''pw''))"
    using kasm_main_sets_user [OF run, of "no_options\<lparr>o_user := Some ''bob'', o_writer := True\<rparr>" "''bob''" "''pw''"]
      demo_crypt_valid typed_lines
    by (simp_all add: no_options_def USERNAME_LEN_def valid_field_def LF_def NUL_def target_file_def
        typed_env PATH_MAX_def)
  then obtain pw where "accepted (e_tty typed) (e_stdin typed) pw"
    "lookup ''bob'' (readkasmpasswd (fs' ''pw'')) = Some \<lparr>user = ''bob'', password = demo_crypt pw,
           p_read = False, p_write = True, p_owner = False\<rparr>"
    "lookup ''alice'' (readkasmpasswd (fs' ''pw'')) = Some alice"
    by (auto simp: disk_users lookup_Cons)
  moreover have "demo_crypt ''secret'' = ''$5$kasm$terces''" by (simp add: demo_crypt_def LF_def NUL_def)
  ultimately show ?thesis using run typed_accepted by auto
qed

text \<open>
  C27. A successful deletion needs an existing user, leaves every other user as it was, and
  the user is gone if names were unique.
\<close>

theorem kasm_main_deletes_user:
  assumes "kasm_main env opts rest fs = (0, fs')" "parse_opts opts no_options = Some os"
    and "o_deleting os" "o_user os = Some u" "u \<noteq> ''''"
    and "target_file env rest = Some fname" "length fname \<le> PATH_MAX - 5"
    and "e_open_ok env" "e_rename_ok env" "e_space env = None"
  shows "lookup u (readkasmpasswd (fs fname)) \<noteq> None
    \<and> (\<forall>v. v \<noteq> u \<longrightarrow> v \<noteq> '''' \<longrightarrow>
         lookup v (readkasmpasswd (fs' fname)) = lookup v (readkasmpasswd (fs fname)))
    \<and> (distinct (map user (readkasmpasswd (fs fname))) \<longrightarrow> lookup u (readkasmpasswd (fs' fname)) = None)"
  using kasm_main_delete [OF assms] by blast

theorem kasm_main_deletes_user_witness:
  "lookup ''alice'' (readkasmpasswd (snd (kasm_main typed [OptUser ''alice'', OptDelete] [] disk) ''pw'')) = None"
proof -
  obtain fs' where run: "kasm_main typed [OptUser ''alice'', OptDelete] [] disk = (0, fs')"
    by (simp add: kasm_main_def typed_def no_options_def USERNAME_LEN_def disk_users find_user_def Let_def)
  show ?thesis
    using kasm_main_deletes_user [OF run, of "no_options\<lparr>o_user := Some ''alice'', o_deleting := True\<rparr>" "''alice''" "''pw''"]
      run by (simp add: no_options_def USERNAME_LEN_def target_file_def typed_def PATH_MAX_def disk_users)
qed

end
