(* ===== verification/CDouble.thy ===== *)
theory CDouble
  imports CString Complex_Main "HOL-Library.Log_Nat"
begin

text \<open>
  Doubles as the C library reads them: the finite values are rational numbers, and strtod
  rounds the decimal number of its text to the nearest of them, to even on a tie. The two
  zeros are not told apart.
\<close>

datatype double = NaN | Infinity bool | Finite rat

definition round_even :: "rat \<Rightarrow> int" where
  "round_even q =
     (let f = \<lfloor>q\<rfloor>; r = q - of_int f in
      if r < 1 / 2 then f else if r > 1 / 2 then f + 1 else if even f then f else f + 1)"

text \<open>The exponent of the power of two at or below a positive number.\<close>

definition floor_log2 :: "rat \<Rightarrow> int" where
  "floor_log2 a =
     (if a \<ge> 1 then int (floorlog 2 (nat \<lfloor>a\<rfloor>)) - 1 else - int (floorlog 2 (nat \<lceil>1 / a\<rceil> - 1)))"

definition round_double :: "rat \<Rightarrow> double" where
  "round_double q =
     (if q = 0 then Finite 0
      else
        let a = \<bar>q\<bar>;
            k = max (floor_log2 a - 52) (- 1074);
            r = of_int (round_even (a / 2 powi k)) * 2 powi k
        in if r \<ge> 2 ^ 1024 then Infinity (q < 0) else Finite (if q < 0 then - r else r))"

definition strtod_exponent :: "string \<Rightarrow> int \<times> nat" where
  "strtod_exponent s =
     (if s \<noteq> [] \<and> (hd s = CHR ''e'' \<or> hd s = CHR ''E'') then
        let t = tl s;
            signed = (t \<noteq> [] \<and> (hd t = CHR ''-'' \<or> hd t = CHR ''+''));
            ds = takeWhile isdigit (if signed then tl t else t)
        in if ds = [] then (0, 0)
           else ((if signed \<and> hd t = CHR ''-'' then - int (digits 10 0 ds) else int (digits 10 0 ds)),
                 1 + (if signed then 1 else 0) + length ds)
      else (0, 0))"

text \<open>
  strtod on a text of digits, signs, points and exponent letters: the number and the count
  of the characters that belong to it, 0 when there is none.
\<close>

definition strtod :: "string \<Rightarrow> double \<times> nat" where
  "strtod s =
     (let signed = (s \<noteq> [] \<and> (hd s = CHR ''-'' \<or> hd s = CHR ''+''));
          s1 = (if signed then tl s else s);
          ip = takeWhile isdigit s1;
          s2 = drop (length ip) s1;
          point = (s2 \<noteq> [] \<and> hd s2 = CHR ''.'');
          fp = (if point then takeWhile isdigit (tl s2) else []);
          s3 = (if point then drop (Suc (length fp)) s2 else s2)
      in if ip = [] \<and> fp = [] then (Finite 0, 0)
         else
           let (e, n) = strtod_exponent s3;
               m = of_nat (digits 10 0 (ip @ fp)) * 10 powi (e - int (length fp))
           in (round_double (if signed \<and> hd s = CHR ''-'' then - m else m),
               (if signed then 1 else 0) + length ip + (if point then Suc (length fp) else 0) + n))"

section \<open>Integers are exact\<close>

lemma round_even_of_int [simp]: "round_even (of_int n) = n"
  by (simp add: round_even_def)

lemma floor_log2_nat:
  assumes "0 < n"
  shows "floor_log2 (of_nat n) = int (floorlog 2 n) - 1"
  using assms by (simp add: floor_log2_def)

lemma round_double_of_nat:
  assumes "n < 2 ^ 53"
  shows "round_double (of_nat n) = Finite (of_nat n)"
proof (cases "n = 0")
  case False
  define e where "e = floorlog 2 n"
  have "e \<le> 53" unfolding e_def using assms by (intro floorlog_leI) simp_all
  have k: "max (floor_log2 (of_nat n) - 52) (- 1074) = int e - 53"
    using False by (simp add: floor_log2_nat e_def)
  have pw: "(2 :: rat) powi (int e - 53) = 1 / 2 ^ (53 - e)"
    using \<open>e \<le> 53\<close> by (simp add: power_int_def field_simps nat_diff_distrib')
  have "(of_nat n :: rat) / (1 / 2 ^ (53 - e)) = of_int (int n * 2 ^ (53 - e))" by simp
  then have "round_even ((of_nat n :: rat) / (1 / 2 ^ (53 - e))) = int n * 2 ^ (53 - e)"
    by (simp only: round_even_of_int)
  then have r: "of_int (round_even ((of_nat n :: rat) / 2 powi (int e - 53))) * 2 powi (int e - 53) = (of_nat n :: rat)"
    unfolding pw by simp
  have "(of_nat n :: rat) < of_nat (2 ^ 53)" using assms by (simp only: of_nat_less_iff)
  also have "\<dots> < 2 ^ 1024" by simp
  finally show ?thesis using False r by (simp add: round_double_def k Let_def)
qed (simp add: round_double_def)

end
