(* ===== verification/CJson.thy ===== *)
theory CJson
  imports CDouble
begin

unbundle bit_operations_syntax

text \<open>
  The JSON parser \<^verbatim>\<open>src/common/network/cJSON.c\<close> as cJSON\_Parse uses it. Allocation is
  taken to succeed; the position of a parse error, which nothing reads, is left out.
\<close>

section \<open>Items\<close>

text \<open>
  A node; None for the null pointers of string and valuestring. The linked list behind
  child is a list.
\<close>

datatype cJSON = cJSON (ctype: nat) (cstring: "string option") (valuestring: "string option")
  (valueint: int) (valuedouble: double) (child: "cJSON list")

definition cJSON_False :: nat where "cJSON_False = 1"
definition cJSON_True :: nat where "cJSON_True = 2"
definition cJSON_NULL :: nat where "cJSON_NULL = 4"
definition cJSON_Number :: nat where "cJSON_Number = 8"
definition cJSON_String :: nat where "cJSON_String = 16"
definition cJSON_Array :: nat where "cJSON_Array = 32"
definition cJSON_Object :: nat where "cJSON_Object = 64"

definition CJSON_NESTING_LIMIT :: nat where "CJSON_NESTING_LIMIT = 1000"

definition INT_MAX :: int where "INT_MAX = 2147483647"
definition INT_MIN :: int where "INT_MIN = - 2147483648"

text \<open>An item of a type, as cJSON\_New\_Item and the parsers leave it.\<close>

definition item :: "nat \<Rightarrow> cJSON" where
  "item t = cJSON t None None 0 (Finite 0) []"

fun set_string :: "string \<Rightarrow> cJSON \<Rightarrow> cJSON" where
  "set_string s (cJSON t _ v i d c) = cJSON t (Some s) v i d c"

section \<open>The buffer\<close>

record parse_buffer =
  jcontent :: string
  joffset :: nat
  jdepth :: nat

definition can_read :: "parse_buffer \<Rightarrow> nat \<Rightarrow> bool" where
  "can_read b n \<longleftrightarrow> joffset b + n \<le> length (jcontent b)"

definition can_access :: "parse_buffer \<Rightarrow> nat \<Rightarrow> bool" where
  "can_access b i \<longleftrightarrow> joffset b + i < length (jcontent b)"

text \<open>
  The character at the offset. A read behind the buffer, which does not happen when the
  buffer ends with a zero, gives a zero.
\<close>

definition peek_char :: "parse_buffer \<Rightarrow> char" where
  "peek_char b = (if can_access b 0 then jcontent b ! joffset b else NUL)"

definition next_is :: "parse_buffer \<Rightarrow> char \<Rightarrow> bool" where
  "next_is b c \<longleftrightarrow> can_access b 0 \<and> peek_char b = c"

definition advance_by :: "nat \<Rightarrow> parse_buffer \<Rightarrow> parse_buffer" where
  "advance_by n b = b\<lparr>joffset := joffset b + n\<rparr>"

definition is_white :: "char \<Rightarrow> bool" where
  "is_white c \<longleftrightarrow> (of_char c :: nat) \<le> 32"

definition buffer_skip_whitespace :: "parse_buffer \<Rightarrow> parse_buffer" where
  "buffer_skip_whitespace b =
     (if \<not> can_access b 0 then b
      else
        let o1 = joffset b + length (takeWhile is_white (drop (joffset b) (jcontent b)))
        in b\<lparr>joffset := (if o1 = length (jcontent b) then o1 - 1 else o1)\<rparr>)"

definition skip_utf8_bom :: "parse_buffer \<Rightarrow> parse_buffer" where
  "skip_utf8_bom b =
     (if can_access b 4 \<and> take 3 (drop (joffset b) (jcontent b)) = [CHR 0xEF, CHR 0xBB, CHR 0xBF]
      then advance_by 3 b else b)"

datatype 'a parsed = Parsed 'a parse_buffer | Failed | OutOfFuel

section \<open>Numbers\<close>

definition number_char :: "char \<Rightarrow> bool" where
  "number_char c \<longleftrightarrow> isdigit c \<or> c \<in> {CHR ''+'', CHR ''-'', CHR ''e'', CHR ''E'', CHR ''.''}"

definition saturate :: "double \<Rightarrow> int" where
  "saturate d =
     (case d of
        Infinity neg \<Rightarrow> (if neg then INT_MIN else INT_MAX)
      | Finite q \<Rightarrow>
          if q \<ge> of_int INT_MAX then INT_MAX
          else if q \<le> of_int INT_MIN then INT_MIN
          else if q < 0 then \<lceil>q\<rceil> else \<lfloor>q\<rfloor>
      | NaN \<Rightarrow> INT_MIN)"

definition parse_number :: "parse_buffer \<Rightarrow> cJSON parsed" where
  "parse_number b =
     (let text = takeWhile number_char (take 63 (drop (joffset b) (jcontent b)));
          (d, n) = strtod text
      in if n = 0 then Failed
         else Parsed (cJSON cJSON_Number None None (saturate d) d []) (advance_by n b))"

section \<open>Strings\<close>

definition nibble :: "char \<Rightarrow> nat option" where
  "nibble c = hexval c"

text \<open>Four hexadecimal digits, 0 when one of them is none.\<close>

definition parse_hex4 :: "string \<Rightarrow> nat" where
  "parse_hex4 s =
     (case map nibble (take 4 s) of
        [Some a, Some b, Some c, Some d] \<Rightarrow> ((a * 16 + b) * 16 + c) * 16 + d
      | _ \<Rightarrow> 0)"

definition utf8_encode :: "nat \<Rightarrow> string" where
  "utf8_encode cp =
     (if cp < 0x80 then [char_of cp]
      else if cp < 0x800 then [char_of (0xC0 + cp div 64), char_of (0x80 + cp mod 64)]
      else if cp < 0x10000 then
        [char_of (0xE0 + cp div 4096), char_of (0x80 + cp div 64 mod 64), char_of (0x80 + cp mod 64)]
      else
        [char_of (0xF0 + cp div 262144), char_of (0x80 + cp div 4096 mod 64),
         char_of (0x80 + cp div 64 mod 64), char_of (0x80 + cp mod 64)])"

text \<open>
  The escapes \<open>\uXXXX\<close> at the start of \<open>s\<close>, of which \<open>n\<close> characters are before the end of
  the literal: the UTF-8 text and the number of characters read.
\<close>

definition utf16_literal_to_utf8 :: "nat \<Rightarrow> string \<Rightarrow> (string \<times> nat) option" where
  "utf16_literal_to_utf8 n s =
     (if n < 6 then None
      else
        let first = parse_hex4 (drop 2 s) in
        if 0xDC00 \<le> first \<and> first \<le> 0xDFFF then None
        else if 0xD800 \<le> first \<and> first \<le> 0xDBFF then
          (if n - 6 < 6 then None
           else if s ! 6 \<noteq> CHR 0x5C \<or> s ! 7 \<noteq> CHR ''u'' then None
           else
             let second = parse_hex4 (drop 8 s) in
             if second < 0xDC00 \<or> second > 0xDFFF then None
             else Some (utf8_encode (0x10000 + (first mod 1024) * 1024 + second mod 1024), 12))
        else Some (utf8_encode first, 6))"

text \<open>The length of the literal at the start of \<open>s\<close>, and the number of escapes in it.\<close>

fun string_end :: "string \<Rightarrow> (nat \<times> nat) option" where
  "string_end [] = None"
| "string_end (c # s) =
     (if c = CHR 0x22 then Some (0, 0)
      else if c = CHR 0x5C then
        (case s of [] \<Rightarrow> None
         | d # s' \<Rightarrow> map_option (\<lambda>(n, k). (n + 2, k + 1)) (string_end s'))
      else map_option (\<lambda>(n, k). (n + 1, k)) (string_end s))"

definition simple_escape :: "char \<Rightarrow> char option" where
  "simple_escape c =
     (if c = CHR ''b'' then Some (CHR 0x08) else if c = CHR ''f'' then Some (CHR 0x0C)
      else if c = CHR ''n'' then Some (CHR 0x0A) else if c = CHR ''r'' then Some (CHR 0x0D)
      else if c = CHR ''t'' then Some (CHR 0x09)
      else if c = CHR 0x22 \<or> c = CHR 0x5C \<or> c = CHR ''/'' then Some c else None)"

text \<open>
  The loop over the literal: the bytes it has written when it stops, and whether it came
  to the end of the literal. It looks at the character behind a backslash and at the
  digits of an escape without regard to the pairs the length was computed with, and stops
  when \<open>n\<close> characters are used up, or at an escape it does not know.
\<close>

function unescape :: "nat \<Rightarrow> string \<Rightarrow> string \<times> bool" where
  "unescape n s =
     (if n = 0 then ([], True)
      else
        (case s of [] \<Rightarrow> ([], False)
         | c # s' \<Rightarrow>
             if c \<noteq> CHR 0x5C then apfst ((#) c) (unescape (n - 1) s')
             else
               (case s' of [] \<Rightarrow> ([], False)
                | d # s'' \<Rightarrow>
                    if d = CHR ''u'' then
                      (case utf16_literal_to_utf8 n s of None \<Rightarrow> ([], False)
                       | Some (bytes, k) \<Rightarrow>
                           if k = 0 then ([], False) else apfst ((@) bytes) (unescape (n - k) (drop k s)))
                    else
                      (case simple_escape d of None \<Rightarrow> ([], False)
                       | Some e \<Rightarrow> apfst ((#) e) (unescape (n - 2) s'')))))"
  by pat_completeness auto
termination
  by (relation "measure fst") auto

declare unescape.simps [simp del]

definition parse_string :: "parse_buffer \<Rightarrow> cJSON parsed" where
  "parse_string b =
     (if peek_char b \<noteq> CHR 0x22 then Failed
      else
        let s = drop (joffset b + 1) (jcontent b) in
        (case string_end s of None \<Rightarrow> Failed
         | Some (n, k) \<Rightarrow>
             let (out, ok) = unescape n s
             in if \<not> ok then Failed
                else Parsed (cJSON cJSON_String None (Some (cstr out)) 0 (Finite 0) []) (advance_by (n + 2) b)))"

section \<open>Values\<close>

definition reads :: "parse_buffer \<Rightarrow> string \<Rightarrow> bool" where
  "reads b w \<longleftrightarrow> can_read b (length w) \<and> take (length w) (drop (joffset b) (jcontent b)) = w"

definition digit_start :: "parse_buffer \<Rightarrow> bool" where
  "digit_start b \<longleftrightarrow> can_access b 0 \<and> (peek_char b = CHR ''-'' \<or> isdigit (peek_char b))"

definition step_back :: "parse_buffer \<Rightarrow> parse_buffer" where
  "step_back b = b\<lparr>joffset := joffset b - 1\<rparr>"

definition deeper :: "parse_buffer \<Rightarrow> parse_buffer" where
  "deeper b = b\<lparr>jdepth := jdepth b + 1\<rparr>"

definition close_list :: "nat \<Rightarrow> char \<Rightarrow> cJSON list parsed \<Rightarrow> cJSON parsed" where
  "close_list t c r =
     (case r of Failed \<Rightarrow> Failed | OutOfFuel \<Rightarrow> OutOfFuel
      | Parsed items b \<Rightarrow>
          if next_is b c
          then Parsed (cJSON t None None 0 (Finite 0) items) ((advance_by 1 b)\<lparr>jdepth := jdepth b - 1\<rparr>)
          else Failed)"

text \<open>
  The recursive part. \<open>array_items\<close> and \<open>object_items\<close> are the loops over the elements, which
  start at the character in front of an element.
\<close>

fun parse_value :: "nat \<Rightarrow> parse_buffer \<Rightarrow> cJSON parsed"
and parse_array :: "nat \<Rightarrow> parse_buffer \<Rightarrow> cJSON parsed"
and parse_object :: "nat \<Rightarrow> parse_buffer \<Rightarrow> cJSON parsed"
and array_items :: "nat \<Rightarrow> parse_buffer \<Rightarrow> cJSON list parsed"
and object_items :: "nat \<Rightarrow> parse_buffer \<Rightarrow> cJSON list parsed" where
  "parse_value 0 b = OutOfFuel"
| "parse_value (Suc f) b =
     (if reads b ''null'' then Parsed (item cJSON_NULL) (advance_by 4 b)
      else if reads b ''false'' then Parsed (item cJSON_False) (advance_by 5 b)
      else if reads b ''true'' then Parsed (cJSON cJSON_True None None 1 (Finite 0) []) (advance_by 4 b)
      else if next_is b (CHR 0x22) then parse_string b
      else if digit_start b then parse_number b
      else if next_is b (CHR ''['') then parse_array f b
      else if next_is b (CHR 0x7B) then parse_object f b
      else Failed)"
| "parse_array 0 b = OutOfFuel"
| "parse_array (Suc f) b =
     (if jdepth b \<ge> CJSON_NESTING_LIMIT then Failed
      else if peek_char b \<noteq> CHR ''['' then Failed
      else
        let b1 = buffer_skip_whitespace (advance_by 1 (deeper b)) in
        if next_is b1 (CHR '']'') then close_list cJSON_Array (CHR '']'') (Parsed [] b1)
        else if \<not> can_access b1 0 then Failed
        else close_list cJSON_Array (CHR '']'') (array_items f (step_back b1)))"
| "parse_object 0 b = OutOfFuel"
| "parse_object (Suc f) b =
     (if jdepth b \<ge> CJSON_NESTING_LIMIT then Failed
      else if \<not> next_is b (CHR 0x7B) then Failed
      else
        let b1 = buffer_skip_whitespace (advance_by 1 (deeper b)) in
        if next_is b1 (CHR 0x7D) then close_list cJSON_Object (CHR 0x7D) (Parsed [] b1)
        else if \<not> can_access b1 0 then Failed
        else close_list cJSON_Object (CHR 0x7D) (object_items f (step_back b1)))"
| "array_items 0 b = OutOfFuel"
| "array_items (Suc f) b =
     (case parse_value f (buffer_skip_whitespace (advance_by 1 b)) of
        Failed \<Rightarrow> Failed | OutOfFuel \<Rightarrow> OutOfFuel
      | Parsed v b2 \<Rightarrow>
          let b3 = buffer_skip_whitespace b2 in
          if next_is b3 (CHR '','') then
            (case array_items f b3 of Failed \<Rightarrow> Failed | OutOfFuel \<Rightarrow> OutOfFuel
             | Parsed vs b4 \<Rightarrow> Parsed (v # vs) b4)
          else Parsed [v] b3)"
| "object_items 0 b = OutOfFuel"
| "object_items (Suc f) b =
     (case parse_string (buffer_skip_whitespace (advance_by 1 b)) of
        Failed \<Rightarrow> Failed | OutOfFuel \<Rightarrow> OutOfFuel
      | Parsed key b2 \<Rightarrow>
          let b3 = buffer_skip_whitespace b2 in
          if \<not> next_is b3 (CHR '':'') then Failed
          else
            (case parse_value f (buffer_skip_whitespace (advance_by 1 b3)) of
               Failed \<Rightarrow> Failed | OutOfFuel \<Rightarrow> OutOfFuel
             | Parsed v b4 \<Rightarrow>
                 let w = set_string (the (valuestring key)) v;
                     b5 = buffer_skip_whitespace b4
                 in if next_is b5 (CHR '','') then
                      (case object_items f b5 of Failed \<Rightarrow> Failed | OutOfFuel \<Rightarrow> OutOfFuel
                       | Parsed vs b6 \<Rightarrow> Parsed (w # vs) b6)
                    else Parsed [w] b5))"

definition parse_fuel :: "string \<Rightarrow> nat" where
  "parse_fuel s = 3 * length s + 6"

definition cJSON_ParseWithLengthOpts :: "string \<Rightarrow> bool \<Rightarrow> cJSON parsed" where
  "cJSON_ParseWithLengthOpts s require_null_terminated =
     (if s = [] then Failed
      else
        let b = \<lparr>jcontent = s, joffset = 0, jdepth = 0\<rparr> in
        (case parse_value (parse_fuel s) (buffer_skip_whitespace (skip_utf8_bom b)) of
           Failed \<Rightarrow> Failed | OutOfFuel \<Rightarrow> OutOfFuel
         | Parsed v b1 \<Rightarrow>
             if require_null_terminated \<and> \<not> next_is (buffer_skip_whitespace b1) NUL then Failed
             else Parsed v b1))"

definition cJSON_ParseWithOpts :: "string \<Rightarrow> bool \<Rightarrow> cJSON parsed" where
  "cJSON_ParseWithOpts s r = cJSON_ParseWithLengthOpts (s @ [NUL]) r"

definition cJSON_Parse :: "string \<Rightarrow> cJSON option" where
  "cJSON_Parse s = (case cJSON_ParseWithOpts s False of Parsed v _ \<Rightarrow> Some v | _ \<Rightarrow> None)"

end
