(* ===== verification/CJsonProgress.thy ===== *)
theory CJsonProgress
  imports CJson
begin

text \<open>
  The parser moves forward: what it parses begins at the offset and ends inside the
  buffer, so a fuel of three calls per character is always enough.
\<close>

section \<open>Moving forward\<close>

definition forward :: "parse_buffer \<Rightarrow> parse_buffer \<Rightarrow> bool" where
  "forward b b' \<longleftrightarrow> jcontent b' = jcontent b \<and> jdepth b' = jdepth b
     \<and> joffset b < joffset b' \<and> joffset b' \<le> length (jcontent b)"

lemma skip_simps [simp]:
  "jcontent (buffer_skip_whitespace b) = jcontent b" "jdepth (buffer_skip_whitespace b) = jdepth b"
  by (simp_all add: buffer_skip_whitespace_def Let_def)

lemma advance_simps [simp]:
  "jcontent (advance_by n b) = jcontent b" "jdepth (advance_by n b) = jdepth b"
  "joffset (advance_by n b) = joffset b + n"
  by (simp_all add: advance_by_def)

lemma deeper_simps [simp]:
  "jcontent (deeper b) = jcontent b" "jdepth (deeper b) = Suc (jdepth b)" "joffset (deeper b) = joffset b"
  by (simp_all add: deeper_def)

lemma step_back_simps [simp]:
  "jcontent (step_back b) = jcontent b" "jdepth (step_back b) = jdepth b"
  "joffset (step_back b) = joffset b - 1"
  by (simp_all add: step_back_def)

lemma skip_offset:
  "joffset b \<le> joffset (buffer_skip_whitespace b)"
  "joffset b \<le> length (jcontent b) \<Longrightarrow> joffset (buffer_skip_whitespace b) \<le> length (jcontent b)"
proof -
  define w where "w = length (takeWhile is_white (drop (joffset b) (jcontent b)))"
  have "w \<le> length (jcontent b) - joffset b"
    using length_takeWhile_le [of is_white "drop (joffset b) (jcontent b)"] by (simp add: w_def)
  then show "joffset b \<le> joffset (buffer_skip_whitespace b)"
    "joffset b \<le> length (jcontent b) \<Longrightarrow> joffset (buffer_skip_whitespace b) \<le> length (jcontent b)"
    by (auto simp: buffer_skip_whitespace_def Let_def can_access_def simp flip: w_def)
qed

lemma next_is_offset: "next_is b c \<Longrightarrow> joffset b < length (jcontent b)"
  by (simp add: next_is_def can_access_def)

lemma strtod_exponent_length: "snd (strtod_exponent s) \<le> length s"
proof (cases s)
  case (Cons c t)
  show ?thesis
  proof (cases t)
    case Nil
    then show ?thesis using Cons by (simp add: strtod_exponent_def)
  next
    case (Cons d u)
    then show ?thesis
      using \<open>s = c # t\<close> length_takeWhile_le [of isdigit u]
      by (auto simp: strtod_exponent_def Let_def)
  qed
qed (simp add: strtod_exponent_def)

lemma strtod_length: "snd (strtod s) \<le> length s"
proof -
  define sg where "sg = (s \<noteq> [] \<and> (hd s = CHR ''-'' \<or> hd s = CHR ''+''))"
  define s1 where "s1 = (if sg then tl s else s)"
  define ip where "ip = takeWhile isdigit s1"
  define s2 where "s2 = drop (length ip) s1"
  define pt where "pt = (s2 \<noteq> [] \<and> hd s2 = CHR ''.'')"
  define fp where "fp = (if pt then takeWhile isdigit (tl s2) else [])"
  define s3 where "s3 = (if pt then drop (Suc (length fp)) s2 else s2)"
  have 1: "length s = (if sg then 1 else 0) + length s1" by (cases s) (auto simp: sg_def s1_def)
  have 2: "length s1 = length ip + length s2"
    using length_takeWhile_le [of isdigit s1] by (simp add: ip_def s2_def)
  have 3: "length s2 = (if pt then Suc (length fp) else 0) + length s3"
    using length_takeWhile_le [of isdigit "tl s2"] by (cases s2) (auto simp: s3_def fp_def pt_def)
  have "snd (strtod s) \<le> (if sg then 1 else 0) + length ip + (if pt then Suc (length fp) else 0) + snd (strtod_exponent s3)"
    unfolding strtod_def Let_def sg_def [symmetric] s1_def [symmetric] ip_def [symmetric] s2_def [symmetric]
      pt_def [symmetric] fp_def [symmetric] s3_def [symmetric]
    by (simp split: prod.split)
  then show ?thesis using 1 2 3 strtod_exponent_length [of s3] by simp
qed

lemma parse_number_forward: "parse_number b = Parsed v b' \<Longrightarrow> joffset b \<le> length (jcontent b) \<Longrightarrow> forward b b'"
proof -
  assume p: "parse_number b = Parsed v b'" and le: "joffset b \<le> length (jcontent b)"
  define t where "t = takeWhile number_char (take 63 (drop (joffset b) (jcontent b)))"
  have "length t \<le> length (jcontent b) - joffset b"
    using length_takeWhile_le [of number_char "take 63 (drop (joffset b) (jcontent b))"] by (simp add: t_def)
  then show ?thesis
    using p le strtod_length [of t]
    by (auto simp: parse_number_def forward_def Let_def t_def [symmetric] split: prod.splits if_splits)
qed

lemma string_end_length: "string_end s = Some (n, k) \<Longrightarrow> n < length s"
proof (induction s arbitrary: n k rule: string_end.induct)
  case (2 c s)
  then show ?case by (auto split: if_splits list.splits)
qed simp

lemma parse_string_forward: "parse_string b = Parsed v b' \<Longrightarrow> forward b b'"
  using string_end_length [of "drop (Suc (joffset b)) (jcontent b)"]
  by (fastforce simp: parse_string_def forward_def Let_def split: if_splits option.splits prod.splits)

lemma parse_string_fuel [simp]: "parse_string b \<noteq> OutOfFuel"
  by (auto simp: parse_string_def Let_def split: option.splits prod.splits)

lemma parse_number_fuel [simp]: "parse_number b \<noteq> OutOfFuel"
  by (auto simp: parse_number_def Let_def split: prod.splits)

lemma forward_trans:
  "\<lbrakk>forward (buffer_skip_whitespace (advance_by 1 b)) b2\<rbrakk>
   \<Longrightarrow> jcontent b2 = jcontent b \<and> jdepth b2 = jdepth b \<and> joffset b + 1 < joffset b2 \<and> joffset b2 \<le> length (jcontent b)"
  using skip_offset(1) [of "advance_by 1 b"] by (auto simp: forward_def)

lemma close_list_Parsed:
  "close_list t c r = Parsed v b' \<Longrightarrow>
   \<exists>items b2. r = Parsed items b2 \<and> v = cJSON t None None 0 (Finite 0) items \<and> next_is b2 c
     \<and> b' = (advance_by 1 b2)\<lparr>jdepth := jdepth b2 - 1\<rparr>"
  by (auto simp: close_list_def split: parsed.splits if_splits)

text \<open>The common part of arrays and objects: an opening character, then the elements.\<close>

lemma close_list_forward:
  assumes "close_list t c r = Parsed v b'" "b1 = buffer_skip_whitespace (advance_by 1 (deeper b))"
    and "r = Parsed [] b1 \<or> (\<forall>items b2. r = Parsed items b2 \<longrightarrow> forward (step_back b1) b2)"
  shows "forward b b'"
proof -
  have b1: "joffset b + 1 \<le> joffset b1" "jcontent b1 = jcontent b" "jdepth b1 = jdepth b + 1"
    using skip_offset(1) [of "advance_by 1 (deeper b)"] assms(2) by simp_all
  obtain items b2 where r: "r = Parsed items b2" "next_is b2 c" "b' = (advance_by 1 b2)\<lparr>jdepth := jdepth b2 - 1\<rparr>"
    using close_list_Parsed [OF assms(1)] by blast
  have "joffset b \<le> joffset b2" "jcontent b2 = jcontent b" "jdepth b2 = jdepth b + 1"
    using assms(3) r(1) b1 by (auto simp: forward_def)
  then show ?thesis using r next_is_offset [OF r(2)] by (simp add: forward_def)
qed

lemma parsers_forward:
  "parse_value f b = Parsed v b' \<Longrightarrow> forward b b'"
  "parse_array f b = Parsed v b' \<Longrightarrow> forward b b'"
  "parse_object f b = Parsed v b' \<Longrightarrow> forward b b'"
  "array_items f b = Parsed vs b' \<Longrightarrow> forward b b'"
  "object_items f b = Parsed vs b' \<Longrightarrow> forward b b'"
proof (induction f b and f b and f b and f b and f b arbitrary: v b' and v b' and v b' and vs b' and vs b'
    rule: parse_value_parse_array_parse_object_array_items_object_items.induct)
  case (2 f b)
  have "reads b w \<Longrightarrow> n = length w \<Longrightarrow> 0 < n \<Longrightarrow> forward b (advance_by n b)" for w n
    by (simp add: reads_def can_read_def forward_def)
  from this [of "''null''" 4] this [of "''false''" 5] this [of "''true''" 4]
  show ?case
    using 2 parse_string_forward parse_number_forward
    by (auto simp: digit_start_def can_access_def split: if_splits)
next
  case (4 f b)
  let ?b1 = "buffer_skip_whitespace (advance_by 1 (deeper b))"
  consider "close_list cJSON_Array (CHR '']'') (Parsed [] ?b1) = Parsed v b'"
    | "close_list cJSON_Array (CHR '']'') (array_items f (step_back ?b1)) = Parsed v b'"
      "\<And>vs b'. array_items f (step_back ?b1) = Parsed vs b' \<Longrightarrow> forward (step_back ?b1) b'"
    using 4 by (simp add: Let_def split: if_splits)
  then show ?case using close_list_forward by cases blast+
next
  case (6 f b)
  let ?b1 = "buffer_skip_whitespace (advance_by 1 (deeper b))"
  consider "close_list cJSON_Object (CHR 0x7D) (Parsed [] ?b1) = Parsed v b'"
    | "close_list cJSON_Object (CHR 0x7D) (object_items f (step_back ?b1)) = Parsed v b'"
      "\<And>vs b'. object_items f (step_back ?b1) = Parsed vs b' \<Longrightarrow> forward (step_back ?b1) b'"
    using 6 by (simp add: Let_def split: if_splits)
  then show ?case using close_list_forward by cases blast+
next
  case (8 f b)
  then obtain u b2 where v: "parse_value f (buffer_skip_whitespace (advance_by 1 b)) = Parsed u b2"
    by (auto split: parsed.splits)
  let ?b3 = "buffer_skip_whitespace b2"
  have b2: "jcontent b2 = jcontent b" "jdepth b2 = jdepth b" "joffset b + 1 < joffset b2" "joffset b2 \<le> length (jcontent b)"
    using forward_trans 8(1) [OF v] by auto
  then have b3: "joffset b + 1 < joffset ?b3" "joffset ?b3 \<le> length (jcontent b)"
    using skip_offset(1) [of b2] skip_offset(2) [of b2] by simp_all
  have step: "array_items f ?b3 = Parsed vs1 b4 \<Longrightarrow> next_is ?b3 (CHR '','') \<Longrightarrow> forward ?b3 b4" for vs1 b4
    using 8(2) [OF v refl] by blast
  show ?case
  proof (cases "next_is ?b3 (CHR '','')")
    case True
    then obtain vs1 where "array_items f ?b3 = Parsed vs1 b'"
      using 8(3) v by (simp add: Let_def split: parsed.splits)
    then show ?thesis using step True b2 b3 by (fastforce simp: forward_def)
  next
    case False
    then show ?thesis using 8(3) v b2 b3 by (auto simp: Let_def forward_def)
  qed
next
  case (10 f b)
  then obtain u b2 where u: "parse_string (buffer_skip_whitespace (advance_by 1 b)) = Parsed u b2"
    by (auto split: parsed.splits)
  have b2: "jcontent b2 = jcontent b" "jdepth b2 = jdepth b" "joffset b + 1 < joffset b2" "joffset b2 \<le> length (jcontent b)"
    using forward_trans parse_string_forward [OF u] by auto
  let ?b3 = "buffer_skip_whitespace b2"
  have b3: "joffset b + 1 < joffset ?b3" using b2 skip_offset(1) [of b2] by simp
  have colon: "next_is ?b3 (CHR '':'')" using 10(3) u by (auto simp: Let_def split: if_splits)
  obtain x b4 where x: "parse_value f (buffer_skip_whitespace (advance_by 1 ?b3)) = Parsed x b4"
    using 10(3) u colon by (auto simp: Let_def split: parsed.splits)
  have b4: "jcontent b4 = jcontent b" "jdepth b4 = jdepth b" "joffset ?b3 + 1 < joffset b4" "joffset b4 \<le> length (jcontent b)"
    using forward_trans [OF 10(1) [OF u refl _ x]] colon b2 by simp_all
  let ?b5 = "buffer_skip_whitespace b4"
  have b5: "joffset b + 1 < joffset ?b5" "joffset ?b5 \<le> length (jcontent b)"
    using skip_offset(1) [of b4] skip_offset(2) [of b4] b3 b4 by simp_all
  have step: "object_items f ?b5 = Parsed vs1 b6 \<Longrightarrow> next_is ?b5 (CHR '','') \<Longrightarrow> forward ?b5 b6" for vs1 b6
    using 10(2) [OF u refl _ x refl refl] colon by blast
  show ?case
  proof (cases "next_is ?b5 (CHR '','')")
    case True
    then obtain vs1 where "object_items f ?b5 = Parsed vs1 b'"
      using 10(3) u colon x by (simp add: Let_def split: parsed.splits)
    then show ?thesis using step True b4 b5 by (fastforce simp: forward_def)
  next
    case False
    then show ?thesis using 10(3) u colon x b4 b5 by (auto simp: Let_def forward_def)
  qed
qed auto

section \<open>Enough fuel\<close>

definition need :: "parse_buffer \<Rightarrow> nat" where
  "need b = 3 * (length (jcontent b) + 1 - joffset b)"

lemma need_less:
  "\<lbrakk>jcontent b' = jcontent b; joffset b < joffset b'; joffset b \<le> length (jcontent b)\<rbrakk> \<Longrightarrow> need b' + 3 \<le> need b"
  by (simp add: need_def)

lemma need_le:
  "\<lbrakk>jcontent b' = jcontent b; joffset b \<le> joffset b'\<rbrakk> \<Longrightarrow> need b' \<le> need b"
  by (simp add: need_def)

lemma parsers_fuel:
  "need b + 3 \<le> f \<Longrightarrow> parse_value f b \<noteq> OutOfFuel"
  "need b + 2 \<le> f \<Longrightarrow> parse_array f b \<noteq> OutOfFuel"
  "need b + 2 \<le> f \<Longrightarrow> parse_object f b \<noteq> OutOfFuel"
  "need b + 1 \<le> f \<Longrightarrow> joffset b < length (jcontent b) \<Longrightarrow> array_items f b \<noteq> OutOfFuel"
  "need b + 1 \<le> f \<Longrightarrow> joffset b < length (jcontent b) \<Longrightarrow> object_items f b \<noteq> OutOfFuel"
proof (induction f b and f b and f b and f b and f b
    rule: parse_value_parse_array_parse_object_array_items_object_items.induct)
  case (2 f b)
  then show ?case by simp
next
  case (4 f b)
  let ?b1 = "buffer_skip_whitespace (advance_by 1 (deeper b))"
  have "joffset b + 1 \<le> joffset ?b1" using skip_offset(1) [of "advance_by 1 (deeper b)"] by simp
  then have "joffset b \<le> joffset (step_back ?b1)" by simp
  then have "need (step_back ?b1) + 1 \<le> f" using need_le [of "step_back ?b1" b] 4(2) by simp
  then have "array_items f (step_back ?b1) \<noteq> OutOfFuel"
    if "\<not> CJSON_NESTING_LIMIT \<le> jdepth b" "peek_char b = CHR ''[''" "\<not> next_is ?b1 (CHR '']'')" "can_access ?b1 0"
    using 4(1) [OF that(1) _ refl that(3)] that by (simp add: can_access_def less_imp_diff_less)
  then show ?case by (auto simp: Let_def close_list_def split: parsed.split)
next
  case (6 f b)
  let ?b1 = "buffer_skip_whitespace (advance_by 1 (deeper b))"
  have "joffset b + 1 \<le> joffset ?b1" using skip_offset(1) [of "advance_by 1 (deeper b)"] by simp
  then have "joffset b \<le> joffset (step_back ?b1)" by simp
  then have "need (step_back ?b1) + 1 \<le> f" using need_le [of "step_back ?b1" b] 6(2) by simp
  then have "object_items f (step_back ?b1) \<noteq> OutOfFuel"
    if "\<not> CJSON_NESTING_LIMIT \<le> jdepth b" "next_is b (CHR 0x7B)" "\<not> next_is ?b1 (CHR 0x7D)" "can_access ?b1 0"
    using 6(1) [OF that(1) _ refl that(3)] that by (simp add: can_access_def less_imp_diff_less)
  then show ?case by (auto simp: Let_def close_list_def split: parsed.split)
next
  case (8 f b)
  let ?b1 = "buffer_skip_whitespace (advance_by 1 b)"
  have b1: "joffset b + 1 \<le> joffset ?b1" using skip_offset(1) [of "advance_by 1 b"] by simp
  then have f: "need ?b1 + 3 \<le> f" using need_less [of ?b1 b] 8(3,4) by simp
  have "array_items f (buffer_skip_whitespace b2) \<noteq> OutOfFuel"
    if v: "parse_value f ?b1 = Parsed u b2" and c: "next_is (buffer_skip_whitespace b2) (CHR '','')" for u b2
  proof -
    have "joffset ?b1 < joffset (buffer_skip_whitespace b2)" "jcontent b2 = jcontent b"
      using parsers_forward(1) [OF v] skip_offset(1) [of b2] by (auto simp: forward_def)
    then have "need (buffer_skip_whitespace b2) + 1 \<le> f"
      using f need_le [of "buffer_skip_whitespace b2" ?b1] by simp
    then show ?thesis using 8(2) [OF v refl c] next_is_offset [OF c] by simp
  qed
  then show ?case using 8(1) [OF f] by (auto simp: Let_def split: parsed.splits)
next
  case (10 f b)
  let ?b1 = "buffer_skip_whitespace (advance_by 1 b)"
  have b1: "joffset b + 1 \<le> joffset ?b1" using skip_offset(1) [of "advance_by 1 b"] by simp
  have f: "need ?b1 + 3 \<le> f" using b1 need_less [of ?b1 b] 10(3,4) by simp
  have key: "case parse_value f (buffer_skip_whitespace (advance_by 1 (buffer_skip_whitespace b2))) of
      Failed \<Rightarrow> True | OutOfFuel \<Rightarrow> False
    | Parsed v b4 \<Rightarrow> next_is (buffer_skip_whitespace b4) (CHR '','') \<longrightarrow>
        object_items f (buffer_skip_whitespace b4) \<noteq> OutOfFuel"
    if u: "parse_string ?b1 = Parsed u b2" and c: "next_is (buffer_skip_whitespace b2) (CHR '':'')" for u b2
  proof -
    let ?b3 = "buffer_skip_whitespace (advance_by 1 (buffer_skip_whitespace b2))"
    have b3: "joffset ?b1 < joffset ?b3" "jcontent b2 = jcontent b"
      using parse_string_forward [OF u] skip_offset(1) [of b2] skip_offset(1) [of "advance_by 1 (buffer_skip_whitespace b2)"]
      by (auto simp: forward_def)
    then have "need ?b3 + 3 \<le> f" using f need_le [of ?b3 ?b1] by simp
    moreover have "object_items f (buffer_skip_whitespace b4) \<noteq> OutOfFuel"
      if v: "parse_value f ?b3 = Parsed v b4" and cc: "next_is (buffer_skip_whitespace b4) (CHR '','')" for v b4
    proof -
      have "joffset ?b1 < joffset (buffer_skip_whitespace b4)" "jcontent b4 = jcontent b"
        using parsers_forward(1) [OF v] skip_offset(1) [of b4] b3 by (auto simp: forward_def)
      then have "need (buffer_skip_whitespace b4) + 1 \<le> f"
        using f need_le [of "buffer_skip_whitespace b4" ?b1] by simp
      then show ?thesis using 10(2) [OF u refl _ v refl refl cc] c next_is_offset [OF cc] by simp
    qed
    ultimately show ?thesis using 10(1) [OF u refl] c by (auto split: parsed.split)
  qed
  show ?case
  proof (cases "parse_string ?b1")
    case (Parsed u b2)
    show ?thesis
    proof (cases "next_is (buffer_skip_whitespace b2) (CHR '':'')")
      case True
      then show ?thesis using key [OF Parsed True] Parsed by (auto simp: Let_def split: parsed.splits)
    next
      case False
      then show ?thesis using Parsed by (simp add: Let_def)
    qed
  next
    case OutOfFuel
    then show ?thesis using parse_string_fuel by blast
  qed simp
qed simp_all

end
