(* ===== verification/CJsonGrammar.thy ===== *)
theory CJsonGrammar
  imports CJsonProgress
begin

text \<open>
  The JSON grammar of RFC 8259 as relations between values and texts, and the theorem that
  the parser accepts every text of the grammar with the value it stands for. Three texts of
  the RFC's grammar are outside the relation, because the parser does not take them: arrays
  and objects nested more than 1000 deep, numbers of more than 63 characters, and escapes
  of unpaired surrogates, to which the RFC gives no meaning. A string is the C string of
  its characters, which ends at the first \<open>\u0000\<close>.
\<close>

section \<open>The grammar\<close>

definition ws :: "string \<Rightarrow> bool" where
  "ws w \<longleftrightarrow> set w \<subseteq> {CHR 0x20, CHR 0x09, CHR 0x0A, CHR 0x0D}"

text \<open>The literals of a string: plain characters, short escapes, code points and surrogate pairs.\<close>

definition hex4 :: "string \<Rightarrow> bool" where
  "hex4 h \<longleftrightarrow> length h = 4 \<and> (\<forall>c\<in>set h. isxdigit c)"

definition hex_number :: "string \<Rightarrow> nat" where
  "hex_number h = foldl (\<lambda>n c. 16 * n + the (hexval c)) 0 h"

definition short_escapes :: "(char \<times> char) list" where
  "short_escapes = [(CHR 0x22, CHR 0x22), (CHR 0x5C, CHR 0x5C), (CHR ''/'', CHR ''/''), (CHR ''b'', CHR 0x08),
     (CHR ''f'', CHR 0x0C), (CHR ''n'', CHR 0x0A), (CHR ''r'', CHR 0x0D), (CHR ''t'', CHR 0x09)]"

text \<open>The table of RFC 3629: the bytes of a code point, in the shortest form.\<close>

definition utf8 :: "nat \<Rightarrow> string \<Rightarrow> bool" where
  "utf8 cp bs \<longleftrightarrow>
     map of_char bs = [cp] \<and> cp < 0x80
     \<or> (\<exists>a b. map of_char bs = [0xC0 + a, 0x80 + b] \<and> a < 32 \<and> b < 64 \<and> cp = a * 64 + b \<and> 0x80 \<le> cp)
     \<or> (\<exists>a b c. map of_char bs = [0xE0 + a, 0x80 + b, 0x80 + c] \<and> a < 16 \<and> b < 64 \<and> c < 64
          \<and> cp = (a * 64 + b) * 64 + c \<and> 0x800 \<le> cp)
     \<or> (\<exists>a b c d. map of_char bs = [0xF0 + a, 0x80 + b, 0x80 + c, 0x80 + d] \<and> a < 8 \<and> b < 64 \<and> c < 64 \<and> d < 64
          \<and> cp = ((a * 64 + b) * 64 + c) * 64 + d \<and> 0x10000 \<le> cp)"

inductive str_text :: "string \<Rightarrow> string \<Rightarrow> bool" where
  str_nil: "str_text [] []"
| str_plain: "\<lbrakk>str_text s t; c \<noteq> CHR 0x22; c \<noteq> CHR 0x5C; c \<noteq> NUL\<rbrakk> \<Longrightarrow> str_text (c # s) (c # t)"
| str_escape: "\<lbrakk>str_text s t; (d, e) \<in> set short_escapes\<rbrakk> \<Longrightarrow> str_text (e # s) (CHR 0x5C # d # t)"
| str_code: "\<lbrakk>str_text s t; hex4 h; hex_number h < 0xD800 \<or> 0xDFFF < hex_number h;
     utf8 (hex_number h) bs\<rbrakk>
    \<Longrightarrow> str_text (bs @ s) (CHR 0x5C # CHR ''u'' # h @ t)"
| str_pair: "\<lbrakk>str_text s t; hex4 h; hex4 l; hex_number h = 0xD800 + a; a < 0x400; hex_number l = 0xDC00 + b; b < 0x400;
     utf8 (0x10000 + a * 0x400 + b) bs\<rbrakk>
    \<Longrightarrow> str_text (bs @ s) (CHR 0x5C # CHR ''u'' # h @ CHR 0x5C # CHR ''u'' # l @ t)"

definition json_number :: "string \<Rightarrow> bool" where
  "json_number t \<longleftrightarrow>
     (\<exists>m ip fp ep. t = m @ ip @ fp @ ep \<and> m \<in> {[], ''-''} \<and> ip \<noteq> [] \<and> (\<forall>c\<in>set ip. isdigit c)
        \<and> (ip = ''0'' \<or> hd ip \<noteq> CHR ''0'')
        \<and> (fp = [] \<or> (\<exists>ds. fp = CHR ''.'' # ds \<and> ds \<noteq> [] \<and> (\<forall>c\<in>set ds. isdigit c)))
        \<and> (ep = [] \<or> (\<exists>e sg ds. ep = e # sg @ ds \<and> e \<in> {CHR ''e'', CHR ''E''} \<and> sg \<in> {[], ''-'', ''+''}
             \<and> ds \<noteq> [] \<and> (\<forall>c\<in>set ds. isdigit c))))"

definition string_item :: "string \<Rightarrow> cJSON" where
  "string_item s = cJSON cJSON_String None (Some s) 0 (Finite 0) []"

definition list_item :: "nat \<Rightarrow> cJSON list \<Rightarrow> cJSON" where
  "list_item t vs = cJSON t None None 0 (Finite 0) vs"

definition number_item :: "double \<Rightarrow> cJSON" where
  "number_item d = cJSON cJSON_Number None None (saturate d) d []"

definition true_item :: cJSON where
  "true_item = cJSON cJSON_True None None 1 (Finite 0) []"

text \<open>The first argument bounds the nesting of arrays and objects.\<close>

inductive value_text :: "nat \<Rightarrow> cJSON \<Rightarrow> string \<Rightarrow> bool"
  and items_text :: "nat \<Rightarrow> cJSON list \<Rightarrow> string \<Rightarrow> bool"
  and members_text :: "nat \<Rightarrow> cJSON list \<Rightarrow> string \<Rightarrow> bool"
where
  v_null: "value_text d (item cJSON_NULL) ''null''"
| v_false: "value_text d (item cJSON_False) ''false''"
| v_true: "value_text d true_item ''true''"
| v_string: "str_text s t \<Longrightarrow> value_text d (string_item (cstr s)) (CHR 0x22 # t @ [CHR 0x22])"
| v_number: "\<lbrakk>json_number t; length t \<le> 63\<rbrakk> \<Longrightarrow> value_text d (number_item (fst (strtod t))) t"
| v_empty_array: "ws w \<Longrightarrow> value_text (Suc d) (list_item cJSON_Array []) (CHR ''['' # w @ [CHR '']''])"
| v_array: "items_text d vs t \<Longrightarrow> value_text (Suc d) (list_item cJSON_Array vs) (CHR ''['' # t @ [CHR '']''])"
| v_empty_object: "ws w \<Longrightarrow> value_text (Suc d) (list_item cJSON_Object []) (CHR 0x7B # w @ [CHR 0x7D])"
| v_object: "members_text d vs t \<Longrightarrow> value_text (Suc d) (list_item cJSON_Object vs) (CHR 0x7B # t @ [CHR 0x7D])"
| i_one: "\<lbrakk>ws w1; value_text d v t; ws w2\<rbrakk> \<Longrightarrow> items_text d [v] (w1 @ t @ w2)"
| i_more: "\<lbrakk>ws w1; value_text d v t; ws w2; items_text d vs u\<rbrakk>
    \<Longrightarrow> items_text d (v # vs) (w1 @ t @ w2 @ CHR '','' # u)"
| m_one: "\<lbrakk>ws w1; str_text k kt; ws w2; ws w3; value_text d v t; ws w4\<rbrakk>
    \<Longrightarrow> members_text d [set_string (cstr k) v] (w1 @ (CHR 0x22 # kt @ [CHR 0x22]) @ w2 @ CHR '':'' # w3 @ t @ w4)"
| m_more: "\<lbrakk>ws w1; str_text k kt; ws w2; ws w3; value_text d v t; ws w4; members_text d vs u\<rbrakk>
    \<Longrightarrow> members_text d (set_string (cstr k) v # vs)
         (w1 @ (CHR 0x22 # kt @ [CHR 0x22]) @ w2 @ CHR '':'' # w3 @ t @ w4 @ CHR '','' # u)"

section \<open>String literals\<close>

lemma short_escape: "(d, e) \<in> set short_escapes \<Longrightarrow> simple_escape d = Some e \<and> d \<noteq> CHR ''u'' \<and> e \<noteq> NUL"
  by (auto simp: short_escapes_def simple_escape_def NUL_def)

lemma parse_hex4_number:
  assumes "hex4 h"
  shows "parse_hex4 h = hex_number h"
proof -
  obtain a b c d where h: "h = [a, b, c, d]" using assms by (auto simp: hex4_def length_Suc_conv eval_nat_numeral)
  then obtain w x y z where "hexval a = Some w" "hexval b = Some x" "hexval c = Some y" "hexval d = Some z"
    using assms by (auto simp: hex4_def isxdigit_def)
  then show ?thesis by (simp add: h parse_hex4_def nibble_def hex_number_def)
qed

lemma divmod_64: "b < 64 \<Longrightarrow> (a * 64 + b) div 64 = a \<and> (a * 64 + b) mod 64 = b" for a b :: nat
  by simp

lemma utf8_encode_utf8:
  assumes "utf8 cp bs"
  shows "bs = utf8_encode cp"
proof -
  have bs: "bs = map char_of (map of_char bs :: nat list)" by (induction bs) auto
  have d: "cp div 4096 = cp div 64 div 64" "cp div 262144 = cp div 64 div 64 div 64"
    by (simp_all flip: div_mult2_eq)
  from assms consider "map of_char bs = [cp :: nat]" "cp < 0x80"
    | a b :: nat where "map of_char bs = [0xC0 + a, 0x80 + b]" "a < 32" "b < 64" "cp = a * 64 + b" "0x80 \<le> cp"
    | a b c :: nat where "map of_char bs = [0xE0 + a, 0x80 + b, 0x80 + c]" "a < 16" "b < 64" "c < 64"
        "cp = (a * 64 + b) * 64 + c" "0x800 \<le> cp"
    | a b c e :: nat where "map of_char bs = [0xF0 + a, 0x80 + b, 0x80 + c, 0x80 + e]" "a < 8" "b < 64" "c < 64" "e < 64"
        "cp = ((a * 64 + b) * 64 + c) * 64 + e" "0x10000 \<le> cp"
    unfolding utf8_def by (elim disjE exE conjE) simp_all
  then show ?thesis
  proof cases
    case (2 a b)
    have "cp div 64 = a" "cp mod 64 = b" "cp < 0x800" using 2 by auto
    then show ?thesis using 2 by (subst bs) (simp add: utf8_encode_def)
  next
    case (3 a b c)
    have "cp div 64 = a * 64 + b" "cp mod 64 = c" "(a * 64 + b) div 64 = a" "(a * 64 + b) mod 64 = b"
      using divmod_64 [OF 3(4), of "a * 64 + b"] divmod_64 [OF 3(3), of a] unfolding 3(5) by blast+
    moreover have "cp < 0x10000" using 3 by simp
    ultimately have "utf8_encode cp = [char_of (0xE0 + a), char_of (0x80 + b), char_of (0x80 + c)]"
      unfolding utf8_encode_def d using 3(6) by simp
    then show ?thesis using 3(1) by (subst bs) simp
  next
    case (4 a b c e)
    have "cp div 64 = (a * 64 + b) * 64 + c" "cp mod 64 = e" "((a * 64 + b) * 64 + c) div 64 = a * 64 + b"
      "((a * 64 + b) * 64 + c) mod 64 = c" "(a * 64 + b) div 64 = a" "(a * 64 + b) mod 64 = b"
      using divmod_64 [OF 4(5), of "(a * 64 + b) * 64 + c"] divmod_64 [OF 4(4), of "a * 64 + b"] divmod_64 [OF 4(3), of a]
      unfolding 4(6) by blast+
    then have "utf8_encode cp = [char_of (0xF0 + a), char_of (0x80 + b), char_of (0x80 + c), char_of (0x80 + e)]"
      unfolding utf8_encode_def d using 4(7) by simp
    then show ?thesis using 4(1) by (subst bs) simp
  qed (subst bs, simp add: utf8_encode_def)
qed

lemma string_end_plain:
  "\<forall>c\<in>set h. c \<noteq> CHR 0x22 \<and> c \<noteq> CHR 0x5C \<Longrightarrow>
   string_end (h @ r) = map_option (\<lambda>(n, k). (n + length h, k)) (string_end r)"
  by (induction h) (auto simp: option.map_comp comp_def split_def option.map_ident)

lemma hex4_plain: "hex4 h \<Longrightarrow> \<forall>c\<in>set h. c \<noteq> CHR 0x22 \<and> c \<noteq> CHR 0x5C"
  by (auto simp: hex4_def isxdigit_def hexval_def)

lemma str_text_end: "str_text s t \<Longrightarrow> \<exists>k. string_end (t @ CHR 0x22 # r) = Some (length t, k)"
proof (induction rule: str_text.induct)
  case (str_code s t h)
  then show ?case using string_end_plain [OF hex4_plain, of h "t @ CHR 0x22 # r"] by (auto simp: hex4_def)
next
  case (str_pair s t h l)
  then show ?case
    using string_end_plain [OF hex4_plain, of l "t @ CHR 0x22 # r"]
      string_end_plain [OF hex4_plain, of h "CHR 0x5C # CHR ''u'' # l @ t @ CHR 0x22 # r"]
    by (auto simp: hex4_def)
qed auto

lemma parse_hex4_append: "length h = 4 \<Longrightarrow> parse_hex4 (h @ r) = parse_hex4 h"
  by (simp add: parse_hex4_def)

lemma str_text_unescape: "str_text s t \<Longrightarrow> unescape (length t) (t @ r) = (s, True)"
proof (induction rule: str_text.induct)
  case str_nil
  then show ?case by (simp add: unescape.simps)
next
  case (str_plain s t c)
  then show ?case by (subst unescape.simps) simp
next
  case (str_escape s t d e)
  then show ?case using short_escape by (subst unescape.simps) auto
next
  case (str_code s t h bs)
  have "length h = 4" "parse_hex4 h = hex_number h" "bs = utf8_encode (hex_number h)"
    using str_code(2,4) parse_hex4_number utf8_encode_utf8 by (auto simp: hex4_def)
  then have "utf16_literal_to_utf8 (6 + length t) (CHR 0x5C # CHR ''u'' # h @ t @ r) = Some (bs, 6)"
    using str_code(3) by (auto simp: utf16_literal_to_utf8_def parse_hex4_append)
  then show ?case using str_code by (subst unescape.simps) (simp add: hex4_def)
next
  case (str_pair s t h l a b bs)
  have "length h = 4" "length l = 4" "parse_hex4 h = 0xD800 + a" "parse_hex4 l = 0xDC00 + b"
    "bs = utf8_encode (0x10000 + a * 0x400 + b)" "(0xD800 + a) mod 0x400 = a" "(0xDC00 + b) mod 0x400 = b"
    using str_pair(2-8) parse_hex4_number utf8_encode_utf8 mod_mult_self3 [of 54 "0x400" a] mod_mult_self3 [of 55 "0x400" b]
    by (auto simp: hex4_def)
  then have "utf16_literal_to_utf8 (12 + length t) (CHR 0x5C # CHR ''u'' # h @ CHR 0x5C # CHR ''u'' # l @ t @ r) = Some (bs, 12)"
    using str_pair(5,7) by (simp add: utf16_literal_to_utf8_def parse_hex4_append nth_append)
  then show ?case using str_pair by (subst unescape.simps) (simp add: hex4_def)
qed

lemma hexval_less: "hexval c = Some n \<Longrightarrow> n < 16"
  by (auto simp: hexval_def Let_def split: if_splits)

lemma parse_hex4_less: "parse_hex4 h < 0x10000"
  by (auto simp: parse_hex4_def nibble_def dest!: hexval_less split: list.split option.split)

section \<open>Numbers\<close>

lemma takeWhile_prefix:
  "(\<forall>c\<in>set a. P c) \<Longrightarrow> (r = [] \<or> \<not> P (hd r)) \<Longrightarrow> takeWhile P (a @ r) = a"
  by (cases r) (auto simp: takeWhile_append2)

lemma strtod_exponent_all:
  assumes "e \<in> {CHR ''e'', CHR ''E''}" "sg \<in> {[], ''-'', ''+''}" "ds \<noteq> []" "\<forall>c\<in>set ds. isdigit c"
  shows "snd (strtod_exponent (e # sg @ ds)) = length (e # sg @ ds)"
proof -
  obtain x xs where ds: "ds = x # xs" using assms(3) by (cases ds) auto
  have x: "isdigit x" "takeWhile isdigit xs = xs" using assms(4) ds by auto
  moreover have "\<not> isdigit (CHR ''-'')" "\<not> isdigit (CHR ''+'')" by (simp_all add: isdigit_def)
  ultimately have "x \<noteq> CHR ''-''" "x \<noteq> CHR ''+''" by metis+
  then show ?thesis
    using assms(1,2) x(1) unfolding ds by (auto simp: strtod_exponent_def Let_def x(2))
qed

lemma strtod_all:
  assumes "json_number t"
  shows "snd (strtod t) = length t"
proof -
  obtain m ip fp ep where t: "t = m @ ip @ fp @ ep" "m \<in> {[], ''-''}" "ip \<noteq> []" "\<forall>c\<in>set ip. isdigit c"
    and fp: "fp = [] \<or> (\<exists>ds. fp = CHR ''.'' # ds \<and> ds \<noteq> [] \<and> (\<forall>c\<in>set ds. isdigit c))"
    and ep: "ep = [] \<or> (\<exists>e sg ds. ep = e # sg @ ds \<and> e \<in> {CHR ''e'', CHR ''E''} \<and> sg \<in> {[], ''-'', ''+''}
      \<and> ds \<noteq> [] \<and> (\<forall>c\<in>set ds. isdigit c))"
    using assms unfolding json_number_def by blast
  have nd: "\<not> isdigit (CHR ''-'')" "\<not> isdigit (CHR ''+'')" "\<not> isdigit (CHR ''.'')"
    "\<not> isdigit (CHR ''e'')" "\<not> isdigit (CHR ''E'')" by (simp_all add: isdigit_def)
  have "isdigit (hd ip)" using t(3,4) by simp
  then have hd: "hd ip \<noteq> CHR ''-''" "hd ip \<noteq> CHR ''+''" using nd by metis+
  have "\<not> isdigit (hd (fp @ ep)) \<or> fp @ ep = []" using fp ep nd by auto
  then have w1: "takeWhile isdigit (ip @ fp @ ep) = ip" using takeWhile_prefix t(4) by blast
  have "ep = [] \<or> \<not> isdigit (hd ep) \<and> hd ep \<noteq> CHR ''.''" using ep nd by auto
  then have w2: "fp = CHR ''.'' # ds \<Longrightarrow> \<forall>c\<in>set ds. isdigit c \<Longrightarrow> takeWhile isdigit (ds @ ep) = ds" for ds
    using takeWhile_prefix by blast
  have e: "snd (strtod_exponent ep) = length ep"
  proof (cases "ep = []")
    case True
    then show ?thesis by (simp add: strtod_exponent_def)
  next
    case False
    then show ?thesis using ep strtod_exponent_all by blast
  qed
  define sg where "sg = (t \<noteq> [] \<and> (hd t = CHR ''-'' \<or> hd t = CHR ''+''))"
  have sg: "sg = (m = ''-'')" "(if sg then tl t else t) = ip @ fp @ ep" "length m = (if sg then 1 else 0)"
    using t(1,2,3) hd by (auto simp: sg_def hd_append)
  have no_point: "fp = [] \<Longrightarrow> ep = [] \<or> hd ep \<noteq> CHR ''.''" using ep by auto
  show ?thesis
    unfolding strtod_def Let_def sg_def [symmetric] sg(2) w1
    using t(1,3) fp w2 e sg(3) no_point by (cases fp) (auto split: prod.split)
qed

lemma json_number_chars:
  assumes "json_number t"
  shows "\<forall>c\<in>set t. number_char c" "t \<noteq> []" "hd t = CHR ''-'' \<or> isdigit (hd t)"
proof -
  obtain m ip fp ep where t: "t = m @ ip @ fp @ ep" "m \<in> {[], ''-''}" "ip \<noteq> []" "\<forall>c\<in>set ip. isdigit c"
    and fp: "fp = [] \<or> (\<exists>ds. fp = CHR ''.'' # ds \<and> ds \<noteq> [] \<and> (\<forall>c\<in>set ds. isdigit c))"
    and ep: "ep = [] \<or> (\<exists>e sg ds. ep = e # sg @ ds \<and> e \<in> {CHR ''e'', CHR ''E''} \<and> sg \<in> {[], ''-'', ''+''}
      \<and> ds \<noteq> [] \<and> (\<forall>c\<in>set ds. isdigit c))"
    using assms unfolding json_number_def by blast
  then show "\<forall>c\<in>set t. number_char c" "t \<noteq> []" by (auto simp: number_char_def)
  show "hd t = CHR ''-'' \<or> isdigit (hd t)" using t by (auto simp: hd_append)
qed

section \<open>Positions\<close>

text \<open>The rest of the buffer from the offset on.\<close>

definition jat :: "parse_buffer \<Rightarrow> string \<Rightarrow> bool" where
  "jat b s \<longleftrightarrow> drop (joffset b) (jcontent b) = s"

lemma jat_Cons:
  assumes "jat b (c # s)"
  shows "can_access b 0" "peek_char b = c" "next_is b d \<longleftrightarrow> d = c"
proof -
  show a: "can_access b 0" using assms by (metis can_access_def jat_def drop_all add_0_right list.distinct(1) not_le)
  show p: "peek_char b = c" using assms a by (simp add: peek_char_def can_access_def jat_def nth_via_drop)
  show "next_is b d \<longleftrightarrow> d = c" using a p by (auto simp: next_is_def)
qed

lemma jat_advance: "\<lbrakk>jat b (t @ s); n = length t\<rbrakk> \<Longrightarrow> jat (advance_by n b) s"
  unfolding jat_def by (metis advance_simps(1,3) append_eq_conv_conj drop_drop add.commute)

lemma jat_deeper [simp]: "jat (deeper b) s = jat b s"
  by (simp add: jat_def)

lemma jat_skip:
  assumes "jat b (w @ c # s)" "ws w" "\<not> is_white c"
  shows "buffer_skip_whitespace b = advance_by (length w) b"
proof -
  have w: "\<forall>x\<in>set w. is_white x" using assms(2) by (auto simp: ws_def is_white_def)
  have "takeWhile is_white (w @ c # s) = w" using takeWhile_prefix [OF w] assms(3) by simp
  moreover have "can_access b 0" using assms(1) jat_Cons(1) by (cases w) auto
  moreover have "joffset b + length w \<noteq> length (jcontent b)"
    using assms(1) by (metis append_is_Nil_conv append_eq_conv_conj drop_drop drop_eq_Nil2 jat_def le_refl
        list.distinct(1) add.commute)
  ultimately show ?thesis
    using assms(1) by (simp add: buffer_skip_whitespace_def jat_def advance_by_def)
qed

lemma jat_reads:
  assumes "jat b s" "w \<noteq> []"
  shows "reads b w \<longleftrightarrow> take (length w) s = w"
proof -
  have "joffset b + length w \<le> length (jcontent b)" if "take (length w) s = w"
  proof -
    have "length w \<le> length s" using that by (metis length_take min.cobounded1 min.commute)
    then show ?thesis using assms by (cases w) (auto simp: jat_def)
  qed
  then show ?thesis using assms(1) by (auto simp: reads_def jat_def can_read_def)
qed

lemma advance_advance [simp]: "advance_by m (advance_by n b) = advance_by (n + m) b"
  by (simp add: advance_by_def)

section \<open>The parser accepts the grammar\<close>

lemma not_keyword:
  assumes "jat b (c # s)" "c \<notin> {CHR ''n'', CHR ''f'', CHR ''t''}"
  shows "\<not> reads b ''null''" "\<not> reads b ''false''" "\<not> reads b ''true''"
  using assms by (simp_all add: jat_reads)

lemma parse_string_text:
  assumes "str_text s t" "jat b (CHR 0x22 # t @ CHR 0x22 # r)"
  shows "parse_string b = Parsed (string_item (cstr s)) (advance_by (length t + 2) b)"
proof -
  have "drop (Suc (joffset b)) (jcontent b) = t @ CHR 0x22 # r"
    using assms(2) by (metis drop_Suc jat_def list.sel(3) tl_drop)
  moreover obtain k where "string_end (t @ CHR 0x22 # r) = Some (length t, k)" using str_text_end [OF assms(1)] by blast
  ultimately show ?thesis
    using str_text_unescape [OF assms(1)] jat_Cons(2) [OF assms(2)]
    by (simp add: parse_string_def string_item_def)
qed

lemma parse_number_text:
  assumes "json_number t" "length t \<le> 63" "jat b (t @ c # r)" "\<not> number_char c"
  shows "parse_number b = Parsed (number_item (fst (strtod t))) (advance_by (length t) b)"
proof -
  have "takeWhile number_char (take 63 (t @ c # r)) = t"
  proof (cases "length t = 63")
    case True
    then show ?thesis using takeWhile_prefix [OF json_number_chars(1) [OF assms(1)], of "[]"] by simp
  next
    case False
    then have "take 63 (t @ c # r) = t @ c # take (62 - length t) r" using assms(2) by (simp add: take_Cons')
    then show ?thesis using takeWhile_prefix [OF json_number_chars(1) [OF assms(1)]] assms(4) by simp
  qed
  moreover have "snd (strtod t) = length t" "t \<noteq> []" using strtod_all json_number_chars(2) assms(1) by blast+
  ultimately show ?thesis
    using assms(3) by (cases "strtod t") (simp add: parse_number_def jat_def number_item_def)
qed

lemma value_text_start:
  "value_text d v t \<Longrightarrow> \<exists>c u. t = c # u \<and> \<not> is_white c \<and> c \<notin> {CHR '']'', CHR 0x7D}"
proof (erule value_text.cases, goal_cases)
  case (5 t d)
  then have "t \<noteq> []" "hd t = CHR ''-'' \<or> isdigit (hd t)" using json_number_chars(2,3) by auto
  then show ?case using 5(3) by (cases t) (auto simp: is_white_def isdigit_def Let_def)
qed (auto simp: is_white_def)

lemma ws_start:
  "ws w \<Longrightarrow> \<not> number_char c \<Longrightarrow> \<exists>x u. w @ c # r = x # u \<and> \<not> number_char x"
  by (cases w) (auto simp: ws_def number_char_def isdigit_def)

lemma not_number: "\<not> number_char (CHR '','')" "\<not> number_char (CHR '']'')" "\<not> number_char (CHR 0x7D)"
  "\<not> number_char NUL"
  by (simp_all add: number_char_def isdigit_def NUL_def)

lemma not_white: "\<not> is_white (CHR '','')" "\<not> is_white (CHR '']'')" "\<not> is_white (CHR 0x7D)"
  "\<not> is_white (CHR '':'')" "\<not> is_white (CHR 0x22)"
  by (simp_all add: is_white_def)

text \<open>White space in front of a value or a separator is skipped.\<close>

lemma skip_to_value:
  assumes "value_text d v t" "ws w" "jat b (w @ t @ r)"
  shows "buffer_skip_whitespace b = advance_by (length w) b" "jat (advance_by (length w) b) (t @ r)"
  using value_text_start [OF assms(1)] jat_skip [OF _ assms(2)] jat_advance [OF assms(3) refl] assms(3) by auto

text \<open>The parser reads the text \<open>t\<close> as the value \<open>v\<close> wherever it stands.\<close>

definition parses :: "nat \<Rightarrow> cJSON \<Rightarrow> string \<Rightarrow> bool" where
  "parses d v t \<longleftrightarrow>
     (\<forall>b r c f. jat b (t @ c # r) \<longrightarrow> \<not> number_char c \<longrightarrow> jdepth b + d \<le> 1000 \<longrightarrow> 3 * length t \<le> f
        \<longrightarrow> parse_value f b = Parsed v (advance_by (length t) b))"

lemma parsesD:
  "\<lbrakk>parses d v t; jat b (t @ c # r); \<not> number_char c; jdepth b + d \<le> 1000; 3 * length t \<le> f\<rbrakk>
   \<Longrightarrow> parse_value f b = Parsed v (advance_by (length t) b)"
  unfolding parses_def by blast

text \<open>One element: the value, the white space around it and the separator \<open>c\<close>.\<close>

lemma element:
  assumes ih: "parses d v t"
    and "value_text d v t" "ws w1" "ws w2" "jat b (w1 @ t @ w2 @ c # r)" "\<not> number_char c" "\<not> is_white c"
    and "jdepth b + d \<le> 1000" "3 * length t \<le> f"
  shows "parse_value f (buffer_skip_whitespace b) = Parsed v (advance_by (length w1 + length t) b)"
    "buffer_skip_whitespace (advance_by (length w1 + length t) b) = advance_by (length w1 + length t + length w2) b"
    "jat (advance_by (length w1 + length t + length w2) b) (c # r)"
proof -
  have b1: "buffer_skip_whitespace b = advance_by (length w1) b" "jat (advance_by (length w1) b) (t @ w2 @ c # r)"
    using skip_to_value [OF assms(2,3)] assms(5) by auto
  obtain x u where x: "w2 @ c # r = x # u" "\<not> number_char x" using ws_start [OF assms(4,6)] by blast
  show "parse_value f (buffer_skip_whitespace b) = Parsed v (advance_by (length w1 + length t) b)"
    using parsesD [OF ih, of "advance_by (length w1) b" x u f] b1 x assms(8,9) by simp
  have b2: "jat (advance_by (length w1 + length t) b) (w2 @ c # r)" using jat_advance [OF b1(2) refl] by simp
  show "buffer_skip_whitespace (advance_by (length w1 + length t) b) = advance_by (length w1 + length t + length w2) b"
    using jat_skip [OF b2 assms(4,7)] by simp
  show "jat (advance_by (length w1 + length t + length w2) b) (c # r)" using jat_advance [OF b2 refl] by simp
qed

abbreviation strip :: "string \<Rightarrow> string" where
  "strip t \<equiv> dropWhile is_white t"

lemma strip_ws: "ws w \<Longrightarrow> \<not> is_white c \<Longrightarrow> strip (w @ c # s) = c # s"
  by (induction w) (auto simp: ws_def is_white_def)

lemma strip_value: "value_text d v t \<Longrightarrow> ws w \<Longrightarrow> strip (w @ t @ s) = t @ s"
  using value_text_start strip_ws by fastforce

lemma items_strip:
  "items_text d vs t \<Longrightarrow> \<exists>w c u. t = w @ strip t \<and> ws w \<and> strip t = c # u \<and> \<not> is_white c \<and> c \<noteq> CHR '']''"
proof (erule items_text.cases, goal_cases)
  case (1 w1 d v t w2)
  then show ?case using value_text_start [OF 1(5)] strip_value [OF 1(5,4), of w2] by auto
next
  case (2 w1 d v t w2 vs u)
  then show ?case using value_text_start [OF 2(5)] strip_value [OF 2(5,4), of "w2 @ CHR '','' # u"] by auto
qed

lemma members_strip:
  "members_text d vs t \<Longrightarrow> \<exists>w c u. t = w @ strip t \<and> ws w \<and> strip t = c # u \<and> \<not> is_white c \<and> c \<noteq> CHR 0x7D"
  by (erule members_text.cases) (auto simp: strip_ws not_white)

lemma close_list_at:
  assumes "jat b (c # r)"
  shows "close_list t c (Parsed vs b) = Parsed (list_item t vs) ((advance_by 1 b)\<lparr>jdepth := jdepth b - 1\<rparr>)"
  using assms jat_Cons(3) by (simp add: close_list_def list_item_def)

lemma undeep: "(advance_by n (advance_by m (deeper b)))\<lparr>jdepth := jdepth b\<rparr> = advance_by (m + n) b"
  by (simp add: advance_by_def deeper_def)

lemma step_back_advance [simp]: "step_back (advance_by (Suc n) b) = advance_by n b"
  by (simp add: step_back_def advance_by_def)

text \<open>Arrays and objects with elements, from the lemma about their elements.\<close>

lemma list_text:
  assumes parse: "\<And>g b. parse g b = (if jdepth b \<ge> CJSON_NESTING_LIMIT then Failed
      else if \<not> next_is b oc then Failed
      else let b1 = buffer_skip_whitespace (advance_by 1 (deeper b)) in
        if next_is b1 cc then close_list ty cc (Parsed [] b1)
        else if \<not> can_access b1 0 then Failed else close_list ty cc (items g (step_back b1)))"
    and t: "t = w @ strip t" "ws w" "strip t = c # u" "\<not> is_white c" "c \<noteq> cc"
    and at: "jat b (oc # t @ cc # r)" "jdepth b + Suc d \<le> 1000"
    and ih: "\<And>b x. jat b (x # strip t @ cc # r) \<Longrightarrow> jdepth b + d \<le> 1000
      \<Longrightarrow> items g b = Parsed vs (advance_by (Suc (length (strip t))) b)"
  shows "parse g b = Parsed (list_item ty vs) (advance_by (length t + 2) b)"
proof -
  have at0: "jat b (oc # w @ strip t @ cc # r)" using at(1) t(1) by (metis append.assoc)
  have at1: "jat (advance_by 1 (deeper b)) (w @ c # u @ cc # r)"
    using jat_advance [of "deeper b" "[oc]" "w @ strip t @ cc # r" 1] at0 t(3) by simp
  have sk: "buffer_skip_whitespace (advance_by 1 (deeper b)) = advance_by (Suc (length w)) (deeper b)"
    using jat_skip [OF at1 t(2,4)] by simp
  have at2: "jat (advance_by (Suc (length w)) (deeper b)) (c # u @ cc # r)" using jat_advance [OF at1 refl] by simp
  have "\<exists>x. jat (advance_by (length w) (deeper b)) (x # strip t @ cc # r)"
  proof (cases w rule: rev_cases)
    case Nil
    then show ?thesis using at0 jat_advance [of "deeper b" "[]"] by auto
  next
    case (snoc w' x)
    then show ?thesis using jat_advance [of "deeper b" "oc # w'" "x # strip t @ cc # r" "length w"] at0 by auto
  qed
  then have "items g (advance_by (length w) (deeper b)) = Parsed vs (advance_by (Suc (length w + length (strip t))) (deeper b))"
    using ih at(2) by fastforce
  moreover have "jat (advance_by (Suc (length w + length (strip t))) (deeper b)) (cc # r)"
    using jat_advance [of "advance_by (Suc (length w)) (deeper b)" "c # u" "cc # r"] at2 t(3)
    by simp
  ultimately have "close_list ty cc (items g (advance_by (length w) (deeper b)))
      = Parsed (list_item ty vs) (advance_by (length t + 2) b)"
    using close_list_at undeep [where n = 1 and m = "Suc (length w + length (strip t))" and b = b] arg_cong [OF t(1), of length] by simp
  moreover have "next_is b oc" "\<not> CJSON_NESTING_LIMIT \<le> jdepth b"
    using jat_Cons(3) [OF at(1)] at(2) by (simp_all add: CJSON_NESTING_LIMIT_def)
  moreover have "\<not> next_is (advance_by (Suc (length w)) (deeper b)) cc" "can_access (advance_by (Suc (length w)) (deeper b)) 0"
    using jat_Cons(1,3) [OF at2] t(5) by auto
  ultimately show ?thesis unfolding parse sk by simp
qed

lemma empty_list_text:
  assumes "ws w" "\<not> is_white cc" "jat b (oc # w @ cc # r)"
  shows "buffer_skip_whitespace (advance_by 1 (deeper b)) = advance_by (Suc (length w)) (deeper b)"
    "jat (advance_by (Suc (length w)) (deeper b)) (cc # r)"
    "close_list ty cc (Parsed [] (advance_by (Suc (length w)) (deeper b)))
      = Parsed (list_item ty []) (advance_by (length w + 2) b)"
proof -
  have at1: "jat (advance_by 1 (deeper b)) (w @ cc # r)"
    using jat_advance [of "deeper b" "[oc]" "w @ cc # r" 1] assms(3) by simp
  show "buffer_skip_whitespace (advance_by 1 (deeper b)) = advance_by (Suc (length w)) (deeper b)"
    using jat_skip [OF at1 assms(1,2)] by simp
  show at2: "jat (advance_by (Suc (length w)) (deeper b)) (cc # r)" using jat_advance [OF at1 refl] by simp
  show "close_list ty cc (Parsed [] (advance_by (Suc (length w)) (deeper b)))
      = Parsed (list_item ty []) (advance_by (length w + 2) b)"
    using close_list_at [OF at2] undeep [where n = 1 and m = "Suc (length w)" and b = b] by simp
qed

lemma parse_array_eq:
  "parse_array (Suc g) b = (if jdepth b \<ge> CJSON_NESTING_LIMIT then Failed
      else if \<not> next_is b (CHR ''['') then Failed
      else let b1 = buffer_skip_whitespace (advance_by 1 (deeper b)) in
        if next_is b1 (CHR '']'') then close_list cJSON_Array (CHR '']'') (Parsed [] b1)
        else if \<not> can_access b1 0 then Failed else close_list cJSON_Array (CHR '']'') (array_items g (step_back b1)))"
  by (simp add: next_is_def peek_char_def NUL_def)

lemma parse_value_other:
  assumes "jat b (c # s)" "c \<notin> {CHR ''n'', CHR ''f'', CHR ''t''}"
  shows "parse_value (Suc f) b =
    (if c = CHR 0x22 then parse_string b else if c = CHR ''-'' \<or> isdigit c then parse_number b
     else if c = CHR ''['' then parse_array f b else if c = CHR 0x7B then parse_object f b else Failed)"
  using not_keyword [OF assms] jat_Cons [OF assms(1)] by (auto simp: digit_start_def)

text \<open>One member of an object: the name, the colon, the value and the separator \<open>c\<close>.\<close>

lemma member:
  assumes ih: "parses d v t"
    and "value_text d v t" "str_text k kt" "ws w" "ws w2" "ws w3" "ws w4"
    and at: "jat b (x # w @ CHR 0x22 # kt @ CHR 0x22 # w2 @ CHR '':'' # w3 @ t @ w4 @ c # r)"
    and "\<not> number_char c" "\<not> is_white c" "jdepth b + d \<le> 1000" "3 * length t \<le> f"
    and n: "n3 = length w + length kt + length w2 + 3" "n5 = n3 + length w3 + length t + length w4 + 1"
  shows "parse_string (buffer_skip_whitespace (advance_by 1 b))
      = Parsed (string_item (cstr k)) (advance_by (length w + length kt + 3) b)"
    "buffer_skip_whitespace (advance_by (length w + length kt + 3) b) = advance_by n3 b"
    "next_is (advance_by n3 b) (CHR '':'')"
    "parse_value f (buffer_skip_whitespace (advance_by (Suc n3) b)) = Parsed v (advance_by (n3 + length w3 + length t + 1) b)"
    "buffer_skip_whitespace (advance_by (n3 + length w3 + length t + 1) b) = advance_by n5 b"
    "jat (advance_by n5 b) (c # r)"
proof -
  define rest where "rest = w3 @ t @ w4 @ c # r"
  have at1: "jat (advance_by 1 b) (w @ CHR 0x22 # kt @ CHR 0x22 # w2 @ CHR '':'' # rest)"
    using jat_advance [of b "[x]" _ 1] at by (simp add: rest_def)
  have at2: "jat (advance_by (length w + 1) b) (CHR 0x22 # kt @ CHR 0x22 # w2 @ CHR '':'' # rest)"
    using jat_advance [OF at1 refl] by simp
  show "parse_string (buffer_skip_whitespace (advance_by 1 b))
      = Parsed (string_item (cstr k)) (advance_by (length w + length kt + 3) b)"
    using parse_string_text [OF assms(3) at2] jat_skip [OF at1 assms(4) not_white(5)]
    by (simp add: algebra_simps numeral_3_eq_3)
  have at3: "jat (advance_by (length w + length kt + 3) b) (w2 @ CHR '':'' # rest)"
    using jat_advance [of "advance_by (length w + 1) b" "CHR 0x22 # kt @ [CHR 0x22]" "w2 @ CHR '':'' # rest"] at2
    by (simp add: algebra_simps numeral_3_eq_3)
  show sk3: "buffer_skip_whitespace (advance_by (length w + length kt + 3) b) = advance_by n3 b"
    using jat_skip [OF at3 assms(5) not_white(4)] by (simp add: n algebra_simps)
  have at4: "jat (advance_by n3 b) (CHR '':'' # rest)"
    using jat_advance [OF at3 refl] by (simp add: n algebra_simps)
  then show "next_is (advance_by n3 b) (CHR '':'')" using jat_Cons(3) by blast
  have at5: "jat (advance_by (Suc n3) b) (w3 @ t @ w4 @ c # r)"
    using jat_advance [of "advance_by n3 b" "[CHR '':'']" rest 1] at4 by (simp add: rest_def)
  have "jdepth (advance_by (Suc n3) b) + d \<le> 1000" using assms(11) by simp
  note el = element [OF ih assms(2,6,7) at5 assms(9,10) this assms(12)]
  show "parse_value f (buffer_skip_whitespace (advance_by (Suc n3) b)) = Parsed v (advance_by (n3 + length w3 + length t + 1) b)"
    using el(1) by (simp add: algebra_simps)
  show "buffer_skip_whitespace (advance_by (n3 + length w3 + length t + 1) b) = advance_by n5 b"
    using el(2) by (simp add: n(2) algebra_simps)
  show "jat (advance_by n5 b) (c # r)" using el(3) by (simp add: n(2) algebra_simps)
qed

lemma adv_Suc: "advance_by 1 (advance_by n b) = advance_by (Suc n) b"
  by simp

lemma char_neq: "(CHR '','' = CHR 0x7D) = False"
  by simp

lemma object_items_step:
  assumes "parse_string (buffer_skip_whitespace (advance_by 1 b)) = Parsed (string_item k) b2"
    and "buffer_skip_whitespace b2 = b3" "next_is b3 (CHR '':'')"
    and "parse_value g (buffer_skip_whitespace (advance_by 1 b3)) = Parsed v b4" "buffer_skip_whitespace b4 = b5"
  shows "object_items (Suc g) b =
    (if next_is b5 (CHR '','') then
       (case object_items g b5 of Failed \<Rightarrow> Failed | OutOfFuel \<Rightarrow> OutOfFuel
        | Parsed vs b6 \<Rightarrow> Parsed (set_string k v # vs) b6)
     else Parsed [set_string k v] b5)"
  using assms by (simp add: string_item_def)

lemma parse_text:
  "value_text d v t \<Longrightarrow> jat b (t @ c # r) \<Longrightarrow> \<not> number_char c \<Longrightarrow> jdepth b + d \<le> 1000 \<Longrightarrow> 3 * length t \<le> f
   \<Longrightarrow> parse_value f b = Parsed v (advance_by (length t) b)"
  "items_text d vs t \<Longrightarrow> jat b (x # w @ strip t @ CHR '']'' # r) \<Longrightarrow> ws w \<Longrightarrow> jdepth b + d \<le> 1000
   \<Longrightarrow> 3 * (length w + length (strip t)) < f
   \<Longrightarrow> array_items f b = Parsed vs (advance_by (Suc (length w + length (strip t))) b)"
  "members_text d vs t \<Longrightarrow> jat b (x # w @ strip t @ CHR 0x7D # r) \<Longrightarrow> ws w \<Longrightarrow> jdepth b + d \<le> 1000
   \<Longrightarrow> 3 * (length w + length (strip t)) < f
   \<Longrightarrow> object_items f b = Parsed vs (advance_by (Suc (length w + length (strip t))) b)"
proof (induction d v t and d vs t and d vs t arbitrary: b c r f and b x w r f and b x w r f
    rule: value_text_items_text_members_text.inducts)
  case (v_null d)
  then show ?case by (cases f) (simp_all add: jat_reads)
next
  case (v_false d)
  then show ?case by (cases f) (simp_all add: jat_reads)
next
  case (v_true d)
  then show ?case by (cases f) (simp_all add: jat_reads true_item_def)
next
  case (v_string s t d)
  then show ?case
    using parse_string_text [OF v_string(1), of b "c # r"] parse_value_other [of b "CHR 0x22" "t @ CHR 0x22 # c # r"]
    by (cases f) simp_all
next
  case (v_number t d)
  have t: "t \<noteq> []" "hd t = CHR ''-'' \<or> isdigit (hd t)" using json_number_chars v_number(1) by blast+
  have "jat b (hd t # tl t @ c # r)" using v_number(3) t(1) by (metis append_Cons list.collapse)
  moreover have "hd t \<notin> {CHR ''n'', CHR ''f'', CHR ''t'', CHR 0x22}" using t(2) by (auto simp: isdigit_def)
  ultimately show ?case
    using parse_number_text [OF v_number(1,2,3,4)] parse_value_other [of b "hd t" "tl t @ c # r"] t v_number(6)
    by (cases f) auto
next
  case (v_empty_array w d)
  then obtain g where f: "f = Suc (Suc g)" by (cases f; cases "f - 1") auto
  have at: "jat b (CHR ''['' # w @ CHR '']'' # c # r)" using v_empty_array(2) by simp
  note e = empty_list_text [OF v_empty_array(1) not_white(2) at]
  show ?case
    using parse_value_other [OF at, of "Suc g"] v_empty_array(4) jat_Cons(3) [OF at] jat_Cons(3) [OF e(2)] e(1,3)
    unfolding f parse_array_eq by (simp add: isdigit_def CJSON_NESTING_LIMIT_def)
next
  case (v_empty_object w d)
  then obtain g where f: "f = Suc (Suc g)" by (cases f; cases "f - 1") auto
  have at: "jat b (CHR 0x7B # w @ CHR 0x7D # c # r)" using v_empty_object(2) by simp
  note e = empty_list_text [OF v_empty_object(1) not_white(3) at]
  show ?case
    using parse_value_other [OF at, of "Suc g"] v_empty_object(4) jat_Cons(3) [OF at] jat_Cons(3) [OF e(2)] e(1,3)
    unfolding f by (simp add: isdigit_def CJSON_NESTING_LIMIT_def)
next
  case (v_array d vs t)
  then obtain g where f: "f = Suc (Suc g)" by (cases f; cases "f - 1") auto
  obtain w c1 u where s: "t = w @ strip t" "ws w" "strip t = c1 # u" "\<not> is_white c1" "c1 \<noteq> CHR '']''"
    using items_strip [OF v_array(1)] by blast
  have len: "3 * length (strip t) < g" using v_array(6) f arg_cong [OF s(1), of length] by simp
  have at: "jat b (CHR ''['' # t @ CHR '']'' # c # r)" using v_array(3) by simp
  have "parse_array (Suc g) b = Parsed (list_item cJSON_Array vs) (advance_by (length t + 2) b)"
  proof (rule list_text [where parse = "\<lambda>g. parse_array (Suc g)", OF parse_array_eq s at v_array(5)])
    fix b' x
    assume "jat b' (x # strip t @ CHR '']'' # c # r)" "jdepth b' + d \<le> 1000"
    then show "array_items g b' = Parsed vs (advance_by (Suc (length (strip t))) b')"
      using v_array(2) [of b' x "[]" "c # r" g] len by (simp add: ws_def)
  qed
  then show ?case using parse_value_other [OF at, of "Suc g"] unfolding f by (simp add: isdigit_def)
next
  case (v_object d vs t)
  then obtain g where f: "f = Suc (Suc g)" by (cases f; cases "f - 1") auto
  obtain w c1 u where s: "t = w @ strip t" "ws w" "strip t = c1 # u" "\<not> is_white c1" "c1 \<noteq> CHR 0x7D"
    using members_strip [OF v_object(1)] by blast
  have len: "3 * length (strip t) < g" using v_object(6) f arg_cong [OF s(1), of length] by simp
  have at: "jat b (CHR 0x7B # t @ CHR 0x7D # c # r)" using v_object(3) by simp
  have "parse_object (Suc g) b = Parsed (list_item cJSON_Object vs) (advance_by (length t + 2) b)"
  proof (rule list_text [where parse = "\<lambda>g. parse_object (Suc g)", OF parse_object.simps(2) s at v_object(5)])
    fix b' x
    assume "jat b' (x # strip t @ CHR 0x7D # c # r)" "jdepth b' + d \<le> 1000"
    then show "object_items g b' = Parsed vs (advance_by (Suc (length (strip t))) b')"
      using v_object(2) [of b' x "[]" "c # r" g] len by (simp add: ws_def)
  qed
  then show ?case using parse_value_other [OF at, of "Suc g"] unfolding f by (simp add: isdigit_def)
next
  case (i_one w1 d v t w2)
  have ih: "parses d v t" unfolding parses_def using i_one(4) by blast
  obtain g where f: "f = Suc g" using i_one(8) by (cases f) auto
  have st: "strip (w1 @ t @ w2) = t @ w2" using strip_value i_one(1,2) by blast
  have at: "jat (advance_by 1 b) (w @ t @ w2 @ CHR '']'' # r)"
    using jat_advance [of b "[x]" "w @ t @ w2 @ CHR '']'' # r" 1] i_one(5) st by simp
  have "parse_value g (buffer_skip_whitespace (advance_by 1 b)) = Parsed v (advance_by (length w + length t) (advance_by 1 b))"
    "buffer_skip_whitespace (advance_by (length w + length t) (advance_by 1 b))
      = advance_by (length w + length t + length w2) (advance_by 1 b)"
    "jat (advance_by (length w + length t + length w2) (advance_by 1 b)) (CHR '']'' # r)"
    using element [OF ih i_one(2) i_one(6) i_one(3) at not_number(2) not_white(2), where f = g] i_one(7,8) f st by simp_all
  then show ?case using f st jat_Cons(3) by (simp add: Let_def add.assoc)
next
  case (i_more w1 d v t w2 vs u)
  have ih: "parses d v t" unfolding parses_def using i_more(5) by blast
  obtain g where f: "f = Suc g" using i_more(10) by (cases f) auto
  have st: "strip (w1 @ t @ w2 @ CHR '','' # u) = t @ w2 @ CHR '','' # u" using strip_value i_more(1,2) by blast
  have at: "jat (advance_by 1 b) (w @ t @ w2 @ CHR '','' # u @ CHR '']'' # r)"
    using jat_advance [of b "[x]" "w @ t @ w2 @ CHR '','' # u @ CHR '']'' # r" 1] i_more(7) st by simp
  let ?b3 = "advance_by (length w + length t + length w2) (advance_by 1 b)"
  have el: "parse_value g (buffer_skip_whitespace (advance_by 1 b)) = Parsed v (advance_by (length w + length t) (advance_by 1 b))"
    "buffer_skip_whitespace (advance_by (length w + length t) (advance_by 1 b)) = ?b3"
    "jat ?b3 (CHR '','' # u @ CHR '']'' # r)"
    using element [OF ih i_more(2) i_more(8) i_more(3) at not_number(1) not_white(1), where f = g] i_more(9,10) f st by simp_all
  obtain w' where s: "u = w' @ strip u" "ws w'" using items_strip [OF i_more(4)] by blast
  have lu: "length u = length w' + length (strip u)" using s(1) by (metis length_append)
  have "jat ?b3 (CHR '','' # w' @ strip u @ CHR '']'' # r)" using el(3) s(1) by (metis append.assoc)
  then have "array_items g ?b3 = Parsed vs (advance_by (Suc (length u)) ?b3)"
    using i_more(6) [of ?b3 "CHR '',''" w' r g] s(2) i_more(9,10) f st lu by simp
  then show ?case using el f st jat_Cons(3) [OF el(3)] by (simp add: Let_def add.assoc)
next
  case (m_one w1 k kt w2 w3 d v t w4)
  have ih: "parses d v t" unfolding parses_def using m_one(7) by blast
  obtain g where f: "f = Suc g" using m_one(11) by (cases f) auto
  have st: "strip (w1 @ (CHR 0x22 # kt @ [CHR 0x22]) @ w2 @ CHR '':'' # w3 @ t @ w4)
      = CHR 0x22 # kt @ CHR 0x22 # w2 @ CHR '':'' # w3 @ t @ w4"
    using strip_ws [OF m_one(1) not_white(5)] by simp
  have at: "jat b (x # w @ CHR 0x22 # kt @ CHR 0x22 # w2 @ CHR '':'' # w3 @ t @ w4 @ CHR 0x7D # r)"
    using m_one(8) unfolding st by simp
  have le: "3 * length t \<le> g" using m_one(11) unfolding st f by simp
  note m = member [OF ih m_one(5,2,9,3,4,6) at not_number(3) not_white(3) m_one(10) le refl refl]
  let ?b5 = "advance_by (length w + length kt + length w2 + 3 + length w3 + length t + length w4 + 1) b"
  have "object_items (Suc g) b = Parsed [set_string (cstr k) v] ?b5"
    using object_items_step [OF m(1,2,3) m(4) [folded adv_Suc] m(5)] jat_Cons(3) [OF m(6)] by (simp only: char_neq if_False)
  then show ?case unfolding st f by (simp add: ac_simps numeral_3_eq_3)
next
  case (m_more w1 k kt w2 w3 d v t w4 vs u)
  have ih: "parses d v t" unfolding parses_def using m_more(8) by blast
  obtain g where f: "f = Suc g" using m_more(13) by (cases f) auto
  have st: "strip (w1 @ (CHR 0x22 # kt @ [CHR 0x22]) @ w2 @ CHR '':'' # w3 @ t @ w4 @ CHR '','' # u)
      = CHR 0x22 # kt @ CHR 0x22 # w2 @ CHR '':'' # w3 @ t @ w4 @ CHR '','' # u"
    using strip_ws [OF m_more(1) not_white(5)] by simp
  have at: "jat b (x # w @ CHR 0x22 # kt @ CHR 0x22 # w2 @ CHR '':'' # w3 @ t @ w4 @ CHR '','' # u @ CHR 0x7D # r)"
    using m_more(10) unfolding st by simp
  have le: "3 * length t \<le> g" using m_more(13) unfolding st f by simp
  note m = member [OF ih m_more(5,2,11,3,4,6) at not_number(1) not_white(1) m_more(12) le refl refl]
  let ?b5 = "advance_by (length w + length kt + length w2 + 3 + length w3 + length t + length w4 + 1) b"
  obtain w' where s: "u = w' @ strip u" "ws w'" using members_strip [OF m_more(7)] by blast
  have lu: "length u = length w' + length (strip u)" using s(1) by (metis length_append)
  have at5: "jat ?b5 (CHR '','' # w' @ strip u @ CHR 0x7D # r)" using m(6) s(1) by (metis append.assoc)
  have d5: "jdepth ?b5 + d \<le> 1000" using m_more(12) by simp
  have g5: "3 * (length w' + length (strip u)) < g" using m_more(13) lu unfolding st f by simp
  have ob: "object_items g ?b5 = Parsed vs (advance_by (Suc (length u)) ?b5)"
    unfolding lu by (rule m_more(9) [OF at5 s(2) d5 g5])
  have "object_items (Suc g) b = Parsed (set_string (cstr k) v # vs) (advance_by (Suc (length u)) ?b5)"
    using object_items_step [OF m(1,2,3) m(4) [folded adv_Suc] m(5)] jat_Cons(3) [OF m(6)] ob
    by (simp only: if_True parsed.case HOL.simp_thms)
  then show ?case unfolding st f by (simp add: ac_simps numeral_3_eq_3)
qed

section \<open>Whole documents\<close>

lemma value_text_first:
  "value_text d v t \<Longrightarrow> ws w \<Longrightarrow> \<exists>c u. w @ t = c # u \<and> c \<noteq> CHR 0xEF"
proof (cases w)
  case Nil
  assume "value_text d v t"
  then have "\<exists>c u. t = c # u \<and> c \<noteq> CHR 0xEF"
  proof (rule value_text.cases, goal_cases)
    case (5 t d)
    then have "t \<noteq> []" "hd t = CHR ''-'' \<or> isdigit (hd t)" using json_number_chars(2,3) by auto
    then show ?case using 5(3) by (cases t) (auto simp: isdigit_def)
  qed auto
  then show ?thesis using Nil by simp
qed (auto simp: ws_def)

lemma skip_to_end:
  assumes "jat b (w @ [NUL])" "ws w"
  shows "next_is (buffer_skip_whitespace b) NUL"
proof -
  have w: "\<forall>x\<in>set (w @ [NUL]). is_white x" using assms(2) by (auto simp: ws_def is_white_def NUL_def)
  have len: "joffset b + length (w @ [NUL]) = length (jcontent b)"
    using assms(1) unfolding jat_def by (metis length_drop le_add_diff_inverse append_is_Nil_conv drop_eq_Nil2 list.distinct(1) nat_le_linear)
  have "takeWhile is_white (drop (joffset b) (jcontent b)) = w @ [NUL]"
    using w assms(1) unfolding jat_def by (metis takeWhile_eq_all_conv)
  then have "buffer_skip_whitespace b = advance_by (length w) b"
    using len by (simp add: buffer_skip_whitespace_def advance_by_def can_access_def)
  moreover have "jat (advance_by (length w) b) [NUL]" using jat_advance [OF assms(1) refl] by simp
  ultimately show ?thesis using jat_Cons(3) by simp
qed

lemma parse_document:
  assumes "value_text 1000 v t" "ws w1" "ws w2"
  shows "\<exists>b. cJSON_ParseWithOpts (w1 @ t @ w2) r = Parsed v b"
proof -
  let ?s = "w1 @ t @ w2 @ [NUL]"
  let ?b = "\<lparr>jcontent = ?s, joffset = 0, jdepth = 0\<rparr>"
  have at: "jat ?b (w1 @ t @ w2 @ [NUL])" by (simp add: jat_def)
  obtain c u where c: "w1 @ t = c # u" "c \<noteq> CHR 0xEF" using value_text_first [OF assms(1,2)] by blast
  then have "?s = c # u @ w2 @ [NUL]" by (metis append_Cons append.assoc)
  then have "take 3 ?s \<noteq> [CHR 0xEF, CHR 0xBB, CHR 0xBF]" using c(2) by (simp only: take_Suc_Cons numeral_3_eq_3) simp
  then have bom: "skip_utf8_bom ?b = ?b" unfolding skip_utf8_bom_def by simp
  note sk = skip_to_value [OF assms(1,2) at]
  obtain x y where x: "w2 @ [NUL] = x # y" "\<not> number_char x" using ws_start [OF assms(3) not_number(4)] by blast
  have pv: "parse_value (parse_fuel ?s) (advance_by (length w1) ?b) = Parsed v (advance_by (length w1 + length t) ?b)"
    using parse_text(1) [OF assms(1), of "advance_by (length w1) ?b" x y "parse_fuel ?s"] sk(2) x
    by (simp add: parse_fuel_def)
  have "jat (advance_by (length w1 + length t) ?b) (w2 @ [NUL])" using jat_advance [OF sk(2) refl] by simp
  then have "next_is (buffer_skip_whitespace (advance_by (length w1 + length t) ?b)) NUL"
    using skip_to_end assms(3) by blast
  then show ?thesis
    using bom sk(1) pv by (simp add: cJSON_ParseWithOpts_def cJSON_ParseWithLengthOpts_def Let_def)
qed

end
