(* ===== verification/CJsonProps.thy ===== *)
theory CJsonProps
  imports CJsonGrammar
begin

text \<open>
  The properties of the parser: it returns for every input, it reads every JSON text, and
  the string reader stays inside the buffer it allocates.
\<close>

section \<open>The size of an unescaped string\<close>

text \<open>
  The escapes that start in a text, and whether the text ends inside one; the flag tells
  whether the text starts behind a backslash.
\<close>

fun escapes :: "bool \<Rightarrow> string \<Rightarrow> nat" where
  "escapes b [] = 0"
| "escapes True (c # s) = escapes False s"
| "escapes False (c # s) = (if c = CHR 0x5C then Suc (escapes True s) else escapes False s)"

fun in_escape :: "bool \<Rightarrow> string \<Rightarrow> bool" where
  "in_escape b [] = b"
| "in_escape True (c # s) = in_escape False s"
| "in_escape False (c # s) = in_escape (c = CHR 0x5C) s"

lemma escapes_append: "escapes b (s @ t) = escapes b s + escapes (in_escape b s) t"
  by (induction b s rule: escapes.induct) auto

lemma in_escape_append: "in_escape b (s @ t) = in_escape (in_escape b s) t"
  by (induction b s rule: in_escape.induct) auto

lemma escapes_bound: "2 * escapes b s \<le> length s + (if b then 0 else 1)"
  by (induction b s rule: escapes.induct) (auto split: if_splits)

lemma string_end_escapes:
  "string_end s = Some (n, k) \<Longrightarrow> n \<le> length s \<and> k = escapes False (take n s) \<and> \<not> in_escape False (take n s)"
proof (induction s arbitrary: n k rule: string_end.induct)
  case (2 c s)
  consider "c = CHR 0x22" | d s' where "c = CHR 0x5C" "s = d # s'" | "c \<noteq> CHR 0x22" "c \<noteq> CHR 0x5C"
    using 2(3) by (cases s) (auto split: if_splits)
  then show ?case
  proof cases
    case (2 d s')
    then show ?thesis using \<open>string_end (c # s) = Some (n, k)\<close> "2.IH"(1) [of d s'] by auto
  next
    case 3
    then show ?thesis using \<open>string_end (c # s) = Some (n, k)\<close> "2.IH"(2) by auto
  qed (use 2(3) in simp)
qed simp

lemma utf8_encode_length: "length (utf8_encode cp) \<le> 4" "cp < 0x10000 \<Longrightarrow> length (utf8_encode cp) \<le> 3"
  "length (utf8_encode 0) = 1"
  by (auto simp: utf8_encode_def)

text \<open>The characters an escape \<open>\u\<close> uses leave room for the bytes it gives.\<close>

lemma utf16_room:
  assumes "utf16_literal_to_utf8 n s = Some (bytes, m)"
  shows "m \<le> n" "2 * length bytes \<le> m" "even m"
proof -
  have "m = 6 \<and> length bytes \<le> 3 \<and> 6 \<le> n \<or> m = 12 \<and> length bytes \<le> 4 \<and> 12 \<le> n"
    using assms utf8_encode_length(1) utf8_encode_length(2) [OF parse_hex4_less]
    by (auto simp: utf16_literal_to_utf8_def Let_def split: if_splits)
  then show "m \<le> n" "2 * length bytes \<le> m" "even m" by auto
qed

lemma room:
  assumes "length out1 + escapes (in_escape b (take m s)) (take (n - m) (drop m s)) \<le> n - m"
    and "2 * length out0 \<le> m" "even m" "m \<le> n"
  shows "length (out0 @ out1) + escapes b (take n s) \<le> n"
proof -
  have "take n s = take m s @ take (n - m) (drop m s)" using assms(4) by (metis le_add_diff_inverse take_add)
  then have "escapes b (take n s) = escapes b (take m s) + escapes (in_escape b (take m s)) (take (n - m) (drop m s))"
    by (simp add: escapes_append)
  moreover have "2 * escapes b (take m s) \<le> m + 1" using escapes_bound [of b "take m s"] by (auto split: if_splits)
  then have "2 * escapes b (take m s) \<le> m" using assms(3) by presburger
  ultimately show ?thesis using assms by simp
qed

lemma unescape_cases:
  "unescape n [] = ([], n = 0)"
  "unescape 0 s = ([], True)"
  "\<lbrakk>n \<noteq> 0; c \<noteq> CHR 0x5C\<rbrakk> \<Longrightarrow> unescape n (c # s) = apfst ((#) c) (unescape (n - 1) s)"
  "n \<noteq> 0 \<Longrightarrow> unescape n [CHR 0x5C] = ([], False)"
  "\<lbrakk>n \<noteq> 0; d \<noteq> CHR ''u''\<rbrakk> \<Longrightarrow> unescape n (CHR 0x5C # d # s) =
     (case simple_escape d of None \<Rightarrow> ([], False) | Some e \<Rightarrow> apfst ((#) e) (unescape (n - 2) s))"
  "n \<noteq> 0 \<Longrightarrow> unescape n (CHR 0x5C # CHR ''u'' # s) =
     (case utf16_literal_to_utf8 n (CHR 0x5C # CHR ''u'' # s) of None \<Rightarrow> ([], False)
      | Some (bytes, k) \<Rightarrow> if k = 0 then ([], False)
          else apfst ((@) bytes) (unescape (n - k) (drop k (CHR 0x5C # CHR ''u'' # s))))"
  by (subst unescape.simps, simp)+

text \<open>Nothing written yet: there is room for all that was promised.\<close>

lemma room_start: "n \<noteq> 0 \<Longrightarrow> n \<le> length s \<Longrightarrow> escapes b (take n s) \<le> n"
  using escapes_bound [of b "take n s"] by (auto split: if_splits)

lemma unescape_room:
  assumes "n \<le> length s" "\<not> in_escape b (take n s)"
  shows "length (fst (unescape n s)) + escapes b (take n s) \<le> n"
  using assms
proof (induction n s arbitrary: b rule: unescape.induct)
  case (1 n s)
  show ?case
  proof (cases "n = 0")
    case True
    then show ?thesis using "1.prems" by (auto simp: unescape_cases)
  next
    case False
    then obtain c s' where s: "s = c # s'" "n \<noteq> 0" using "1.prems"(1) by (cases s) auto
    have start: "escapes b (take n s) \<le> n" using room_start False "1.prems"(1) by blast
    have split: "take n s = take m s @ take (n - m) (drop m s)" if "m \<le> n" for m
      using that by (metis le_add_diff_inverse take_add)
    show ?thesis
    proof (cases "c = CHR 0x5C")
      case False
      have "\<not> in_escape False (take (n - 1) s')" "escapes b (take n s) = escapes False (take (n - 1) s')"
        using "1.prems"(2) s False by (cases b; cases n; simp)+
      moreover have "n - 1 \<le> length s'" using "1.prems"(1) s by simp
      ultimately have "length (fst (unescape (n - 1) s')) + escapes b (take n s) \<le> n - 1"
        using "1.IH"(1) [OF s(2) s(1) False] by metis
      then show ?thesis using False s by (simp add: unescape_cases)
    next
      case c: True
      show ?thesis
      proof (cases s')
        case Nil
        then show ?thesis using c s start by (simp add: unescape_cases)
      next
        case d: (Cons d s'')
        consider (u) bytes m where "d = CHR ''u''" "utf16_literal_to_utf8 n s = Some (bytes, m)" "m \<noteq> 0"
          | (simple) e where "d \<noteq> CHR ''u''" "simple_escape d = Some e"
          | (stop) "fst (unescape n s) = []"
        proof (cases "d = CHR ''u''")
          case True
          have "0 < m" if "utf16_literal_to_utf8 n s = Some (bytes, m)" for bytes m
            using that by (auto simp: utf16_literal_to_utf8_def Let_def split: if_splits)
          with True show thesis
            using that(1,3) s c d by (cases "utf16_literal_to_utf8 n s") (auto simp: unescape_cases)
        next
          case False
          then show thesis using that(2,3) s c d by (cases "simple_escape d") (auto simp: unescape_cases)
        qed
        then show ?thesis
        proof cases
          case u
          note r = utf16_room [OF u(2)]
          have "\<not> in_escape (in_escape b (take m s)) (take (n - m) (drop m s))"
            using "1.prems"(2) split [OF r(1)] by (simp add: in_escape_append)
          then have "length (fst (unescape (n - m) (drop m s)))
              + escapes (in_escape b (take m s)) (take (n - m) (drop m s)) \<le> n - m"
            using "1.IH"(2) [OF s(2) s(1) _ d u(1) u(2) refl u(3)] "1.prems"(1) c by simp
          from room [OF this r(2,3,1)] show ?thesis using u s c d by (simp add: unescape_cases)
        next
          case simple
          show ?thesis
          proof (cases "n = 1")
            case True
            then have b using "1.prems"(2) s c by (cases b) auto
            then show ?thesis using True s c d simple by (simp add: unescape_cases)
          next
            case False
            then have n: "2 \<le> n" using s(2) by simp
            have "\<not> in_escape (in_escape b (take 2 s)) (take (n - 2) (drop 2 s))"
              using "1.prems"(2) split [OF n] by (simp add: in_escape_append)
            then have "length (fst (unescape (n - 2) s'')) + escapes (in_escape b (take 2 s)) (take (n - 2) (drop 2 s)) \<le> n - 2"
              using "1.IH"(3) [OF s(2) s(1) _ d simple] "1.prems"(1) c s d by simp
            from room [OF this, of "[e]"] show ?thesis using n simple s c d by (simp add: unescape_cases)
          qed
        next
          case stop
          then show ?thesis using start by simp
        qed
      qed
    qed
  qed
qed

section \<open>Properties\<close>

text \<open>
  C7. cJSON\_Parse accepts the texts of the JSON grammar, with white space around them, and
  builds the tree the text stands for: the strings with their escapes and surrogate pairs
  as UTF-8, numbers as correctly rounded doubles with their saturated integer part,
  elements and members in order. What limits it: arrays and objects are nested at most
  1000 deep, numbers have at most 63 characters, surrogates come in pairs, and a string or
  a name is cut at its first \<open>\u0000\<close>.
\<close>

theorem cJSON_Parse_reads_json:
  assumes "value_text 1000 v t" "ws w1" "ws w2"
  shows "cJSON_Parse (w1 @ t @ w2) = Some v"
  using parse_document [OF assms, of False] by (auto simp: cJSON_Parse_def)

text \<open>
  C14. The parser returns for every input: the recursion never needs more than three calls
  for each character of the text, whatever the nesting of arrays and objects.
\<close>

theorem cJSON_Parse_terminates: "cJSON_ParseWithLengthOpts s r \<noteq> OutOfFuel"
proof -
  have "parse_value (parse_fuel s) (buffer_skip_whitespace (skip_utf8_bom \<lparr>jcontent = s, joffset = 0, jdepth = 0\<rparr>)) \<noteq> OutOfFuel"
    by (rule parsers_fuel(1)) (auto simp: need_def parse_fuel_def skip_utf8_bom_def)
  then show ?thesis by (auto simp: cJSON_ParseWithLengthOpts_def Let_def split: parsed.splits)
qed

text \<open>
  C15. The first pass of parse\_string over a literal of \<open>n\<close> characters with \<open>k\<close> escapes
  allocates room for \<open>n + 1 - k\<close> bytes and the final zero; the second pass, which
  decodes the escapes on its own, never writes more, whether it reaches the end of the
  literal or stops at a malformed escape, and even for \<open>\u\<close> escapes that swallow a
  backslash.
\<close>

theorem parse_string_fits:
  assumes "string_end s = Some (n, k)"
  shows "length (fst (unescape n s)) + k \<le> n"
  using unescape_room [of n s False] string_end_escapes [OF assms] by simp

section \<open>Examples\<close>

text \<open>
  An object with an array and the string \<open>\nx\u0000y\<close>, of which the first two characters
  are left.
\<close>

definition demo_literal :: string where
  "demo_literal = CHR 0x5C # CHR ''n'' # CHR ''x'' # CHR 0x5C # CHR ''u'' # ''0000'' @ ''y''"

definition demo_json :: string where
  "demo_json = CHR 0x7B # (CHR 0x22 # ''a'' @ [CHR 0x22]) @ '':'' @ ''[12 ,true]'' @ '', ''
     @ (CHR 0x22 # ''b'' @ [CHR 0x22]) @ '':'' @ (CHR 0x22 # demo_literal @ [CHR 0x22]) @ [CHR 0x7D]"

definition demo_tree :: cJSON where
  "demo_tree = list_item cJSON_Object
     [set_string ''a'' (list_item cJSON_Array [number_item (fst (strtod ''12'')), true_item]),
      set_string ''b'' (string_item [CHR 0x0A, CHR ''x''])]"

lemma json_number_12: "json_number ''12''"
proof -
  have "''12'' = [] @ ''12'' @ [] @ []" by simp
  moreover have "\<forall>c\<in>set ''12''. isdigit c" by (simp add: isdigit_def)
  ultimately show ?thesis unfolding json_number_def by (intro exI [of _ "''12''"] exI [of _ "[]"]) simp
qed

lemma demo_array: "value_text 999 (list_item cJSON_Array [number_item (fst (strtod ''12'')), true_item]) ''[12 ,true]''"
proof -
  have "value_text 998 (number_item (fst (strtod ''12''))) ''12''" by (rule v_number [OF json_number_12]) simp
  then have "items_text 998 [number_item (fst (strtod ''12'')), true_item] ([] @ ''12'' @ '' '' @ CHR '','' # ([] @ ''true'' @ []))"
    by (intro i_more i_one v_true) (simp_all add: ws_def)
  from v_array [OF this] show ?thesis by simp
qed

lemma demo_string: "str_text [CHR 0x0A, CHR ''x'', NUL, CHR ''y''] demo_literal"
proof -
  have "str_text ([NUL] @ ''y'') (CHR 0x5C # CHR ''u'' # ''0000'' @ ''y'')"
    by (rule str_code)
      (auto intro!: str_plain str_nil simp: NUL_def hex4_def isxdigit_def hexval_def hex_number_def utf8_def)
  then show ?thesis
    unfolding demo_literal_def by (auto intro!: str_escape str_plain simp: short_escapes_def NUL_def)
qed

lemma demo_value: "value_text 1000 demo_tree demo_json"
proof -
  have "str_text ''a'' ''a''" "str_text ''b'' ''b''" by (auto intro!: str_plain str_nil simp: NUL_def)
  moreover have "value_text 999 (string_item [CHR 0x0A, CHR ''x'']) (CHR 0x22 # demo_literal @ [CHR 0x22])"
    using v_string [OF demo_string, of 999] by (simp add: cstr_def NUL_def)
  moreover have "cstr ''a'' = ''a''" "cstr ''b'' = ''b''" by (simp_all add: cstr_def NUL_def)
  ultimately have "members_text 999
      [set_string (cstr ''a'') (list_item cJSON_Array [number_item (fst (strtod ''12'')), true_item]),
       set_string (cstr ''b'') (string_item [CHR 0x0A, CHR ''x''])]
      ([] @ (CHR 0x22 # ''a'' @ [CHR 0x22]) @ [] @ CHR '':'' # [] @ ''[12 ,true]'' @ [] @ CHR '','' #
        ('' '' @ (CHR 0x22 # ''b'' @ [CHR 0x22]) @ [] @ CHR '':'' # [] @ (CHR 0x22 # demo_literal @ [CHR 0x22]) @ []))"
    using demo_array by (intro m_more m_one) (simp_all add: ws_def)
  from v_object [OF this] show ?thesis
    using \<open>cstr ''a'' = ''a''\<close> \<open>cstr ''b'' = ''b''\<close> by (simp add: demo_json_def demo_tree_def)
qed

theorem cJSON_Parse_reads_json_witness: "cJSON_Parse ('' '' @ demo_json @ '''') = Some demo_tree"
  by (rule cJSON_Parse_reads_json [OF demo_value]) (simp_all add: ws_def)

text \<open>The second pass writes two bytes and then stops at the escape \<open>\q\<close>.\<close>

theorem parse_string_fits_witness:
  "unescape 5 [CHR 0x5C, CHR ''n'', CHR ''x'', CHR 0x5C, CHR ''q'', CHR 0x22] = ([CHR 0x0A, CHR ''x''], False)
   \<and> length (fst (unescape 5 [CHR 0x5C, CHR ''n'', CHR ''x'', CHR 0x5C, CHR ''q'', CHR 0x22])) + 2 \<le> 5"
proof -
  have "string_end [CHR 0x5C, CHR ''n'', CHR ''x'', CHR 0x5C, CHR ''q'', CHR 0x22] = Some (5, 2)" by simp
  moreover have "unescape 5 [CHR 0x5C, CHR ''n'', CHR ''x'', CHR 0x5C, CHR ''q'', CHR 0x22] = ([CHR 0x0A, CHR ''x''], False)"
    by (simp add: unescape_cases simple_escape_def)
  ultimately show ?thesis using parse_string_fits by blast
qed

end
