(* ===== verification/JsonUsers.thy ===== *)
theory JsonUsers
  imports KasmPasswdProps CJsonProps
begin

unbundle bit_operations_syntax

text \<open>
  \<^verbatim>\<open>src/common/network/jsonescape.c\<close>: escaping for JSON strings and the reader of user
  lists, on top of the parser.
\<close>

section \<open>Escaping\<close>

text \<open>The case for the form feed has no break: it goes on with the one for the newline.\<close>

definition escape_char :: "char \<Rightarrow> string" where
  "escape_char c =
     (if c = CHR 0x08 then [CHR 0x5C, CHR ''b'']
      else if c = CHR 0x0C then [CHR 0x5C, CHR ''f'', CHR 0x5C, CHR ''n'']
      else if c = CHR 0x0A then [CHR 0x5C, CHR ''n'']
      else if c = CHR 0x0D then [CHR 0x5C, CHR ''r'']
      else if c = CHR 0x09 then [CHR 0x5C, CHR ''t'']
      else if c = CHR 0x22 then [CHR 0x5C, CHR 0x22]
      else if c = CHR 0x5C then [CHR 0x5C, CHR 0x5C]
      else [c])"

fun JSON_escape :: "string \<Rightarrow> string" where
  "JSON_escape [] = []"
| "JSON_escape (c # s) = escape_char c @ JSON_escape s"

fun JSON_unescape :: "string \<Rightarrow> string" where
  "JSON_unescape [] = []"
| "JSON_unescape [c] = [c]"
| "JSON_unescape (c # d # s) =
     (if c = CHR 0x5C \<and> d = CHR ''b'' then CHR 0x08 # JSON_unescape s
      else if c = CHR 0x5C \<and> d = CHR ''f'' then CHR 0x0C # JSON_unescape s
      else if c = CHR 0x5C \<and> d = CHR ''n'' then CHR 0x0A # JSON_unescape s
      else if c = CHR 0x5C \<and> d = CHR ''r'' then CHR 0x0D # JSON_unescape s
      else if c = CHR 0x5C \<and> d = CHR ''t'' then CHR 0x09 # JSON_unescape s
      else if c = CHR 0x5C \<and> d = CHR 0x22 then CHR 0x22 # JSON_unescape s
      else if c = CHR 0x5C \<and> d = CHR 0x5C then CHR 0x5C # JSON_unescape s
      else c # JSON_unescape (d # s))"

section \<open>User lists\<close>

definition has_type :: "cJSON \<Rightarrow> nat \<Rightarrow> bool" where
  "has_type j t \<longleftrightarrow> ctype j AND t \<noteq> 0"

text \<open>One member of a user object; none when the code goes to \<^verbatim>\<open>fail\<close>.\<close>

definition user_field :: "cJSON \<Rightarrow> kasmpasswd_entry \<Rightarrow> kasmpasswd_entry option" where
  "user_field e entry =
     (if cstring e = Some ''user'' then
        (if \<not> has_type e cJSON_String then None
         else if length (the (valuestring e)) \<ge> USERNAME_LEN then None
         else Some (entry\<lparr>user := the (valuestring e)\<rparr>))
      else if cstring e = Some ''password'' then
        (if \<not> has_type e cJSON_String then None
         else if length (the (valuestring e)) \<ge> PASSWORD_LEN then None
         else Some (entry\<lparr>password := the (valuestring e)\<rparr>))
      else if cstring e = Some ''write'' then
        (if \<not> has_type e (cJSON_False OR cJSON_True) then None
         else Some (if has_type e cJSON_True then entry\<lparr>p_write := True\<rparr> else entry))
      else if cstring e = Some ''owner'' then
        (if \<not> has_type e (cJSON_False OR cJSON_True) then None
         else Some (if has_type e cJSON_True then entry\<lparr>p_owner := True\<rparr> else entry))
      else if cstring e = Some ''read'' then
        (if \<not> has_type e (cJSON_False OR cJSON_True) then None
         else Some (if has_type e cJSON_True then entry\<lparr>p_read := True\<rparr> else entry))
      else None)"

fun user_fields :: "cJSON list \<Rightarrow> kasmpasswd_entry \<Rightarrow> kasmpasswd_entry option" where
  "user_fields [] entry = Some entry"
| "user_fields (e # es) entry =
     (case user_field e entry of None \<Rightarrow> None | Some entry' \<Rightarrow> user_fields es entry')"

definition no_user :: kasmpasswd_entry where
  "no_user = \<lparr>user = '''', password = '''', p_read = False, p_write = False, p_owner = False\<rparr>"

fun parse_users :: "cJSON list \<Rightarrow> kasmpasswd_entry list option" where
  "parse_users [] = Some []"
| "parse_users (cur # js) =
     (if \<not> has_type cur cJSON_Object then None
      else case user_fields (child cur) no_user of None \<Rightarrow> None
        | Some e \<Rightarrow> map_option ((#) e) (parse_users js))"

definition parseJsonUsers :: "string \<Rightarrow> kasmpasswd_entry list option" where
  "parseJsonUsers data =
     (case cJSON_Parse data of None \<Rightarrow> None
      | Some json \<Rightarrow> if \<not> has_type json cJSON_Array then None else parse_users (child json))"

section \<open>Escaping and unescaping\<close>

lemma unescape_escape_char:
  "c \<noteq> CHR 0x0C \<Longrightarrow> JSON_unescape (escape_char c @ t) = c # JSON_unescape t"
  by (cases t) (auto simp: escape_char_def)

lemma JSON_unescape_escape: "CHR 0x0C \<notin> set s \<Longrightarrow> JSON_unescape (JSON_escape s) = s"
  by (induction s) (auto simp: unescape_escape_char)

lemma escape_char_length: "c \<noteq> CHR 0x0C \<Longrightarrow> length (escape_char c) \<le> 2"
  by (simp add: escape_char_def)

lemma JSON_escape_length: "CHR 0x0C \<notin> set s \<Longrightarrow> length (JSON_escape s) \<le> 2 * length s"
proof (induction s)
  case (Cons c s)
  then have "length (escape_char c) \<le> 2" by (intro escape_char_length) auto
  with Cons show ?case by simp
qed simp

interpretation json_codec: codec JSON_escape JSON_unescape "\<lambda>s. CHR 0x0C \<notin> set s"
  by unfold_locales (rule JSON_unescape_escape)

section \<open>What the reader accepts\<close>

text \<open>The tree of a user list, as a client sends it.\<close>

definition json_bool :: "string \<Rightarrow> bool \<Rightarrow> cJSON" where
  "json_bool k b = set_string k (if b then true_item else item cJSON_False)"

definition json_user :: "kasmpasswd_entry \<Rightarrow> cJSON" where
  "json_user e = list_item cJSON_Object
     [set_string ''user'' (string_item (user e)), set_string ''password'' (string_item (password e)),
      json_bool ''read'' (p_read e), json_bool ''write'' (p_write e), json_bool ''owner'' (p_owner e)]"

definition json_users :: "kasmpasswd_entry list \<Rightarrow> cJSON" where
  "json_users es = list_item cJSON_Array (map json_user es)"

lemmas json_types = has_type_def cJSON_False_def cJSON_True_def cJSON_String_def cJSON_Array_def
  cJSON_Object_def list_item_def string_item_def true_item_def item_def

lemma json_user_fields:
  assumes "length (user e) < USERNAME_LEN" "length (password e) < PASSWORD_LEN"
  shows "user_fields (child (json_user e)) no_user = Some e"
  using assms by (simp add: json_user_def json_bool_def user_field_def json_types no_user_def)

lemma parse_json_users:
  assumes "\<forall>e\<in>set es. length (user e) < USERNAME_LEN \<and> length (password e) < PASSWORD_LEN"
  shows "parse_users (map json_user es) = Some es"
  using assms
proof (induction es)
  case (Cons e es)
  have "has_type (json_user e) cJSON_Object" by (simp add: json_user_def json_types)
  with Cons json_user_fields [of e] show ?case by simp
qed simp

lemma user_fields_bounds:
  assumes "user_fields fs e = Some e'" "length (user e) < USERNAME_LEN" "length (password e) < PASSWORD_LEN"
  shows "length (user e') < USERNAME_LEN \<and> length (password e') < PASSWORD_LEN"
  using assms
proof (induction fs arbitrary: e)
  case (Cons f fs)
  then obtain e1 where e1: "user_field f e = Some e1" "user_fields fs e1 = Some e'"
    by (auto split: option.splits)
  have "length (user e1) < USERNAME_LEN \<and> length (password e1) < PASSWORD_LEN"
    using e1(1) Cons.prems(2,3) by (auto simp: user_field_def split: if_splits)
  with Cons.IH e1(2) show ?case by blast
qed simp

lemma parse_users_bounds:
  "parse_users js = Some es \<Longrightarrow>
   length es = length js \<and> (\<forall>e\<in>set es. length (user e) < USERNAME_LEN \<and> length (password e) < PASSWORD_LEN)"
proof (induction js arbitrary: es)
  case (Cons j js)
  then obtain e es' where e: "user_fields (child j) no_user = Some e" "parse_users js = Some es'" "es = e # es'"
    by (auto split: option.splits if_splits)
  have "length (user e) < USERNAME_LEN \<and> length (password e) < PASSWORD_LEN"
    by (rule user_fields_bounds [OF e(1)]) (simp_all add: no_user_def USERNAME_LEN_def PASSWORD_LEN_def)
  with Cons.IH [OF e(2)] e(3) show ?case by simp
qed simp

text \<open>What the escaping gives is a string literal of the grammar.\<close>

lemma JSON_escape_text: "\<lbrakk>CHR 0x0C \<notin> set s; NUL \<notin> set s\<rbrakk> \<Longrightarrow> str_text s (JSON_escape s)"
proof (induction s)
  case (Cons c s)
  then have t: "str_text s (JSON_escape s)" by simp
  have c: "c \<noteq> CHR 0x0C" "c \<noteq> NUL" using Cons.prems by auto
  consider d where "escape_char c = [CHR 0x5C, d]" "(d, c) \<in> set short_escapes"
    | "escape_char c = [c]" "c \<noteq> CHR 0x22" "c \<noteq> CHR 0x5C"
    using c by (cases "c \<in> {CHR 0x08, CHR 0x0A, CHR 0x0D, CHR 0x09, CHR 0x22, CHR 0x5C}")
      (force simp: escape_char_def short_escapes_def)+
  then show ?case using str_escape [OF t] str_plain [OF t] c by cases simp_all
qed (simp add: str_nil)

text \<open>A document with a user list, as a client writes it.\<close>

definition quoted :: "string \<Rightarrow> string" where
  "quoted s = CHR 0x22 # JSON_escape s @ [CHR 0x22]"

definition bool_text :: "bool \<Rightarrow> string" where
  "bool_text b = (if b then ''true'' else ''false'')"

definition user_text :: "kasmpasswd_entry \<Rightarrow> string" where
  "user_text e = CHR 0x7B # quoted ''user'' @ '':'' @ quoted (user e) @ '',''
     @ quoted ''password'' @ '':'' @ quoted (password e) @ '',''
     @ quoted ''read'' @ '':'' @ bool_text (p_read e) @ '','' @ quoted ''write'' @ '':'' @ bool_text (p_write e)
     @ '','' @ quoted ''owner'' @ '':'' @ bool_text (p_owner e) @ [CHR 0x7D]"

fun user_items :: "kasmpasswd_entry list \<Rightarrow> string" where
  "user_items [] = ''''"
| "user_items [e] = user_text e"
| "user_items (e # es) = user_text e @ CHR '','' # user_items es"

definition users_text :: "kasmpasswd_entry list \<Rightarrow> string" where
  "users_text es = CHR ''['' # user_items es @ '']''"

definition plain_text :: "string \<Rightarrow> bool" where
  "plain_text s \<longleftrightarrow> CHR 0x0C \<notin> set s \<and> NUL \<notin> set s"

lemma plain_cstr: "plain_text s \<Longrightarrow> cstr s = s"
  by (auto simp: plain_text_def cstr_def takeWhile_eq_all_conv)

lemma quoted_text: "plain_text s \<Longrightarrow> value_text d (string_item s) (quoted s)"
  using v_string [OF JSON_escape_text, of s d] plain_cstr [of s] by (simp add: plain_text_def quoted_def)

lemma bool_text: "value_text d (if b then true_item else item cJSON_False) (bool_text b)"
  by (simp add: bool_text_def v_true v_false)

lemma ws_nil: "ws []" "ws '' ''" "ws [LF]"
  by (simp_all add: ws_def LF_def)

text \<open>Members and elements with little white space.\<close>

lemma member_one:
  assumes "plain_text k" "value_text d v t" "ws w1" "ws w3" "ws w4" "u = w1 @ quoted k @ '':'' @ w3 @ t @ w4"
  shows "members_text d [set_string k v] u"
  using m_one [OF assms(3) JSON_escape_text ws_nil(1) assms(4,2,5), of k] assms(1,6) plain_cstr [OF assms(1)]
  by (simp add: plain_text_def quoted_def)

lemma member_more:
  assumes "plain_text k" "value_text d v t" "members_text d vs u" "ws w1" "ws w3" "r = w1 @ quoted k @ '':'' @ w3 @ t @ '','' @ u"
  shows "members_text d (set_string k v # vs) r"
  using m_more [OF assms(4) JSON_escape_text ws_nil(1) assms(5,2) ws_nil(1) assms(3), of k] assms(1,6) plain_cstr [OF assms(1)]
  by (simp add: plain_text_def quoted_def)

lemma plain_names: "plain_text ''user''" "plain_text ''password''" "plain_text ''read''" "plain_text ''write''"
  "plain_text ''owner''"
  by (simp_all add: plain_text_def NUL_def)

lemma user_text_value:
  assumes "plain_text (user e)" "plain_text (password e)"
  shows "value_text (Suc d) (json_user e) (user_text e)"
proof -
  note own = member_one [OF plain_names(5) bool_text ws_nil(1,1,1) refl, of d "p_owner e"]
  note wr = member_more [OF plain_names(4) bool_text own ws_nil(1,1) refl, of "p_write e"]
  note rd = member_more [OF plain_names(3) bool_text wr ws_nil(1,1) refl, of "p_read e"]
  note pw = member_more [OF plain_names(2) quoted_text [OF assms(2)] rd ws_nil(1,1) refl]
  note us = member_more [OF plain_names(1) quoted_text [OF assms(1)] pw ws_nil(1,1) refl]
  show ?thesis using v_object [OF us] unfolding user_text_def json_user_def json_bool_def by simp
qed

lemma user_items_text:
  "\<lbrakk>es \<noteq> []; \<forall>e\<in>set es. plain_text (user e) \<and> plain_text (password e)\<rbrakk>
   \<Longrightarrow> items_text (Suc d) (map json_user es) (user_items es)"
proof (induction es rule: user_items.induct)
  case (2 e)
  then show ?case using i_one [OF ws_nil(1) user_text_value ws_nil(1), of e d] by simp
next
  case (3 e e' es)
  then show ?case using i_more [OF ws_nil(1) user_text_value ws_nil(1), of e d] by simp
qed simp

lemma users_text_value:
  assumes "\<forall>e\<in>set es. plain_text (user e) \<and> plain_text (password e)"
  shows "value_text (Suc (Suc d)) (json_users es) (users_text es)"
  using v_array [OF user_items_text [OF _ assms]] v_empty_array [OF ws_nil(1)]
  by (cases "es = []") (simp_all add: users_text_def json_users_def)

lemma parse_users_text:
  assumes "\<forall>e\<in>set es. length (user e) < USERNAME_LEN \<and> length (password e) < PASSWORD_LEN"
    and "value_text 1000 (json_users es) t" "ws w1" "ws w2"
  shows "parseJsonUsers (w1 @ t @ w2) = Some es"
proof -
  have "cJSON_Parse (w1 @ t @ w2) = Some (json_users es)"
    using parse_document [OF assms(2-4), of False] by (auto simp: cJSON_Parse_def)
  then show ?thesis using parse_json_users [OF assms(1)] by (simp add: parseJsonUsers_def json_users_def json_types)
qed

section \<open>Properties\<close>

text \<open>
  JSON\_unescape undoes JSON\_escape on every string without a form feed, and the escaped
  string fits the buffer of twice its length that the callers allocate.
\<close>

theorem json_escape_round_trip:
  assumes "CHR 0x0C \<notin> set s"
  shows "JSON_unescape (JSON_escape s) = s \<and> length (JSON_escape s) \<le> 2 * length s"
  using json_codec.decode_encode [OF assms] JSON_escape_length [OF assms] by simp

theorem json_escape_round_trip_witness:
  "JSON_unescape (JSON_escape [CHR ''a'', CHR 0x22, CHR 0x0A]) = [CHR ''a'', CHR 0x22, CHR 0x0A]"
  using json_escape_round_trip [of "[CHR ''a'', CHR 0x22, CHR 0x0A]"] by simp

text \<open>
  A form feed is escaped to four characters, a form feed and a newline: it does not fit
  twice the length of the input, and a newline appears when it is read back.
\<close>

theorem json_escape_form_feed:
  "length (JSON_escape [CHR 0x0C]) = 4 \<and> JSON_unescape (JSON_escape [CHR 0x0C]) = [CHR 0x0C, CHR 0x0A]"
  by (simp add: escape_char_def)

text \<open>
  C34. parseJsonUsers reads the users of a JSON text back unchanged, and every list
  it accepts has one entry per array element, each with a name and a password that fit
  the 128 byte fields of an entry.
\<close>

theorem parseJsonUsers_correct:
  assumes "\<forall>e\<in>set es. length (user e) < USERNAME_LEN \<and> length (password e) < PASSWORD_LEN"
    and "value_text 1000 (json_users es) t" "ws w1" "ws w2"
  shows "parseJsonUsers (w1 @ t @ w2) = Some es
    \<and> (\<forall>other es'. parseJsonUsers other = Some es' \<longrightarrow>
         (\<forall>e\<in>set es'. length (user e) < USERNAME_LEN \<and> length (password e) < PASSWORD_LEN))"
  using parse_users_text [OF assms] parse_users_bounds
  by (auto simp: parseJsonUsers_def split: option.splits if_splits)

theorem parseJsonUsers_correct_witness: "parseJsonUsers ('''' @ users_text [alice] @ [LF]) = Some [alice]"
proof -
  have t: "value_text 1000 (json_users [alice]) (users_text [alice])"
    using users_text_value [of "[alice]" 998] by (simp add: alice_def plain_text_def NUL_def)
  have "\<forall>e\<in>set [alice]. length (user e) < USERNAME_LEN \<and> length (password e) < PASSWORD_LEN"
    by (simp add: alice_def USERNAME_LEN_def PASSWORD_LEN_def)
  from parseJsonUsers_correct [OF this t ws_nil(1,3)] show ?thesis by simp
qed

end
