(* ===== verification/OwnerApi.thy ===== *)
theory OwnerApi
  imports HttpServe JsonUsers
begin

text \<open>
  The owner's HTTP API of \<^verbatim>\<open>src/common/network/websocket.c\<close>: ownerapi,
  ownerapi\_post and allUsersPresent.

  The callbacks of \<^verbatim>\<open>settings_t\<close> are function pointers of the program's other half; they
  are a record of functions on the state \<open>'m\<close> of the object behind
  \<^verbatim>\<open>settings.messager\<close>. \<open>wakeup\<close> is the write to the wake-up pipe.
\<close>

record 'm callbacks =
  screenshotCb :: "'m \<Rightarrow> nat \<Rightarrow> nat \<Rightarrow> nat \<Rightarrow> bool \<Rightarrow> 'm \<times> string"
  adduserCb :: "'m \<Rightarrow> string \<Rightarrow> string \<Rightarrow> bool \<Rightarrow> bool \<Rightarrow> bool \<Rightarrow> 'm \<times> bool"
  removeCb :: "'m \<Rightarrow> string \<Rightarrow> 'm \<times> bool"
  updateUserCb :: "'m \<Rightarrow> string \<Rightarrow> nat \<Rightarrow> string \<Rightarrow> bool \<Rightarrow> bool \<Rightarrow> bool \<Rightarrow> 'm \<times> bool"
  addOrUpdateUserCb :: "'m \<Rightarrow> kasmpasswd_entry \<Rightarrow> 'm \<times> bool"
  bottleneckStatsCb :: "'m \<Rightarrow> 'm \<times> string"
  frameStatsCb :: "'m \<Rightarrow> 'm \<times> string"
  resetFrameStatsCb :: "'m \<Rightarrow> 'm"
  requestFrameStatsNoneCb :: "'m \<Rightarrow> 'm \<times> bool"
  requestFrameStatsOwnerCb :: "'m \<Rightarrow> 'm \<times> bool"
  requestFrameStatsAllCb :: "'m \<Rightarrow> 'm \<times> bool"
  requestFrameStatsOneCb :: "'m \<Rightarrow> string \<Rightarrow> 'm \<times> bool"
  ownerConnectedCb :: "'m \<Rightarrow> 'm \<times> nat"
  numActiveUsersCb :: "'m \<Rightarrow> 'm \<times> nat"
  getUsersCb :: "'m \<Rightarrow> 'm \<times> string"
  getClientFrameStatsNumCb :: "'m \<Rightarrow> 'm \<times> nat"
  serverFrameStatsReadyCb :: "'m \<Rightarrow> 'm \<times> bool"
  clearClipboardCb :: "'m \<Rightarrow> 'm"
  getSessionsCb :: "'m \<Rightarrow> 'm \<times> string"
  wakeup :: "'m \<Rightarrow> 'm"

text \<open>
  The rest of the environment: crypt with the salt \<open>$5$kasm$\<close>, the content
  of the password file, the expansion of \<open>~/Downloads\<close>, and directories, each entry with the
  formatted text of its attributes.
\<close>

record api_env =
  api_crypt :: "string \<Rightarrow> string"
  api_passwd :: "string option"
  api_downloads :: "string option"
  api_dir :: "string \<Rightarrow> (string \<times> string) list option"

text \<open>
  The result: the request is left to the file server (return value 0), it was answered,
  or the copy of a parameter overran its buffer.
\<close>

datatype api_reply = BadRequest | Unavailable | Answer string string

datatype api_result = Unhandled | Sent api_reply | Overrun

section \<open>Parameters\<close>

text \<open>
  A parameter that is copied to a buffer: empty when parse\_get gives no length. The buffers
  hold any parameter of a request line of at most 1024 characters; only a length that has
  wrapped around is larger.
\<close>

definition text_param :: "string \<Rightarrow> string \<Rightarrow> string option" where
  "text_param args name =
     (case parse_get args name of (p, len) \<Rightarrow>
        if len = 0 then Some '''' else if len > 1024 then None else Some (take len p))"

definition decoded_param :: "string \<Rightarrow> string \<Rightarrow> string option" where
  "decoded_param args name = map_option (\<lambda>s. cstr (percent_decode False s)) (text_param args name)"

definition atoi :: "string \<Rightarrow> int" where
  "atoi s = c_int (min (strtol 10 s) 9223372036854775807)"

definition number_param :: "string \<Rightarrow> string \<Rightarrow> nat \<Rightarrow> nat \<Rightarrow> nat" where
  "number_param args name dflt width =
     (case parse_get args name of (p, len) \<Rightarrow>
        if len \<noteq> 0 \<and> p \<noteq> [] \<and> isdigit (hd p) then nat (atoi p mod 2 ^ width) else dflt)"

text \<open>
  A flag is given when its value starts with a letter, and set when the value is a prefix
  of \<open>true\<close> (the comparison has the length of the value).
\<close>

definition flag_given :: "string \<Rightarrow> string \<Rightarrow> bool" where
  "flag_given args name =
     (case parse_get args name of (p, len) \<Rightarrow> len \<noteq> 0 \<and> p \<noteq> [] \<and> isalpha (hd p))"

definition strncmp_eq :: "string \<Rightarrow> string \<Rightarrow> nat \<Rightarrow> bool" where
  "strncmp_eq a b n \<longleftrightarrow> take n a = take n b"

definition flag_set :: "string \<Rightarrow> string \<Rightarrow> bool" where
  "flag_set args name =
     (case parse_get args name of (p, len) \<Rightarrow> flag_given args name \<and> strncmp_eq p ''true'' len)"

section \<open>POST requests\<close>

definition USER_UPDATE_WRITE_MASK :: nat where "USER_UPDATE_WRITE_MASK = 1"
definition USER_UPDATE_OWNER_MASK :: nat where "USER_UPDATE_OWNER_MASK = 2"
definition USER_UPDATE_PASSWORD_MASK :: nat where "USER_UPDATE_PASSWORD_MASK = 4"
definition USER_UPDATE_READ_MASK :: nat where "USER_UPDATE_READ_MASK = 8"

definition allUsersPresent :: "kasmpasswd_entry list \<Rightarrow> kasmpasswd_entry list \<Rightarrow> bool" where
  "allUsersPresent fullset inset =
     (if fullset = [] then False
      else list_all (\<lambda>e. list_ex (\<lambda>f. user e = user f) fullset) inset)"

text \<open>The loops over the users of a request stop at the first one that fails.\<close>

fun create_users :: "'m callbacks \<Rightarrow> (string \<Rightarrow> string) \<Rightarrow> kasmpasswd_entry list \<Rightarrow> 'm \<Rightarrow> 'm \<times> bool" where
  "create_users cb crypt [] m = (m, True)"
| "create_users cb crypt (e # es) m =
     (if user e = '''' \<or> password e = '''' then (m, False)
      else
        let (m', ok) = addOrUpdateUserCb cb m (e\<lparr>password := crypt (password e)\<rparr>)
        in if ok then create_users cb crypt es m' else (m', False))"

fun remove_users :: "'m callbacks \<Rightarrow> kasmpasswd_entry list \<Rightarrow> 'm \<Rightarrow> 'm \<times> bool" where
  "remove_users cb [] m = (m, True)"
| "remove_users cb (e # es) m =
     (if user e = '''' then (m, False)
      else let (m', ok) = removeCb cb m (user e) in if ok then remove_users cb es m' else (m', False))"

fun update_users :: "'m callbacks \<Rightarrow> (string \<Rightarrow> string) \<Rightarrow> kasmpasswd_entry list \<Rightarrow> 'm \<Rightarrow> 'm \<times> bool" where
  "update_users cb crypt [] m = (m, True)"
| "update_users cb crypt (e # es) m =
     (if user e = '''' then (m, False)
      else
        let base = USER_UPDATE_READ_MASK + USER_UPDATE_WRITE_MASK + USER_UPDATE_OWNER_MASK;
            (pw, msk) = (if password e \<noteq> '''' then (crypt (password e), base + USER_UPDATE_PASSWORD_MASK)
                         else ('''', base));
            (m', ok) = updateUserCb cb m (user e) msk pw (p_read e) (p_write e) (p_owner e)
        in if ok then update_users cb crypt es m' else (m', False))"

definition ok_reply :: "'m \<times> bool \<Rightarrow> 'm \<times> api_result" where
  "ok_reply r = (fst r, Sent (if snd r then Answer ''text/plain'' ''200 OK'' else BadRequest))"

definition ownerapi_post :: "'m callbacks \<Rightarrow> api_env \<Rightarrow> string \<Rightarrow> 'm \<Rightarrow> 'm \<times> api_result" where
  "ownerapi_post cb env req m =
     (let inp = drop 5 req in
      case request_path inp of None \<Rightarrow> (m, Unhandled)
      | Some path \<Rightarrow>
          if CHR ''?'' \<in> set path then (m, Unhandled)
          else
            (case strstr inp (CRLF @ CRLF) of None \<Rightarrow> (m, Unhandled)
             | Some s \<Rightarrow>
                 let users = parseJsonUsers (drop 4 s) in
                 if path = ''/api/create_user'' then
                   (case users of None \<Rightarrow> (m, Sent BadRequest)
                    | Some es \<Rightarrow> ok_reply (create_users cb (api_crypt env) es m))
                 else if path = ''/api/remove_user'' then
                   (case users of None \<Rightarrow> (m, Sent BadRequest)
                    | Some es \<Rightarrow>
                        if \<not> allUsersPresent (readkasmpasswd (api_passwd env)) es then (m, Sent BadRequest)
                        else ok_reply (remove_users cb es m))
                 else if path = ''/api/update_user'' then
                   (case users of None \<Rightarrow> (m, Sent BadRequest)
                    | Some es \<Rightarrow>
                        if \<not> allUsersPresent (readkasmpasswd (api_passwd env)) es then (m, Sent BadRequest)
                        else ok_reply (update_users cb (api_crypt env) es m))
                 else (m, Unhandled)))"

section \<open>GET requests\<close>

definition api_screenshot :: "'m callbacks \<Rightarrow> string \<Rightarrow> 'm \<Rightarrow> 'm \<times> api_result" where
  "api_screenshot cb args m =
     (let w = number_param args ''width'' 4096 16;
          h = number_param args ''height'' 4096 16;
          q = number_param args ''quality'' 7 8;
          (m', staging) = screenshotCb cb m w h q (flag_set args ''deduplicate'')
      in (m', Sent (if length staging = 16 then Answer ''text/plain'' staging
                    else if staging \<noteq> '''' then Answer ''image/jpeg'' staging
                    else BadRequest)))"

definition api_create_user :: "'m callbacks \<Rightarrow> api_env \<Rightarrow> string \<Rightarrow> 'm \<Rightarrow> 'm \<times> api_result" where
  "api_create_user cb env args m =
     (case (decoded_param args ''name'', decoded_param args ''password'') of
        (Some decname, Some pw) \<Rightarrow>
          let decpw = (if text_param args ''password'' = Some '''' then '''' else api_crypt env pw) in
          if decname = '''' \<or> decpw = '''' then (m, Sent BadRequest)
          else ok_reply (adduserCb cb m decname decpw (flag_set args ''read'')
                 (flag_set args ''write'') (flag_set args ''owner''))
      | _ \<Rightarrow> (m, Overrun))"

definition api_remove_user :: "'m callbacks \<Rightarrow> string \<Rightarrow> 'm \<Rightarrow> 'm \<times> api_result" where
  "api_remove_user cb args m =
     (case decoded_param args ''name'' of None \<Rightarrow> (m, Overrun)
      | Some decname \<Rightarrow>
          if decname = '''' then (m, Sent BadRequest) else ok_reply (removeCb cb m decname))"

definition api_update_user :: "'m callbacks \<Rightarrow> string \<Rightarrow> 'm \<Rightarrow> 'm \<times> api_result" where
  "api_update_user cb args m =
     (case decoded_param args ''name'' of None \<Rightarrow> (m, Overrun)
      | Some decname \<Rightarrow>
          if decname = '''' then (m, Sent BadRequest)
          else
            let msk = (if flag_given args ''read'' then USER_UPDATE_READ_MASK else 0)
                    + (if flag_given args ''write'' then USER_UPDATE_WRITE_MASK else 0)
                    + (if flag_given args ''owner'' then USER_UPDATE_OWNER_MASK else 0)
            in ok_reply (updateUserCb cb m decname msk '''' (flag_set args ''read'')
                 (flag_set args ''write'') (flag_set args ''owner'')))"

definition api_text :: "'m \<times> string \<Rightarrow> 'm \<times> api_result" where
  "api_text r = (fst r, Sent (Answer ''text/plain'' (snd r)))"

text \<open>The two polling loops of get\_frame\_stats, with the number of polls left.\<close>

fun wait_ready :: "'m callbacks \<Rightarrow> nat \<Rightarrow> 'm \<Rightarrow> 'm \<times> bool" where
  "wait_ready cb 0 m = (m, False)"
| "wait_ready cb (Suc n) m =
     (let (m', ready) = serverFrameStatsReadyCb cb m in if ready then (m', True) else wait_ready cb n m')"

fun wait_clients :: "'m callbacks \<Rightarrow> nat \<Rightarrow> nat \<Rightarrow> 'm \<Rightarrow> 'm" where
  "wait_clients cb waitfor 0 m = m"
| "wait_clients cb waitfor (Suc n) m =
     (let (m', num) = getClientFrameStatsNumCb cb m
      in if num \<ge> waitfor then m' else wait_clients cb waitfor n m')"

definition request_stats :: "'m callbacks \<Rightarrow> string \<Rightarrow> 'm \<Rightarrow> nat \<times> 'm \<times> bool" where
  "request_stats cb decname m =
     (if decname = ''none'' then (0, requestFrameStatsNoneCb cb m)
      else if decname = ''auto'' then
        let (m1, waitfor) = ownerConnectedCb cb m in
        (waitfor, if waitfor = 0 then requestFrameStatsNoneCb cb m1 else requestFrameStatsOwnerCb cb m1)
      else if decname = ''all'' then
        let (m1, waitfor) = numActiveUsersCb cb m in (waitfor, requestFrameStatsAllCb cb m1)
      else (1, requestFrameStatsOneCb cb m decname))"

definition api_frame_stats :: "'m callbacks \<Rightarrow> string \<Rightarrow> 'm \<Rightarrow> 'm \<times> api_result" where
  "api_frame_stats cb args m =
     (case decoded_param args ''client'' of None \<Rightarrow> (m, Overrun)
      | Some decname \<Rightarrow>
          if decname = '''' then (m, Sent BadRequest)
          else
            let (waitfor, m1, ok) = request_stats cb decname m in
            if \<not> ok then (m1, Sent BadRequest)
            else
              let (m2, ready) = wait_ready cb 500 m1 in
              if \<not> ready then (resetFrameStatsCb cb m2, Sent Unavailable)
              else
                api_text (frameStatsCb cb
                  (if waitfor \<noteq> 0 then wait_clients cb waitfor 20 m2 else m2)))"

text \<open>The list of downloads, one JSON object per directory entry.\<close>

definition download_items :: "(string \<times> string) list \<Rightarrow> string list" where
  "download_items es =
     map (\<lambda>(name, attrs). ''{ \"filename\": \"'' @ JSON_escape name @ attrs)
       (filter (\<lambda>(name, attrs). name \<noteq> ''.'' \<and> name \<noteq> ''..'') es)"

fun join :: "string \<Rightarrow> string list \<Rightarrow> string" where
  "join sep [] = ''''"
| "join sep [s] = s"
| "join sep (s # ss) = s @ sep @ join sep ss"

definition downloads_dir :: "string \<Rightarrow> string \<Rightarrow> string" where
  "downloads_dir startpath subpath = take (PATH_MAX - 1) (startpath @ ''/'' @ subpath)"

definition api_downloads_list :: "api_env \<Rightarrow> string \<Rightarrow> 'm \<Rightarrow> 'm \<times> api_result" where
  "api_downloads_list env args m =
     (case decoded_param args ''path'' of None \<Rightarrow> (m, Overrun)
      | Some subpath \<Rightarrow>
          if strstr subpath ''../'' \<noteq> None then (m, Sent BadRequest)
          else
            (case api_downloads env of None \<Rightarrow> (m, Sent BadRequest)
             | Some startpath \<Rightarrow>
                 (case api_dir env (downloads_dir startpath subpath) of None \<Rightarrow> (m, Sent BadRequest)
                  | Some es \<Rightarrow>
                      (m, Sent (Answer ''text/json''
                        (''{ \"files\": ['' @ [LF] @ join (CHR '','' # [LF]) (download_items es) @ '']}''))))))"

definition api_get :: "'m callbacks \<Rightarrow> api_env \<Rightarrow> string \<Rightarrow> string \<Rightarrow> 'm \<Rightarrow> 'm \<times> api_result" where
  "api_get cb env path args m =
     (if path = ''/api/get_screenshot'' then api_screenshot cb args m
      else if path = ''/api/create_user'' then api_create_user cb env args m
      else if path = ''/api/remove_user'' then api_remove_user cb args m
      else if path = ''/api/update_user'' then api_update_user cb args m
      else if path = ''/api/get_bottleneck_stats'' then api_text (bottleneckStatsCb cb m)
      else if path = ''/api/get_users'' then api_text (getUsersCb cb m)
      else if path = ''/api/get_sessions'' then api_text (getSessionsCb cb m)
      else if path = ''/api/get_frame_stats'' then api_frame_stats cb args m
      else if path = ''/api/send_full_frame'' then ok_reply (wakeup cb m, True)
      else if path = ''/api/clear_clipboard'' then ok_reply (wakeup cb (clearClipboardCb cb m), True)
      else if path = ''/api/downloads'' then api_downloads_list env args m
      else (m, Unhandled))"

definition ownerapi :: "'m callbacks \<Rightarrow> api_env \<Rightarrow> string \<Rightarrow> 'm \<Rightarrow> 'm \<times> api_result" where
  "ownerapi cb env req m =
     (if \<not> starts ''GET '' req then
        (if starts ''POST '' req then ownerapi_post cb env req m else (m, Unhandled))
      else
        (case request_path (drop 4 req) of None \<Rightarrow> (m, Unhandled)
         | Some full \<Rightarrow>
             let path = takeWhile (\<lambda>c. c \<noteq> CHR ''?'') full;
                 args = (if CHR ''?'' \<in> set full then drop (Suc (length path)) full else '''')
             in api_get cb env path args m))"

end
