(* ===== verification/HttpHandshake.thy ===== *)
theory HttpHandshake
  imports HttpRequest
begin

text \<open>
  What parse\_handshake finds in a request: the case-insensitive search for a header
  name after a line break is the look-up of a header line, and a complete HyBi request is
  accepted with exactly its header values.
\<close>

section \<open>Header lines\<close>

abbreviation CR :: char where
  "CR \<equiv> CHR 0x0D"

definition request_text :: "string \<Rightarrow> string list \<Rightarrow> string" where
  "request_text l0 ls = l0 @ concat (map (\<lambda>l. CRLF @ l) ls) @ CRLF @ CRLF"

definition header_value :: "string list \<Rightarrow> string \<Rightarrow> string option" where
  "header_value ls name =
     map_option (drop (length name)) (List.find (starts_nocase name) ls)"

definition header_line :: "string \<Rightarrow> bool" where
  "header_line l \<longleftrightarrow> CR \<notin> set l"

lemma tolower_CR: "tolower c = CR \<longleftrightarrow> c = CR"
proof -
  have "char_of (of_char c + 32 :: nat) \<noteq> CR" if "65 \<le> (of_char c :: nat)" "(of_char c :: nat) \<le> 90"
  proof
    assume "char_of (of_char c + 32 :: nat) = CR"
    then have "(of_char (char_of (of_char c + 32 :: nat)) :: nat) = of_char CR" by simp
    then have "(of_char c + 32 :: nat) mod 256 = 13" by (simp add: of_char_of)
    then show False using that by simp
  qed
  then show ?thesis by (auto simp: tolower_def Let_def)
qed


lemma tolower_CR_self [simp]: "tolower CR = CR"
  by (simp add: tolower_def)

lemma starts_nocase_split:
  "starts_nocase (CR # p) (c # s) \<longleftrightarrow> c = CR \<and> starts_nocase p s"
  using tolower_CR [of c] tolower_CR [of CR] by auto

text \<open>A name without a line break is a prefix of a line followed by a line break only if it is one of the line.\<close>

lemma starts_nocase_line:
  "CR \<notin> set p \<Longrightarrow> starts_nocase p (l @ CR # r) = starts_nocase p l"
  for p :: string
proof (induction p l rule: starts_nocase.induct)
  case (2 c p)
  then show ?case using tolower_CR [of c] tolower_CR [of CR] by auto
qed auto

lemma strcasestr_skip:
  "CR \<notin> set a \<Longrightarrow> strcasestr (a @ s) (CR # p) = strcasestr s (CR # p)"
  by (induction a) (auto simp: starts_nocase_split simp del: starts_nocase.simps(3))

lemma tolower_LF: "tolower LF = LF"
  by (simp add: tolower_def LF_def)

text \<open>The search for a header name finds the first line that has it.\<close>

lemma strcasestr_lines:
  assumes "\<forall>l\<in>set ls. header_line l" "CR \<notin> set name" "name \<noteq> []"
  shows "strcasestr (concat (map (\<lambda>l. CRLF @ l) ls) @ CRLF @ CRLF) (CRLF @ name) =
    (case dropWhile (\<lambda>l. \<not> starts_nocase name l) ls of [] \<Rightarrow> None
     | l # ls' \<Rightarrow> Some (CRLF @ l @ concat (map (\<lambda>l. CRLF @ l) ls') @ CRLF @ CRLF))"
  using assms(1)
proof (induction ls)
  case Nil
  show ?case
  proof -
    have "LF \<noteq> CR" by (simp add: LF_def)
    then show ?thesis
      using assms(2,3) tolower_LF
      by (cases name) (auto simp: CRLF_def LF_def [symmetric] tolower_CR)
  qed
next
  case (Cons l ls)
  define rest where "rest = concat (map (\<lambda>l. CRLF @ l) ls) @ CRLF @ CRLF"
  have l: "CR \<notin> set l" using Cons.prems by (simp add: header_line_def)
  obtain t where t: "rest = CR # t" by (cases ls) (auto simp: CRLF_def rest_def)
  have eq: "concat (map (\<lambda>l. CRLF @ l) (l # ls)) @ CRLF @ CRLF = CRLF @ l @ rest" by (simp add: rest_def)
  have m: "starts_nocase (CRLF @ name) (CRLF @ l @ rest) = starts_nocase name l"
    unfolding t using starts_nocase_line [OF assms(2)] tolower_LF by (simp add: CRLF_def)
  have skip: "strcasestr (LF # l @ rest) (CRLF @ name) = strcasestr rest (CRLF @ name)"
    using strcasestr_skip [of "LF # l" rest "LF # name"] l by (simp add: CRLF_def LF_def)
  show ?case
  proof (cases "starts_nocase name l")
    case True
    then have "strcasestr (CRLF @ l @ rest) (CRLF @ name) = Some (CRLF @ l @ rest)"
      using m by (simp add: CRLF_def)
    then show ?thesis unfolding eq using True by (simp add: rest_def)
  next
    case False
    then have "strcasestr (CRLF @ l @ rest) (CRLF @ name) = strcasestr rest (CRLF @ name)"
      using m skip by (simp add: CRLF_def LF_def)
    then show ?thesis unfolding eq using False Cons by (simp add: rest_def)
  qed
qed

section \<open>Header fields\<close>

lemma strstr_CRLF: "CR \<notin> set v \<Longrightarrow> strstr (v @ CRLF @ r) CRLF = Some (CRLF @ r)"
  by (induction v) (auto simp: CRLF_def)

lemma copy_until_line:
  "CR \<notin> set v \<Longrightarrow> copy_until (v @ CRLF @ r) CRLF = (if length v > 1024 then None else Some v)"
  by (simp add: copy_until_def strstr_CRLF)

lemma starts_nocase_length: "starts_nocase p s \<Longrightarrow> length p \<le> length s"
  by (induction p s rule: starts_nocase.induct) auto

lemma request_text_search:
  assumes "header_line l0"
  shows "strcasestr (request_text l0 ls) (CRLF @ name)
    = strcasestr (concat (map (\<lambda>l. CRLF @ l) ls) @ CRLF @ CRLF) (CRLF @ name)"
  using assms strcasestr_skip [of l0 _ "LF # name"]
  by (simp add: request_text_def header_line_def CRLF_def LF_def)

lemma lines_begin: "\<exists>r. concat (map (\<lambda>l. CRLF @ l) ls) @ CRLF @ CRLF = CRLF @ r"
  by (cases ls) auto

text \<open>
  A header is read as the value of its first line; a value of more than 1024 characters
  overruns its array.
\<close>

lemma header_field_lookup:
  assumes "header_line l0" "\<forall>l\<in>set ls. header_line l" "CR \<notin> set name" "name \<noteq> []"
  shows "header_field (request_text l0 ls) name k =
    (case header_value ls name of None \<Rightarrow> Reject
     | Some v \<Rightarrow> if length v > 1024 then Fault else k v)"
proof (cases "dropWhile (\<lambda>l. \<not> starts_nocase name l) ls")
  case Nil
  then have "List.find (starts_nocase name) ls = None"
    by (auto simp: find_None_iff dropWhile_eq_Nil_conv)
  moreover have "strcasestr (request_text l0 ls) (CRLF @ name) = None"
    unfolding request_text_search [OF assms(1)] strcasestr_lines [OF assms(2-4)] Nil by simp
  ultimately show ?thesis by (simp add: header_field_def header_value_def)
next
  case (Cons l ls')
  obtain as where ls: "ls = as @ l # ls'" "\<forall>a\<in>set as. \<not> starts_nocase name a"
    using Cons by (metis set_takeWhileD takeWhile_dropWhile_id)
  have hit: "starts_nocase name l" using Cons by (metis dropWhile_eq_Cons_conv)
  have find: "List.find (starts_nocase name) ls = Some l"
    using ls hit by (induction as arbitrary: ls) auto
  define v where "v = drop (length name) l"
  have v: "CR \<notin> set v" using assms(2) ls by (auto simp: v_def header_line_def dest: in_set_dropD)
  obtain r where r: "concat (map (\<lambda>l. CRLF @ l) ls') @ CRLF @ CRLF = CRLF @ r" using lines_begin by blast
  have "drop (length name) (l @ CRLF @ r) = v @ CRLF @ r"
    using starts_nocase_length [OF hit] by (simp add: v_def)
  then have "copy_until (drop (length (CRLF @ name)) (CRLF @ l @ CRLF @ r)) CRLF
      = (if length v > 1024 then None else Some v)"
    using copy_until_line [OF v, of r] by (simp add: CRLF_def)
  then show ?thesis
    using Cons find r request_text_search [OF assms(1)] strcasestr_lines [OF assms(2-4)]
    by (simp add: header_field_def header_value_def v_def)
qed

section \<open>A HyBi request\<close>

lemma strcasestr_name_iff:
  assumes "header_line l0" "\<forall>l\<in>set ls. header_line l" "CR \<notin> set name" "name \<noteq> []"
  shows "strcasestr (request_text l0 ls) (CRLF @ name) = None \<longleftrightarrow> header_value ls name = None"
proof -
  have "strcasestr (request_text l0 ls) (CRLF @ name) = None
      \<longleftrightarrow> dropWhile (\<lambda>l. \<not> starts_nocase name l) ls = []"
    unfolding request_text_search [OF assms(1)] strcasestr_lines [OF assms(2-4)]
    by (simp only: split: list.split) simp
  then show ?thesis by (auto simp: header_value_def find_None_iff)
qed

lemma strstr_first:
  "\<lbrakk>h \<notin> set a; n = h # t\<rbrakk> \<Longrightarrow> strstr (a @ n @ r) n = Some (n @ r)"
proof (induction a)
  case Nil
  then show ?case by (auto simp: starts_iff)
qed auto

lemma starts_nocase_sub:
  "starts_nocase n s \<Longrightarrow> starts_nocase n (s @ t)"
  by (induction n s rule: starts_nocase.induct) auto

lemma strcasestr_sub:
  assumes "strcasestr s n \<noteq> None"
  shows "strcasestr (a @ s @ t) n \<noteq> None"
proof (induction a)
  case Nil
  show ?case using assms
  proof (induction s)
    case Nil
    then show ?case by (cases t) (auto split: if_splits)
  next
    case (Cons c s)
    then show ?case using starts_nocase_sub [of n "c # s" t] by (auto split: if_splits)
  qed
next
  case (Cons c a)
  then show ?case by simp
qed

text \<open>
  A request whose first line asks for \<open>path\<close>, with the headers of an RFC 6455 handshake
  among its lines.
\<close>

lemma parse_handshake_hybi:
  assumes "l0 = ''GET '' @ path @ '' HTTP/1.1''" "header_line l0" "\<forall>l\<in>set ls. header_line l"
    and "CHR '' '' \<notin> set path" "length path \<le> 1024"
    and "92 \<le> length (request_text l0 ls)" "\<exists>l\<in>set ls. strcasestr l ''Upgrade: websocket'' \<noteq> None"
    and "header_value ls ''Host: '' = Some host" "header_value ls ''Origin: '' = Some origin"
    and "header_value ls ''Sec-WebSocket-Version: '' = Some version"
    and "header_value ls ''Sec-WebSocket-Key: '' = Some key1"
    and "header_value ls ''Connection: '' = Some connection"
    and "header_value ls ''Sec-WebSocket-Protocol: '' = Some protocols"
    and "\<forall>v\<in>{host, origin, version, key1, connection, protocols}. length v \<le> 1024"
  shows "parse_handshake ctx (request_text l0 ls) =
    Accept (ctx\<lparr>hixie := 0, hybi := c_int (strtol 10 version),
      headers := (headers ctx)\<lparr>hd_path := path, hd_host := host, hd_origin := origin, hd_version := version,
        hd_connection := connection, hd_protocols := protocols, hd_key1 := key1, hd_key2 := [], hd_key3 := []\<rparr>\<rparr>)"
proof -
  let ?req = "request_text l0 ls"
  have get: "starts ''GET '' ?req" by (simp add: request_text_def assms(1))
  obtain l a b where l: "strcasestr l ''Upgrade: websocket'' \<noteq> None" "ls = a @ l # b"
    using assms(7) by (metis split_list)
  have "?req = (l0 @ concat (map (\<lambda>l. CRLF @ l) a) @ CRLF) @ l @ (concat (map (\<lambda>l. CRLF @ l) b) @ CRLF @ CRLF)"
    by (simp add: request_text_def l(2))
  then have up: "strcasestr ?req ''Upgrade: websocket'' \<noteq> None" using strcasestr_sub [OF l(1)] by metis
  define rest where "rest = concat (map (\<lambda>l. CRLF @ l) ls) @ CRLF @ CRLF"
  have start: "drop 4 ?req = path @ '' HTTP/1.1'' @ rest" by (simp add: request_text_def assms(1) rest_def)
  have http: "strstr (path @ '' HTTP/1.1'' @ rest) '' HTTP/1.1'' = Some ('' HTTP/1.1'' @ rest)"
    using assms(4) by (intro strstr_first) auto
  then have cp: "copy_until (drop 4 ?req) '' HTTP/1.1'' = Some path"
    unfolding start copy_until_def using assms(5) by simp
  have "strcasestr ?req (CRLF @ ''Origin: '') \<noteq> None"
    "strcasestr ?req (CRLF @ ''Sec-WebSocket-Version: '') \<noteq> None"
    using strcasestr_name_iff [OF assms(2,3)] assms(9,10) by simp_all
  moreover note field = header_field_lookup [OF assms(2,3)]
  ultimately show ?thesis
    using get up http cp assms(6,8-14)
    by (simp add: parse_handshake_def start field origin_field_def hybi_fields_def Let_def)
qed

section \<open>Properties\<close>

text \<open>
  A complete RFC 6455 upgrade request is accepted, whatever other header lines it has
  and in whatever case the names are written: the context is switched to HyBi with the
  requested version, and its header fields are exactly the values of the first lines with
  those names.
\<close>

theorem handshake_accepts_hybi:
  assumes "l0 = ''GET '' @ path @ '' HTTP/1.1''" "header_line l0" "\<forall>l\<in>set ls. header_line l"
    and "CHR '' '' \<notin> set path" "length path \<le> 1024"
    and "92 \<le> length (request_text l0 ls)" "\<exists>l\<in>set ls. strcasestr l ''Upgrade: websocket'' \<noteq> None"
    and "header_value ls ''Host: '' = Some host" "header_value ls ''Origin: '' = Some origin"
    and "header_value ls ''Sec-WebSocket-Version: '' = Some version"
    and "header_value ls ''Sec-WebSocket-Key: '' = Some key1"
    and "header_value ls ''Connection: '' = Some connection"
    and "header_value ls ''Sec-WebSocket-Protocol: '' = Some protocols"
    and "\<forall>v\<in>{host, origin, version, key1, connection, protocols}. length v \<le> 1024"
  shows "parse_handshake ctx (request_text l0 ls) =
    Accept (ctx\<lparr>hixie := 0, hybi := c_int (strtol 10 version),
      headers := (headers ctx)\<lparr>hd_path := path, hd_host := host, hd_origin := origin, hd_version := version,
        hd_connection := connection, hd_protocols := protocols, hd_key1 := key1, hd_key2 := [], hd_key3 := []\<rparr>\<rparr>)"
  by (rule parse_handshake_hybi [OF assms])

definition upgrade_lines :: "string list" where
  "upgrade_lines = [''host: h'', ''Upgrade: WebSocket'', ''Connection: Upgrade'', ''Origin: o'',
     ''Sec-WebSocket-Version: 13'', ''Sec-WebSocket-Key: k'', ''Sec-WebSocket-Protocol: binary'']"

theorem handshake_accepts_hybi_witness:
  "\<forall>ctx. \<exists>c. parse_handshake ctx (request_text ''GET /websockify HTTP/1.1'' upgrade_lines) = Accept c
     \<and> hybi c = 13 \<and> hd_protocols (headers c) = ''binary''"
proof -
  have "c_int (strtol 10 ''13'') = 13"
    by (simp add: strtol_def isspace_def hexval_def Let_def c_int_def)
  moreover have "header_line ''GET /websockify HTTP/1.1''" "\<forall>l\<in>set upgrade_lines. header_line l"
    by (simp_all add: header_line_def upgrade_lines_def)
  moreover have "92 \<le> length (request_text ''GET /websockify HTTP/1.1'' upgrade_lines)"
    by (simp add: request_text_def upgrade_lines_def CRLF_def)
  moreover have "\<exists>l\<in>set upgrade_lines. strcasestr l ''Upgrade: websocket'' \<noteq> None"
    by (simp add: upgrade_lines_def tolower_def char_of_def bit_0)
  moreover have "header_value upgrade_lines ''Host: '' = Some ''h''"
    "header_value upgrade_lines ''Origin: '' = Some ''o''"
    "header_value upgrade_lines ''Sec-WebSocket-Version: '' = Some ''13''"
    "header_value upgrade_lines ''Sec-WebSocket-Key: '' = Some ''k''"
    "header_value upgrade_lines ''Connection: '' = Some ''Upgrade''"
    "header_value upgrade_lines ''Sec-WebSocket-Protocol: '' = Some ''binary''"
    by (simp_all add: header_value_def upgrade_lines_def tolower_def char_of_def bit_0)
  ultimately show ?thesis
    using handshake_accepts_hybi [of "''GET /websockify HTTP/1.1''" "''/websockify''" upgrade_lines
        "''h''" "''o''" "''13''" "''k''" "''Upgrade''" "''binary''"] by simp
qed

text \<open>
  A header value of more than 1024 characters overruns the array it is copied to,
  before any check: such a request is a fault of the server, not a refusal.
\<close>

theorem long_header_overruns:
  assumes "header_line l0" "\<forall>l\<in>set ls. header_line l" "CR \<notin> set name" "name \<noteq> []"
    and "header_value ls name = Some v" "1024 < length v"
  shows "header_field (request_text l0 ls) name k = Fault"
  using header_field_lookup [OF assms(1-4)] assms(5,6) by simp

theorem long_header_overruns_witness:
  "\<forall>k. header_field (request_text ''GET / HTTP/1.1'' [''Host: '' @ replicate 1025 (CHR ''a'')]) ''Host: '' k = Fault"
proof
  fix k
  show "header_field (request_text ''GET / HTTP/1.1'' [''Host: '' @ replicate 1025 (CHR ''a'')]) ''Host: '' k = Fault"
    by (rule long_header_overruns [of _ _ _ "replicate 1025 (CHR ''a'')"])
      (simp_all only: length_replicate, simp_all add: header_line_def header_value_def)
qed

end
