(* ===== verification/Blacklist.thy ===== *)
theory Blacklist
  imports CString
begin

text \<open>
  The blacklist of \<^verbatim>\<open>src/common/network/Blacklist.cxx\<close>: addresses with too many
  failed logins are refused until they have been quiet for some time. Two maps keep the
  number of failures and the time of the last refused or failed attempt; the clock and
  the two settings are arguments.
\<close>

record blacklist =
  hits :: "string \<rightharpoonup> nat"
  listed :: "string \<rightharpoonup> int"

definition empty_blacklist :: blacklist where
  "empty_blacklist = \<lparr>hits = Map.empty, listed = Map.empty\<rparr>"

definition bl_isBlacklisted :: "nat \<Rightarrow> int \<Rightarrow> string \<Rightarrow> blacklist \<Rightarrow> bool \<times> blacklist" where
  "bl_isBlacklisted timeout now addr b =
     (case listed b addr of None \<Rightarrow> (False, b)
      | Some t \<Rightarrow>
          if now - int timeout > t
          then (False, b\<lparr>listed := (listed b)(addr := None), hits := (hits b)(addr := None)\<rparr>)
          else (True, b\<lparr>listed := (listed b)(addr \<mapsto> now)\<rparr>))"

definition num_hits :: "blacklist \<Rightarrow> string \<Rightarrow> nat" where
  "num_hits b addr = (case hits b addr of None \<Rightarrow> 0 | Some n \<Rightarrow> n)"

definition bl_addFailure :: "nat \<Rightarrow> int \<Rightarrow> string \<Rightarrow> blacklist \<Rightarrow> blacklist" where
  "bl_addFailure threshold now addr b =
     (if threshold = 0 then b
      else
        let num = u32 (int (num_hits b addr) + 1);
            b1 = b\<lparr>hits := (hits b)(addr \<mapsto> num)\<rparr>
        in if num \<ge> threshold then b1\<lparr>listed := (listed b1)(addr \<mapsto> now)\<rparr> else b1)"

section \<open>Failures add up\<close>

text \<open>The failures of one address, one after the other.\<close>

fun fail_all :: "nat \<Rightarrow> int list \<Rightarrow> string \<Rightarrow> blacklist \<Rightarrow> blacklist" where
  "fail_all threshold [] addr b = b"
| "fail_all threshold (t # ts) addr b = fail_all threshold ts addr (bl_addFailure threshold t addr b)"

lemma num_hits_addFailure:
  "\<lbrakk>threshold \<noteq> 0; num_hits b addr + 1 < 4294967296\<rbrakk>
   \<Longrightarrow> num_hits (bl_addFailure threshold now addr b) a = (if a = addr then num_hits b addr + 1 else num_hits b a)"
  using u32_add [of "num_hits b addr" 1] by (simp add: bl_addFailure_def num_hits_def Let_def)

lemma listed_addFailure:
  "\<lbrakk>threshold \<noteq> 0; num_hits b addr + 1 < 4294967296\<rbrakk> \<Longrightarrow>
   listed (bl_addFailure threshold now addr b)
     = (if num_hits b addr + 1 \<ge> threshold then (listed b)(addr \<mapsto> now) else listed b)"
  using u32_add [of "num_hits b addr" 1] by (simp add: bl_addFailure_def num_hits_def Let_def)

lemma fail_all_hits:
  assumes "threshold \<noteq> 0" "num_hits b addr + length ts < 4294967296"
  shows "num_hits (fail_all threshold ts addr b) addr = num_hits b addr + length ts"
  using assms by (induction ts arbitrary: b) (simp_all add: num_hits_addFailure)

lemma fail_all_snoc: "fail_all threshold (ts @ [t]) addr b = bl_addFailure threshold t addr (fail_all threshold ts addr b)"
  by (induction ts arbitrary: b) simp_all

lemma fail_all_listed:
  assumes "0 < threshold" "threshold \<le> length ts" "length ts < 4294967296"
  shows "listed (fail_all threshold ts addr empty_blacklist) addr = Some (last ts)"
proof -
  have "ts \<noteq> []" using assms by auto
  then obtain ss t where ts: "ts = ss @ [t]" by (metis append_butlast_last_id)
  have n: "num_hits (fail_all threshold ss addr empty_blacklist) addr = length ss"
    using fail_all_hits [of threshold empty_blacklist addr ss] assms ts
    by (simp add: empty_blacklist_def num_hits_def)
  then show ?thesis
    using listed_addFailure [of threshold "fail_all threshold ss addr empty_blacklist" addr t] assms ts
    by (simp add: fail_all_snoc)
qed

lemma fail_all_few:
  assumes "threshold \<noteq> 0" "length ts < threshold" "threshold < 4294967296"
  shows "listed (fail_all threshold ts addr empty_blacklist) = Map.empty"
  using assms(2)
proof (induction ts rule: rev_induct)
  case Nil
  show ?case by (simp add: empty_blacklist_def)
next
  case (snoc t ts)
  have n: "num_hits (fail_all threshold ts addr empty_blacklist) addr = length ts"
    using fail_all_hits [of threshold empty_blacklist addr ts] assms snoc.prems
    by (simp add: empty_blacklist_def num_hits_def)
  then show ?case
    using listed_addFailure [of threshold "fail_all threshold ts addr empty_blacklist" addr t] assms snoc
    by (simp add: fail_all_snoc)
qed

section \<open>Properties\<close>

text \<open>
  C32. After as many failures as the threshold, from an empty blacklist, an address is
  refused until it has made no attempt for longer than the timeout; each refused attempt
  starts the wait again. With fewer failures it is not refused, and the failures of one
  address never affect another.
\<close>

theorem blacklist_policy:
  assumes "0 < threshold" "threshold < 4294967296" "length ts < 4294967296" "other \<noteq> addr"
  shows "(fst (bl_isBlacklisted timeout now addr (fail_all threshold ts addr empty_blacklist))
      \<longleftrightarrow> threshold \<le> length ts \<and> now - int timeout \<le> last ts)
    \<and> (threshold \<le> length ts \<longrightarrow> now - int timeout \<le> last ts \<longrightarrow>
         listed (snd (bl_isBlacklisted timeout now addr (fail_all threshold ts addr empty_blacklist))) addr = Some now)
    \<and> \<not> fst (bl_isBlacklisted timeout now other (fail_all threshold ts addr empty_blacklist))"
proof -
  have "listed (fail_all threshold ts addr empty_blacklist) other = None"
    using assms(4) by (induction ts rule: rev_induct)
      (auto simp: empty_blacklist_def fail_all_snoc bl_addFailure_def Let_def)
  then show ?thesis
    using fail_all_listed [of threshold ts addr] fail_all_few [of threshold ts addr] assms
    by (cases "threshold \<le> length ts") (auto simp: bl_isBlacklisted_def)
qed

theorem blacklist_policy_witness:
  "fst (bl_isBlacklisted 10 105 ''1.2.3.4'' (fail_all 2 [90, 100] ''1.2.3.4'' empty_blacklist))
   \<and> \<not> fst (bl_isBlacklisted 10 111 ''1.2.3.4'' (fail_all 2 [90, 100] ''1.2.3.4'' empty_blacklist))"
  using blacklist_policy [of 2 "[90, 100]" "''5.6.7.8''" "''1.2.3.4''" 10 105]
    blacklist_policy [of 2 "[90, 100]" "''5.6.7.8''" "''1.2.3.4''" 10 111] by simp

end
