(* ===== verification/HttpAuth.thy ===== *)
theory HttpAuth
  imports OwnerApi HttpHandshake Blacklist WebSocketProxy
begin

unbundle bit_operations_syntax

text \<open>
  The handshake of a new connection, do\_handshake of \<^verbatim>\<open>websocket.c\<close>: TLS or plain,
  reading the request, the address of a proxied client, the blacklist, BasicAuth, and then
  the WebSocket upgrade, the owner's API or a file; and subthread, which runs the proxy
  loop on an upgraded connection.
\<close>

section \<open>Settings and environment\<close>

record settings =
  s_cert :: "string option"
  s_ssl_only :: bool
  s_disablebasicauth :: bool
  s_passwdfile :: "string option"
  s_httpdir :: "string option"

text \<open>
  What the handshake gets from outside: the first bytes of the connection (none when recv
  fails), whether the certificate can be read, whether the memory behind the request has a
  comma before it ends, the results of the reads, the clock, the blacklist settings,
  the hash functions, the password file's content, the API's environment and the files.
\<close>

record hs_env =
  peek :: "string option"
  comma_behind :: bool
  cert_readable :: bool
  recvs :: "(int \<times> string) list"
  now :: int
  bl_threshold :: nat
  bl_timeout :: nat
  b64_read :: bio_read
  b64_write :: bio_write
  sha1 :: "byte list \<Rightarrow> byte list"
  md5 :: "byte list \<Rightarrow> byte list"
  aenv :: api_env
  filesystem :: filesys

datatype sent =
    Status string
  | ApiSent api_reply
  | FileSent reply
  | Upgrade string

text \<open>
  The end of a handshake: a connection to serve, with the address that the caller's buffer
  then holds, none, or an access outside the buffers, which is taken for a crash.
\<close>

datatype hs_end = Connected ws_ctx string | NoConnection | Crashed

section \<open>Reading the request\<close>

datatype request = Request string | ReadFailed | TooLarge

definition HANDSHAKE_SIZE :: nat where
  "HANDSHAKE_SIZE = 16384"

fun read_request :: "nat \<Rightarrow> string \<Rightarrow> (int \<times> string) list \<Rightarrow> request" where
  "read_request left acc [] = ReadFailed"
| "read_request left acc ((len, data) # rs) =
     (if left = 0 then ReadFailed
      else if len \<le> 0 then ReadFailed
      else
        let acc' = acc @ data in
        if strstr (cstr acc') (CRLF @ CRLF) \<noteq> None then Request (cstr acc')
        else if HANDSHAKE_SIZE \<le> length acc' + 1 then TooLarge
        else if left = 1 then ReadFailed
        else read_request (left - 1) acc' rs)"

text \<open>
  The address in X-Forwarded-For, up to a comma or the end of the line, replaces the one of
  the socket if it looks like one. With no end of line behind the header memchr gets a
  huge length and looks for a comma in the request and then in the memory behind it: a
  comma found there gives a text with the request's final zero in it, which is refused;
  with no comma there the search leaves the mapped memory, and the result is none.
\<close>

definition forwarded_ip :: "bool \<Rightarrow> string \<Rightarrow> string \<Rightarrow> string option" where
  "forwarded_ip comma req ip =
     (case strcasestr req ''X-Forwarded-For: '' of None \<Rightarrow> Some ip
      | Some s \<Rightarrow>
          let fwd = drop 17 s;
              check = (\<lambda>v. if \<not> isValidIp v \<or> length v \<ge> 64 then ip else v)
          in (case strchr fwd (CHR 0x0D) of
                Some e \<Rightarrow>
                  Some (check (takeWhile (\<lambda>c. c \<noteq> CHR '','') (take (length fwd - length e) fwd)))
              | None \<Rightarrow>
                  if CHR '','' \<in> set fwd then Some (check (takeWhile (\<lambda>c. c \<noteq> CHR '','') fwd))
                  else if comma then Some ip else None))"

section \<open>BasicAuth\<close>

datatype auth = Denied string | Granted string bool

definition to_bytes :: "string \<Rightarrow> byte list" where
  "to_bytes s = map of_char s"

definition of_bytes :: "byte list \<Rightarrow> string" where
  "of_bytes bs = map (\<lambda>b. char_of (unat b)) bs"

text \<open>
  The comparison of the credentials. \<open>resp\<close> is the decoded header, as a C string; the
  result is what authbuf and response hold at the strcmp, the user field of the context
  and whether the user is an owner.
\<close>

definition credentials ::
  "(string \<Rightarrow> string) \<Rightarrow> string option \<Rightarrow> kasmpasswd_entry list \<Rightarrow> string
   \<Rightarrow> string \<times> string \<times> string \<times> bool"
where
  "credentials crypt passwdfile users resp =
     (let resppw = map_option tl (strchr resp (CHR '':''));
          name = takeWhile (\<lambda>c. c \<noteq> CHR '':'') resp
      in if passwdfile = None then ('''', resp, '''', False)
         else
           (case resppw of
              None \<Rightarrow> (''a'', '''', '''', False)
            | Some pw \<Rightarrow>
                if pw \<noteq> '''' \<and> Suc (length name) < USERNAME_LEN + 1 then
                  let entry = List.find (\<lambda>e. user e = name) users;
                      response = take 4095 (name @ '':'' @ crypt pw)
                  in (case entry of
                        None \<Rightarrow> ('''', response, '''', False)
                      | Some e \<Rightarrow>
                          (take 4095 (user e @ '':'' @ password e), response, user e, p_owner e))
                else (''a'', '''', '''', False)))"

definition basic_auth :: "settings \<Rightarrow> hs_env \<Rightarrow> string \<Rightarrow> auth" where
  "basic_auth st env req =
     (case strcasestr req ''Authorization: Basic '' of None \<Rightarrow> Denied ''401 Unauthorized''
      | Some s \<Rightarrow>
          let hdr = drop 21 s in
          (case strchr hdr (CHR 0x0D) of None \<Rightarrow> Denied ''403 Forbidden''
           | Some e \<Rightarrow>
               let tmp = take (length hdr - length e) hdr in
               if length tmp > 256 then Denied ''403 Forbidden''
               else
                 let (len, dec) = ws_b64_pton (b64_read env) (to_bytes tmp) 256;
                     resp = cstr (of_bytes dec);
                     users = readkasmpasswd (api_passwd (aenv env));
                     (authbuf, response, inuser, owner) =
                       credentials (api_crypt (aenv env)) (s_passwdfile st) users resp
                 in if len \<le> 0 \<or> authbuf \<noteq> response then Denied ''401 Forbidden''
                    else Granted inuser owner))"

section \<open>The answer to an upgrade\<close>

definition strtok_comma :: "string \<Rightarrow> string option" where
  "strtok_comma s =
     (let t = dropWhile (\<lambda>c. c = CHR '','') s in
      if t = [] then None else Some (takeWhile (\<lambda>c. c \<noteq> CHR '','') t))"

definition gen_sha1 :: "hs_env \<Rightarrow> headers_t \<Rightarrow> string" where
  "gen_sha1 env hs =
     cstr (of_bytes (snd (ws_b64_ntop (b64_write env)
       (sha1 env (to_bytes (hd_key1 hs @ ''258EAFA5-E914-47DA-95CA-C5AB0DC85B11''))) 29)))"

definition upgrade_response :: "hs_env \<Rightarrow> ws_ctx \<Rightarrow> string \<Rightarrow> string \<Rightarrow> string option" where
  "upgrade_response env ctx scheme protocol =
     (let hs = headers ctx in
      if hybi ctx > 0 then
        Some (take 4095 (''HTTP/1.1 101 Switching Protocols'' @ CRLF @ ''Upgrade: websocket'' @ CRLF
          @ ''Connection: Upgrade'' @ CRLF @ ''Sec-WebSocket-Accept: '' @ gen_sha1 env hs @ CRLF
          @ ''Sec-WebSocket-Protocol: '' @ protocol @ CRLF @ CRLF))
      else
        let text = (\<lambda>pre trailer. take 4095 (''HTTP/1.1 101 Web Socket Protocol Handshake'' @ CRLF
              @ ''Upgrade: WebSocket'' @ CRLF @ ''Connection: Upgrade'' @ CRLF
              @ pre @ ''WebSocket-Origin: '' @ hd_origin hs @ CRLF
              @ pre @ ''WebSocket-Location: '' @ scheme @ ''://'' @ hd_host hs @ hd_path hs @ CRLF
              @ pre @ ''WebSocket-Protocol: '' @ ''base64'' @ CRLF @ CRLF @ trailer))
        in if hixie ctx = 76 then
             map_option (\<lambda>d. text ''Sec-'' (cstr (of_bytes d))) (gen_md5 (md5 env) hs)
           else Some (text '''' ''''))"

section \<open>do\_handshake\<close>

definition new_ctx :: "bool \<Rightarrow> ws_ctx" where
  "new_ctx ssl =
     \<lparr>over_ssl = ssl, hixie = 0, hybi = 0, ws_opcode = 0,
      headers = \<lparr>hd_path = '''', hd_host = '''', hd_origin = '''', hd_version = '''',
        hd_connection = '''', hd_protocols = '''', hd_key1 = '''', hd_key2 = '''', hd_key3 = ''''\<rparr>,
      ws_user = '''', ws_ip = ''''\<rparr>"

text \<open>What happens once the client is admitted.\<close>

definition serve_request ::
  "settings \<Rightarrow> hs_env \<Rightarrow> 'm callbacks \<Rightarrow> ws_ctx \<Rightarrow> string \<Rightarrow> string \<Rightarrow> bool \<Rightarrow> 'm \<Rightarrow> hs_end \<times> sent list \<times> 'm"
where
  "serve_request st env cb ctx ip req owner m =
     (let files = (case s_httpdir st of None \<Rightarrow> [] | Some d \<Rightarrow>
                     if d = '''' then [] else [FileSent (servefile (filesystem env) d req)])
      in case parse_handshake ctx req of
           Fault \<Rightarrow> (Crashed, [], m)
         | Reject \<Rightarrow>
             if strstr req ''/api/'' \<noteq> None then
               if owner then
                 (case ownerapi cb (aenv env) req m of
                    (m', Unhandled) \<Rightarrow> (NoConnection, files, m')
                  | (m', Sent r) \<Rightarrow> (NoConnection, [ApiSent r], m')
                  | (m', Overrun) \<Rightarrow> (Crashed, [], m'))
               else (NoConnection, [Status ''401 Unauthorized''], m)
             else (NoConnection, files, m)
         | Accept ctx1 \<Rightarrow>
             let token = strtok_comma (hd_protocols (headers ctx1));
                 protocol = (case token of None \<Rightarrow> ''null'' | Some p \<Rightarrow> if p = '''' then ''null'' else p);
                 ctx2 = ctx1\<lparr>ws_opcode := (if token = Some ''base64'' then OPCODE_TEXT else OPCODE_BINARY)\<rparr>
             in (case upgrade_response env ctx2 (if over_ssl ctx2 then ''wss'' else ''ws'') protocol of
                   None \<Rightarrow> (Crashed, [], m)
                 | Some r \<Rightarrow> (Connected ctx2 ip, [Upgrade r], m)))"

text \<open>
  What follows the request: the blacklist, BasicAuth and the service. A denied login
  counts as a failure of the address.
\<close>

definition handle_request ::
  "settings \<Rightarrow> hs_env \<Rightarrow> 'm callbacks \<Rightarrow> bool \<Rightarrow> string \<Rightarrow> string \<Rightarrow> blacklist \<Rightarrow> 'm
   \<Rightarrow> hs_end \<times> sent list \<times> blacklist \<times> 'm"
where
  "handle_request st env cb tls req ip b m =
     (let (blocked, b1) = bl_isBlacklisted (bl_timeout env) (now env) ip b in
      if blocked then (NoConnection, [Status ''401 Forbidden''], b1, m)
      else if s_disablebasicauth st then
        let (r, out, m') = serve_request st env cb (new_ctx tls) ip req False m in (r, out, b1, m')
      else
        (case basic_auth st env req of
           Denied status \<Rightarrow>
             (NoConnection, [Status status], bl_addFailure (bl_threshold env) (now env) ip b1, m)
         | Granted inuser owner \<Rightarrow>
             let (r, out, m') =
                   serve_request st env cb ((new_ctx tls)\<lparr>ws_user := inuser\<rparr>) ip req owner m
             in (r, out, b1, m')))"

definition is_tls :: "string \<Rightarrow> bool" where
  "is_tls data \<longleftrightarrow> data \<noteq> '''' \<and> (hd data = CHR 0x16 \<or> hd data = CHR 0x80)"

text \<open>When the first recv fails, the zero is written in front of the buffer.\<close>

definition do_handshake ::
  "settings \<Rightarrow> hs_env \<Rightarrow> 'm callbacks \<Rightarrow> string \<Rightarrow> blacklist \<Rightarrow> 'm
   \<Rightarrow> hs_end \<times> sent list \<times> blacklist \<times> 'm"
where
  "do_handshake st env cb ip b m =
     (case peek env of None \<Rightarrow> (Crashed, [], b, m)
      | Some data \<Rightarrow>
          if data = '''' then (NoConnection, [], b, m)
          else if is_tls data \<and> (s_cert st = None \<or> \<not> cert_readable env) then (NoConnection, [], b, m)
          else if \<not> is_tls data \<and> s_ssl_only st then (NoConnection, [], b, m)
          else
            (case read_request 10 '''' (recvs env) of
               ReadFailed \<Rightarrow> (NoConnection, [], b, m)
             | TooLarge \<Rightarrow> (NoConnection, [Status ''400 Bad Request''], b, m)
             | Request req \<Rightarrow>
                 (case forwarded_ip (comma_behind env) req ip of None \<Rightarrow> (Crashed, [], b, m)
                  | Some ip' \<Rightarrow> handle_request st env cb (is_tls data) req ip' b m)))"

section \<open>A connection's thread\<close>

text \<open>
  proxy\_handler connects a local socket that it has bound to a name made of the user, the
  address and the time. The name is written to sun\_path, an array of 108 characters,
  without a check of its length: a longer one overruns it.
\<close>

function dec :: "nat \<Rightarrow> string" where
  "dec n = (if n < 10 then [char_of (48 + n)] else dec (n div 10) @ [char_of (48 + n mod 10)])"
  by pat_completeness auto
termination
  by (relation "measure id") auto

declare dec.simps [simp del]

definition SUN_PATH :: nat where
  "SUN_PATH = 108"

definition socket_name :: "ws_ctx \<Rightarrow> nat \<Rightarrow> nat \<Rightarrow> string" where
  "socket_name ctx sec usec =
     ''.'' @ ws_user ctx @ ''@'' @ ws_ip ctx @ ''_'' @ dec sec @ ''.'' @ dec usec"

datatype session = Proxied string proxy "stop_reason option" | NotConnected | NoSession | Smashed

definition proxy_handler ::
  "bio_write \<Rightarrow> bio_read \<Rightarrow> ws_ctx \<Rightarrow> nat \<times> nat \<Rightarrow> bool \<Rightarrow> nat \<times> nat \<Rightarrow> io list \<Rightarrow> session"
where
  "proxy_handler bw br ctx time connect_ok junk ios =
     (let path = socket_name ctx (fst time) (snd time) in
      if Suc (length path) > SUN_PATH then Smashed
      else if \<not> connect_ok then NotConnected
      else
        let (p, stop) = do_proxy bw br ctx ios (proxy_init (fst junk) (snd junk))
        in Proxied (NUL # tl path) p stop)"

text \<open>
  subthread: the handshake, then the proxy. \<open>junk\<close> are the values of the loop's
  uninitialised variables.
\<close>

definition subthread ::
  "settings \<Rightarrow> hs_env \<Rightarrow> 'm callbacks \<Rightarrow> string \<Rightarrow> nat \<times> nat \<Rightarrow> bool \<Rightarrow> nat \<times> nat \<Rightarrow> io list
   \<Rightarrow> blacklist \<Rightarrow> 'm \<Rightarrow> session \<times> sent list \<times> blacklist \<times> 'm"
where
  "subthread st env cb ip time connect_ok junk ios b m =
     (case do_handshake st env cb ip b m of
        (Connected ctx ip', out, b', m') \<Rightarrow>
          (proxy_handler (b64_write env) (b64_read env) (ctx\<lparr>ws_ip := ip'\<rparr>) time connect_ok junk ios,
           out, b', m')
      | (NoConnection, out, b', m') \<Rightarrow> (NoSession, out, b', m')
      | (Crashed, out, b', m') \<Rightarrow> (Smashed, out, b', m'))"

end
