(* ===== verification/HttpAuthProps.thy ===== *)
theory HttpAuthProps
  imports HttpAuth
begin

text \<open>
  What the handshake guarantees: nobody is served without the password of an entry of the
  password file, the owner's API needs an owner, failed logins are counted, and an address
  with too many of them is refused whatever it sends.
\<close>

section \<open>Credentials\<close>

text \<open>The entries of the password file are short.\<close>

lemma parse_entry_bounds:
  "parse_entry l = Some e \<Longrightarrow> length (user e) < USERNAME_LEN \<and> length (password e) < PASSWORD_LEN"
  by (auto simp: parse_entry_def Let_def split: option.splits if_splits)

lemma readkasmpasswd_bounds:
  "e \<in> set (readkasmpasswd f) \<Longrightarrow> length (user e) < USERNAME_LEN \<and> length (password e) < PASSWORD_LEN"
  by (auto simp: readkasmpasswd_def List.map_filter_def parse_entry_bounds split: option.splits)

lemma strchr_split:
  "strchr s c = Some t \<Longrightarrow> s = takeWhile (\<lambda>x. x \<noteq> c) s @ c # tl t"
  by (induction s) (auto simp: strchr_def split: list.splits if_splits)

lemma take_eq_short: "take n xs = ys \<Longrightarrow> length ys < n \<Longrightarrow> xs = ys"
  by (metis length_take min.strict_order_iff nat_neq_iff take_all less_irrefl min_less_iff_disj le_refl linorder_not_le)

text \<open>The strcmp succeeds exactly for the name and the password of an entry.\<close>

lemma credentials_match:
  assumes "\<forall>e\<in>set users. length (user e) < USERNAME_LEN \<and> length (password e) < PASSWORD_LEN"
  shows "credentials crypt (Some pf) users resp = (a, a, u, own) \<longleftrightarrow>
    (\<exists>pw e. resp = u @ '':'' @ pw \<and> CHR '':'' \<notin> set u \<and> pw \<noteq> '''' \<and> List.find (\<lambda>e. user e = u) users = Some e
      \<and> password e = crypt pw \<and> own = p_owner e \<and> a = u @ '':'' @ crypt pw)" (is "?l \<longleftrightarrow> ?r")
proof
  assume l: ?l
  then obtain t where t: "strchr resp (CHR '':'') = Some t"
    by (cases "strchr resp (CHR '':'')") (auto simp: credentials_def Let_def)
  define name where "name = takeWhile (\<lambda>c. c \<noteq> CHR '':'') resp"
  have resp: "resp = name @ '':'' @ tl t" using strchr_split [OF t] by (simp add: name_def)
  have ok: "tl t \<noteq> ''''" "Suc (length name) < USERNAME_LEN + 1"
    using l t by (auto simp: credentials_def Let_def name_def split: if_splits)
  obtain e where e: "List.find (\<lambda>e. user e = name) users = Some e"
    using l t ok by (cases "List.find (\<lambda>e. user e = name) users")
      (auto simp: credentials_def Let_def name_def split: if_splits)
  have "e \<in> set users" "user e = name" using e by (auto simp: find_Some_iff)
  then have len: "length (name @ '':'' @ password e) < 4095"
    using assms by (fastforce simp: USERNAME_LEN_def PASSWORD_LEN_def)
  have eqs: "a = take 4095 (user e @ '':'' @ password e)" "a = take 4095 (name @ '':'' @ crypt (tl t))"
    "u = name" "own = p_owner e"
    using l t ok e \<open>user e = name\<close> by (auto simp: credentials_def Let_def name_def split: if_splits)
  have a: "a = name @ '':'' @ password e" using eqs(1) \<open>user e = name\<close> len by simp
  then have "name @ '':'' @ crypt (tl t) = name @ '':'' @ password e"
    using take_eq_short [OF eqs(2) [symmetric]] len by simp
  moreover have "CHR '':'' \<notin> set name" by (auto simp: name_def dest: set_takeWhileD)
  ultimately show ?r using resp ok e a eqs by auto
next
  assume ?r
  then obtain pw e where r: "resp = u @ '':'' @ pw" "CHR '':'' \<notin> set u" "pw \<noteq> ''''"
    "List.find (\<lambda>e. user e = u) users = Some e" "password e = crypt pw" "own = p_owner e" "a = u @ '':'' @ crypt pw"
    by blast
  have "e \<in> set users" "user e = u" using r(4) by (auto simp: find_Some_iff)
  then have "length u < USERNAME_LEN" "length (u @ '':'' @ crypt pw) < 4095"
    using assms r(5) by (fastforce simp: USERNAME_LEN_def PASSWORD_LEN_def)+
  then show ?l
    using r \<open>user e = u\<close> by (simp add: credentials_def strchr_append takeWhile_not)
qed

text \<open>The Authorization header of a request and the text it decodes to.\<close>

definition auth_header :: "string \<Rightarrow> string option" where
  "auth_header req =
     (case strcasestr req ''Authorization: Basic '' of None \<Rightarrow> None
      | Some s \<Rightarrow> map_option (\<lambda>e. take (length (drop 21 s) - length e) (drop 21 s))
                    (strchr (drop 21 s) (CHR 0x0D)))"

definition presents :: "hs_env \<Rightarrow> string \<Rightarrow> string \<Rightarrow> bool" where
  "presents env req resp \<longleftrightarrow>
     (case auth_header req of None \<Rightarrow> False
      | Some tmp \<Rightarrow>
          length tmp \<le> 256 \<and> fst (ws_b64_pton (b64_read env) (to_bytes tmp) 256) > 0
          \<and> resp = cstr (of_bytes (snd (ws_b64_pton (b64_read env) (to_bytes tmp) 256))))"

definition knows_password :: "hs_env \<Rightarrow> string \<Rightarrow> string \<Rightarrow> bool \<Rightarrow> bool" where
  "knows_password env req name own \<longleftrightarrow>
     (\<exists>pw e. presents env req (name @ '':'' @ pw) \<and> CHR '':'' \<notin> set name \<and> pw \<noteq> ''''
        \<and> List.find (\<lambda>e. user e = name) (readkasmpasswd (api_passwd (aenv env))) = Some e
        \<and> password e = api_crypt (aenv env) pw \<and> own = p_owner e)"

lemma basic_auth_granted:
  assumes "s_passwdfile st = Some pf"
  shows "basic_auth st env req = Granted u own \<longleftrightarrow> knows_password env req u own"
proof -
  let ?users = "readkasmpasswd (api_passwd (aenv env))"
  have bounds: "\<forall>e\<in>set ?users. length (user e) < USERNAME_LEN \<and> length (password e) < PASSWORD_LEN"
    using readkasmpasswd_bounds by blast
  show ?thesis
  proof (cases "auth_header req")
    case None
    then show ?thesis
      by (auto simp: basic_auth_def knows_password_def presents_def auth_header_def Let_def split: option.splits)
  next
    case (Some tmp)
    obtain len d where dec: "ws_b64_pton (b64_read env) (to_bytes tmp) 256 = (len, d)" by fastforce
    obtain a r w ow where cred: "credentials (api_crypt (aenv env)) (Some pf) ?users (cstr (of_bytes d)) = (a, r, w, ow)"
      by (metis prod_cases4)
    have "basic_auth st env req = Granted u own
        \<longleftrightarrow> length tmp \<le> 256 \<and> len > 0 \<and> (a, r, w, ow) = (r, r, u, own)"
      using Some dec cred assms
      by (auto simp: basic_auth_def auth_header_def Let_def split: option.splits if_splits)
    also have "\<dots> \<longleftrightarrow> length tmp \<le> 256 \<and> len > 0 \<and>
        (\<exists>a. credentials (api_crypt (aenv env)) (Some pf) ?users (cstr (of_bytes d)) = (a, a, u, own))"
      using cred by auto
    also have "\<dots> \<longleftrightarrow> knows_password env req u own"
      unfolding credentials_match [OF bounds]
      by (auto simp: knows_password_def presents_def Some dec) (metis append_Cons append_Nil)+
    finally show ?thesis .
  qed
qed

section \<open>Stages of the handshake\<close>

text \<open>The request parser leaves the user of the context alone.\<close>

lemma header_field_Accept:
  "header_field req name k = Accept c \<Longrightarrow> \<exists>v. k v = Accept c"
  by (auto simp: header_field_def split: option.splits)

lemma origin_field_Accept:
  "origin_field req k = Accept c \<Longrightarrow> \<exists>v. k v = Accept c"
  by (auto simp: origin_field_def dest: header_field_Accept split: if_splits)

lemma hybi_fields_user: "hybi_fields ctx h req = Accept c \<Longrightarrow> ws_user c = ws_user ctx"
  by (auto simp: hybi_fields_def dest!: header_field_Accept)

lemma hixie_fields_user: "hixie_fields ctx h req = Accept c \<Longrightarrow> ws_user c = ws_user ctx"
  by (auto simp: hixie_fields_def Let_def dest!: header_field_Accept split: option.splits if_splits)

lemma parse_handshake_user: "parse_handshake ctx req = Accept c \<Longrightarrow> ws_user c = ws_user ctx"
  by (auto simp: parse_handshake_def Let_def dest!: header_field_Accept origin_field_Accept
      dest: hybi_fields_user hixie_fields_user split: option.splits if_splits)

text \<open>Without the owner's permission the state behind the callbacks does not change.\<close>

lemma serve_request_not_owner:
  "serve_request st env cb ctx ip req False m = (r, out, m') \<Longrightarrow> m' = m \<and> ApiSent x \<notin> set out"
  by (auto simp: serve_request_def Let_def split: handshake.splits option.splits if_splits)

lemma serve_request_connected:
  "serve_request st env cb ctx ip req own m = (Connected c a, out, m') \<Longrightarrow> ws_user c = ws_user ctx \<and> a = ip"
  by (auto simp: serve_request_def Let_def dest: parse_handshake_user
      split: handshake.splits option.splits if_splits prod.splits api_result.splits)

text \<open>The checks before the request: a connection with data, of an allowed kind.\<close>

definition channel_ok :: "settings \<Rightarrow> hs_env \<Rightarrow> bool" where
  "channel_ok st env \<longleftrightarrow>
     peek env \<noteq> None \<and> the (peek env) \<noteq> '''' \<and>
     (if is_tls (the (peek env)) then s_cert st \<noteq> None \<and> cert_readable env else \<not> s_ssl_only st)"

definition requests :: "settings \<Rightarrow> hs_env \<Rightarrow> string \<Rightarrow> string \<Rightarrow> string \<Rightarrow> bool" where
  "requests st env ip req addr \<longleftrightarrow>
     channel_ok st env \<and> read_request 10 '''' (recvs env) = Request req \<and> forwarded_ip (comma_behind env) req ip = Some addr"

lemma do_handshake_request:
  "requests st env ip req addr \<Longrightarrow>
   do_handshake st env cb ip b m = handle_request st env cb (is_tls (the (peek env))) req addr b m"
  by (auto simp: do_handshake_def channel_ok_def requests_def split: if_splits option.splits)

lemma do_handshake_no_request:
  assumes "\<nexists>req addr. requests st env ip req addr" "do_handshake st env cb ip b m = (r, out, b', m')"
  shows "(r = NoConnection \<or> r = Crashed) \<and> set out \<subseteq> range Status \<and> b' = b \<and> m' = m"
  using assms
  by (auto simp: do_handshake_def channel_ok_def requests_def split: if_splits request.splits option.splits)

text \<open>What counts as being served: a connection, a file, an answer of the API or an effect of it.\<close>

definition served :: "hs_end \<Rightarrow> sent list \<Rightarrow> bool" where
  "served r out \<longleftrightarrow> r \<noteq> NoConnection \<and> r \<noteq> Crashed \<or> \<not> set out \<subseteq> range Status"

lemma handle_request_authenticates:
  assumes "\<not> s_disablebasicauth st" "s_passwdfile st = Some pf"
    and "handle_request st env cb tls req addr b m = (r, out, b', m')" "served r out \<or> m' \<noteq> m"
  obtains name own where "knows_password env req name own"
    and "\<not> fst (bl_isBlacklisted (bl_timeout env) (now env) addr b)"
    and "\<And>c a. r = Connected c a \<Longrightarrow> ws_user c = name \<and> a = addr"
    and "\<And>x. ApiSent x \<in> set out \<or> m' \<noteq> m \<Longrightarrow> own"
proof -
  obtain blocked b1 where bl: "bl_isBlacklisted (bl_timeout env) (now env) addr b = (blocked, b1)" by fastforce
  have nb: "\<not> blocked" using assms(3,4) bl by (auto simp: handle_request_def served_def)
  obtain name own where g: "basic_auth st env req = Granted name own"
    using assms bl nb by (cases "basic_auth st env req") (auto simp: handle_request_def served_def)
  have sr: "serve_request st env cb ((new_ctx tls)\<lparr>ws_user := name\<rparr>) addr req own m = (r, out, m')"
    using assms(1,3) bl nb g by (auto simp: handle_request_def Let_def split: prod.splits)
  show thesis
  proof
    show "knows_password env req name own" using g basic_auth_granted [OF assms(2)] by blast
    show "\<not> fst (bl_isBlacklisted (bl_timeout env) (now env) addr b)" using bl nb by simp
    show "ws_user c = name \<and> a = addr" if "r = Connected c a" for c a
      using serve_request_connected sr that by fastforce
    show own if "ApiSent x \<in> set out \<or> m' \<noteq> m" for x
      using serve_request_not_owner [of st env cb _ addr req m r out m' x] sr that by (cases own) auto
  qed
qed

lemma handle_request_denied:
  assumes "\<not> s_disablebasicauth st" "s_passwdfile st = Some pf" "\<nexists>name own. knows_password env req name own"
    and "bl_isBlacklisted (bl_timeout env) (now env) addr b = (False, b1)"
  shows "\<exists>status. handle_request st env cb tls req addr b m
    = (NoConnection, [Status status], bl_addFailure (bl_threshold env) (now env) addr b1, m)"
  using assms basic_auth_granted [OF assms(2), of env req]
  by (cases "basic_auth st env req") (auto simp: handle_request_def)

lemma handle_request_blocked:
  "bl_isBlacklisted (bl_timeout env) (now env) addr b = (True, b1) \<Longrightarrow>
   handle_request st env cb tls req addr b m = (NoConnection, [Status ''401 Forbidden''], b1, m)"
  by (simp add: handle_request_def)

section \<open>Sequences of handshakes\<close>

text \<open>Handshakes of clients at one address, one after the other.\<close>

fun handshakes ::
  "settings \<Rightarrow> 'm callbacks \<Rightarrow> string \<Rightarrow> hs_env list \<Rightarrow> blacklist \<Rightarrow> 'm
   \<Rightarrow> (hs_end \<times> sent list) list \<times> blacklist \<times> 'm"
where
  "handshakes st cb ip [] b m = ([], b, m)"
| "handshakes st cb ip (e # es) b m =
     (let (r, out, b1, m1) = do_handshake st e cb ip b m;
          (rs, b2, m2) = handshakes st cb ip es b1 m1
      in ((r, out) # rs, b2, m2))"

lemma handshakes_append:
  "handshakes st cb ip (es @ fs) b m =
     (let (rs, b1, m1) = handshakes st cb ip es b m; (ss, b2, m2) = handshakes st cb ip fs b1 m1
      in (rs @ ss, b2, m2))"
  by (induction es arbitrary: b m) (auto simp: split: prod.split)

lemma handshakes_length: "length (fst (handshakes st cb ip es b m)) = length es"
proof (induction es arbitrary: b m)
  case (Cons e es)
  obtain r out b1 m1 where "do_handshake st e cb ip b m = (r, out, b1, m1)" by (metis prod_cases4)
  then show ?case using Cons.IH [of b1 m1] by (auto split: prod.split)
qed simp

definition wrong_password :: "settings \<Rightarrow> string \<Rightarrow> string \<Rightarrow> hs_env \<Rightarrow> bool" where
  "wrong_password st ip addr e \<longleftrightarrow>
     (\<exists>req. requests st e ip req addr \<and> (\<nexists>name own. knows_password e req name own))"

text \<open>Up to the threshold every wrong password is counted and nothing else happens.\<close>

lemma handshakes_wrong:
  assumes "\<not> s_disablebasicauth st" "s_passwdfile st = Some pf" "0 < n" "n < 4294967296"
    and "\<forall>e\<in>set es. wrong_password st ip addr e \<and> bl_threshold e = n" "length es \<le> n"
  shows "\<exists>rs. handshakes st cb ip es empty_blacklist m = (rs, fail_all n (map now es) addr empty_blacklist, m)
    \<and> (\<forall>(r, out)\<in>set rs. \<not> served r out)"
  using assms(5,6)
proof (induction es rule: rev_induct)
  case (snoc e es)
  then obtain rs where rs: "handshakes st cb ip es empty_blacklist m
      = (rs, fail_all n (map now es) addr empty_blacklist, m)" "\<forall>(r, out)\<in>set rs. \<not> served r out"
    by auto
  have "bl_isBlacklisted (bl_timeout e) (now e) addr (fail_all n (map now es) addr empty_blacklist)
      = (False, fail_all n (map now es) addr empty_blacklist)"
    using fail_all_few [of n "map now es" addr] assms(3,4) snoc.prems(2) by (simp add: bl_isBlacklisted_def)
  moreover obtain req where req: "requests st e ip req addr" "\<nexists>name own. knows_password e req name own"
    using snoc.prems(1) by (auto simp: wrong_password_def)
  ultimately obtain status where "do_handshake st e cb ip (fail_all n (map now es) addr empty_blacklist) m
      = (NoConnection, [Status status], fail_all n (map now (es @ [e])) addr empty_blacklist, m)"
    using handle_request_denied [OF assms(1,2) req(2)] snoc.prems(1)
    by (fastforce simp: do_handshake_request [OF req(1)] fail_all_snoc)
  then show ?case using rs by (auto simp: handshakes_append served_def)
qed simp

text \<open>Requests each of which follows the one before it within the timeout.\<close>

fun followed :: "nat \<Rightarrow> int \<Rightarrow> int list \<Rightarrow> bool" where
  "followed timeout t [] = True"
| "followed timeout t (u # us) \<longleftrightarrow> u - int timeout \<le> t \<and> followed timeout u us"

lemma handshakes_blocked:
  assumes "\<forall>e\<in>set es. (\<exists>req. requests st e ip req addr) \<and> bl_timeout e = timeout"
    and "listed b addr = Some t" "followed timeout t (map now es)"
  shows "\<exists>b'. handshakes st cb ip es b m = (map (\<lambda>_. (NoConnection, [Status ''401 Forbidden''])) es, b', m)"
  using assms
proof (induction es arbitrary: b t)
  case (Cons e es)
  obtain req where "requests st e ip req addr" using Cons.prems(1) by auto
  then have "do_handshake st e cb ip b m
      = (NoConnection, [Status ''401 Forbidden''], b\<lparr>listed := (listed b)(addr \<mapsto> now e)\<rparr>, m)"
    using Cons.prems by (simp add: do_handshake_request handle_request_def bl_isBlacklisted_def)
  then show ?case
    using Cons.IH [of "b\<lparr>listed := (listed b)(addr \<mapsto> now e)\<rparr>" "now e"] Cons.prems by auto
qed simp

section \<open>Properties\<close>

text \<open>
  C1. With BasicAuth on and a password file set, a client is connected, gets a file or an
  answer of the API, or has any effect on the server only if its address is not
  blacklisted and its Authorization header decodes to the name of an entry of the password
  file and a non-empty password whose hash is the one of that entry. The connection runs
  under that name, and the API's answers and effects need the owner flag of the entry.
\<close>

theorem handshake_authenticates:
  assumes "\<not> s_disablebasicauth st" "s_passwdfile st = Some pf"
    and "do_handshake st env cb ip b m = (r, out, b', m')" "served r out \<or> m' \<noteq> m"
  shows "\<exists>req addr name own. requests st env ip req addr \<and> knows_password env req name own
    \<and> \<not> fst (bl_isBlacklisted (bl_timeout env) (now env) addr b)
    \<and> (\<forall>c a. r = Connected c a \<longrightarrow> ws_user c = name \<and> a = addr)
    \<and> ((\<exists>x. ApiSent x \<in> set out) \<or> m' \<noteq> m \<longrightarrow> own)"
proof -
  obtain req addr where req: "requests st env ip req addr"
    using do_handshake_no_request [OF _ assms(3)] assms(4) by (auto simp: served_def)
  show ?thesis
    using handle_request_authenticates [OF assms(1,2) _ assms(4)] assms(3) req
    unfolding do_handshake_request [OF req] by metis
qed

text \<open>
  C33. Without BasicAuth nobody is an owner: no request reaches the API or changes the
  state behind it.
\<close>

theorem no_auth_no_api:
  assumes "s_disablebasicauth st" "do_handshake st env cb ip b m = (r, out, b', m')"
  shows "m' = m \<and> (\<forall>x. ApiSent x \<notin> set out)"
proof (cases "\<exists>req addr. requests st env ip req addr")
  case True
  then obtain req addr where req: "requests st env ip req addr" by blast
  show ?thesis
    using assms serve_request_not_owner
    by (fastforce simp: do_handshake_request [OF req] handle_request_def split: prod.splits if_splits)
next
  case False
  then show ?thesis using do_handshake_no_request [OF False assms(2)] by auto
qed

text \<open>
  C12. A threshold's worth of requests with wrong passwords locks an address out: none of
  them is served, and of the requests that follow, each within the timeout of the one
  before it, none is served either, not even one with the right password. The state
  behind the API stays as it was.
\<close>

theorem brute_force_lockout:
  assumes "\<not> s_disablebasicauth st" "s_passwdfile st = Some pf"
    and "bad \<noteq> []" "length bad < 4294967296"
    and "\<forall>e\<in>set bad. wrong_password st ip addr e \<and> bl_threshold e = length bad"
    and "\<forall>e\<in>set later. (\<exists>req. requests st e ip req addr) \<and> bl_timeout e = timeout"
    and "followed timeout (now (last bad)) (map now later)"
  shows "\<exists>rs b'. handshakes st cb ip (bad @ later) empty_blacklist m
      = (rs @ map (\<lambda>_. (NoConnection, [Status ''401 Forbidden''])) later, b', m)
    \<and> length rs = length bad \<and> (\<forall>(r, out)\<in>set rs. \<not> served r out)"
proof -
  let ?b = "fail_all (length bad) (map now bad) addr empty_blacklist"
  obtain rs where rs: "handshakes st cb ip bad empty_blacklist m = (rs, ?b, m)"
    "\<forall>(r, out)\<in>set rs. \<not> served r out"
    using handshakes_wrong [OF assms(1,2) _ assms(4,5), of cb m] assms(3) by auto
  have "length rs = length bad" using rs(1) handshakes_length by (metis fst_conv)
  moreover have "listed ?b addr = Some (now (last bad))"
    using fail_all_listed [of "length bad" "map now bad" addr] assms(3,4) by (simp add: last_map)
  ultimately show ?thesis
    using handshakes_blocked [OF assms(6) _ assms(7), of ?b cb m] rs by (auto simp: handshakes_append)
qed

section \<open>Examples\<close>

text \<open>A server with one user, an owner, and a client that asks for a file.\<close>

definition demo_settings :: settings where
  "demo_settings = \<lparr>s_cert = None, s_ssl_only = False, s_disablebasicauth = False,
     s_passwdfile = Some ''pw'', s_httpdir = Some ''www''\<rparr>"

definition demo_request :: string where
  "demo_request = ''GET /a HTTP/1.1'' @ CRLF @ ''Authorization: Basic eDp5'' @ CRLF @ CRLF"

definition demo_callbacks :: "unit callbacks" where
  "demo_callbacks = \<lparr>screenshotCb = \<lambda>m _ _ _ _. (m, ''''), adduserCb = \<lambda>m _ _ _ _ _. (m, False),
     removeCb = \<lambda>m _. (m, False), updateUserCb = \<lambda>m _ _ _ _ _ _. (m, False),
     addOrUpdateUserCb = \<lambda>m _. (m, False), bottleneckStatsCb = \<lambda>m. (m, ''''), frameStatsCb = \<lambda>m. (m, ''''),
     resetFrameStatsCb = \<lambda>m. m, requestFrameStatsNoneCb = \<lambda>m. (m, False),
     requestFrameStatsOwnerCb = \<lambda>m. (m, False), requestFrameStatsAllCb = \<lambda>m. (m, False),
     requestFrameStatsOneCb = \<lambda>m _. (m, False), ownerConnectedCb = \<lambda>m. (m, 0), numActiveUsersCb = \<lambda>m. (m, 0),
     getUsersCb = \<lambda>m. (m, ''''), getClientFrameStatsNumCb = \<lambda>m. (m, 0), serverFrameStatsReadyCb = \<lambda>m. (m, False),
     clearClipboardCb = \<lambda>m. m, getSessionsCb = \<lambda>m. (m, ''''), wakeup = \<lambda>m. m\<rparr>"

text \<open>\<open>dtext\<close> is what the client's header decodes to, \<open>t\<close> the time of its request.\<close>

definition demo_env :: "string \<Rightarrow> int \<Rightarrow> hs_env" where
  "demo_env dtext t = \<lparr>peek = Some ''G'', comma_behind = False, cert_readable = False, recvs = [(int (length demo_request), demo_request)],
     now = t, bl_threshold = 1, bl_timeout = 10,
     b64_read = \<lambda>_ _. (int (length dtext), to_bytes dtext, 0), b64_write = id, sha1 = id, md5 = id,
     aenv = \<lparr>api_crypt = (\<lambda>s. s), api_passwd = Some (''x:y:o'' @ [LF]),
       api_downloads = None, api_dir = \<lambda>_. None\<rparr>,
     filesystem = \<lparr>is_dir = \<lambda>_. False, dir_entries = \<lambda>_. [], file_content = \<lambda>_. None\<rparr>\<rparr>"

lemma of_bytes_to_bytes: "of_bytes (to_bytes s) = s"
proof -
  have "char_of (unat (of_char c :: byte)) = c" for c :: char
  proof -
    have "unat (of_nat (of_char c) :: byte) = of_char c" by (simp add: unat_of_nat)
    then show ?thesis by (simp add: of_nat_of_char)
  qed
  then show ?thesis by (induction s) (simp_all add: of_bytes_def to_bytes_def)
qed

lemma length_to_bytes: "length (to_bytes s) = length s"
  by (simp add: to_bytes_def)

lemma demo_requests: "requests demo_settings (demo_env dtext t) ''1.2.3.4'' demo_request ''1.2.3.4''"
  by (simp add: requests_def channel_ok_def is_tls_def demo_settings_def demo_env_def demo_request_def
      cstr_def NUL_def CRLF_def forwarded_ip_def tolower_def)

lemma demo_granted: "basic_auth demo_settings (demo_env ''x:y'' t) demo_request = Granted ''x'' True"
  by (simp add: basic_auth_def demo_settings_def demo_env_def demo_request_def CRLF_def tolower_def strchr_def
      ws_b64_pton_def length_to_bytes of_bytes_to_bytes cstr_def NUL_def credentials_def readkasmpasswd_def
      file_lines.simps fgets_def LF_def parse_entry_def USERNAME_LEN_def PASSWORD_LEN_def)

lemma demo_denied: "basic_auth demo_settings (demo_env ''x:z'' t) demo_request = Denied ''401 Forbidden''"
  by (simp add: basic_auth_def demo_settings_def demo_env_def demo_request_def CRLF_def tolower_def strchr_def
      ws_b64_pton_def length_to_bytes of_bytes_to_bytes cstr_def NUL_def credentials_def readkasmpasswd_def
      file_lines.simps fgets_def LF_def parse_entry_def USERNAME_LEN_def PASSWORD_LEN_def)

lemma demo_serve:
  "serve_request demo_settings (demo_env dtext t) cb ctx ip demo_request own m
    = (NoConnection, [FileSent NotFound], m)"
  by (simp add: serve_request_def demo_settings_def demo_env_def demo_request_def parse_handshake_def CRLF_def
      servefile_def request_path_def strchr_def cstr_def NUL_def)

lemma demo_handshake:
  "do_handshake demo_settings (demo_env ''x:y'' t) demo_callbacks ''1.2.3.4'' empty_blacklist m
    = (NoConnection, [FileSent NotFound], empty_blacklist, m)"
proof -
  have "\<not> s_disablebasicauth demo_settings" by (simp add: demo_settings_def)
  then show ?thesis
    unfolding do_handshake_request [OF demo_requests] handle_request_def demo_granted demo_serve
    by (simp add: bl_isBlacklisted_def empty_blacklist_def demo_serve)
qed

lemma demo_wrong: "wrong_password demo_settings ''1.2.3.4'' ''1.2.3.4'' (demo_env ''x:z'' t)"
  unfolding wrong_password_def
  using demo_requests [of "''x:z''" t] demo_denied [of t] basic_auth_granted [of demo_settings "''pw''"]
  by (metis auth.distinct(1) demo_settings_def settings.select_convs(4))

theorem handshake_authenticates_witness:
  "\<exists>req addr name own. requests demo_settings (demo_env ''x:y'' 100) ''1.2.3.4'' req addr
     \<and> knows_password (demo_env ''x:y'' 100) req name own"
  using handshake_authenticates [OF _ _ demo_handshake [of 100 "()"], of "''pw''"]
  by (fastforce simp: served_def demo_settings_def)

theorem no_auth_no_api_witness:
  "snd (snd (snd (do_handshake (demo_settings\<lparr>s_disablebasicauth := True\<rparr>) (demo_env ''x:y'' 100)
     demo_callbacks ''1.2.3.4'' empty_blacklist ()))) = ()
   \<and> (\<forall>x. ApiSent x \<notin> set (fst (snd (do_handshake (demo_settings\<lparr>s_disablebasicauth := True\<rparr>)
        (demo_env ''x:y'' 100) demo_callbacks ''1.2.3.4'' empty_blacklist ()))))"
  using no_auth_no_api [of "demo_settings\<lparr>s_disablebasicauth := True\<rparr>" "demo_env ''x:y'' 100"
      demo_callbacks "''1.2.3.4''" empty_blacklist "()"]
  by (cases "do_handshake (demo_settings\<lparr>s_disablebasicauth := True\<rparr>) (demo_env ''x:y'' 100)
      demo_callbacks ''1.2.3.4'' empty_blacklist ()") (simp add: demo_settings_def)

theorem brute_force_lockout_witness:
  "\<exists>rs b'. handshakes demo_settings demo_callbacks ''1.2.3.4'' [demo_env ''x:z'' 100, demo_env ''x:y'' 105]
      empty_blacklist ()
    = (rs @ [(NoConnection, [Status ''401 Forbidden''])], b', ())"
proof -
  have "\<not> s_disablebasicauth demo_settings" "s_passwdfile demo_settings = Some ''pw''"
    by (simp_all add: demo_settings_def)
  moreover have "bl_threshold (demo_env ''x:z'' 100) = 1" "now (demo_env ''x:z'' 100) = 100"
    "bl_timeout (demo_env ''x:y'' 105) = 10" "now (demo_env ''x:y'' 105) = 105"
    by (simp_all add: demo_env_def)
  ultimately show ?thesis
    using brute_force_lockout [of demo_settings "''pw''" "[demo_env ''x:z'' 100]" "''1.2.3.4''" "''1.2.3.4''"
        "[demo_env ''x:y'' 105]" 10 demo_callbacks "()"] demo_wrong [of 100] demo_requests [of "''x:y''" 105]
    by auto
qed

end
