(* ===== verification/Messager.thy ===== *)
theory Messager
  imports HttpAuthProps
begin

unbundle bit_operations_syntax

text \<open>
  The users behind the owner's API: netAddUser, netRemoveUser, netUpdateUser,
  netAddOrUpdateUser and netGetUsers of \<^verbatim>\<open>src/common/network/GetAPIMessager.cxx\<close>.
  They work on the password file under a mutex, which is never refused, and so one after
  the other. \<open>write_ok\<close> says whether the writer can open and rename its temporary file,
  \<open>disk_space\<close> how many bytes of it the file system takes.
\<close>

record messager =
  passwdfile :: "string option"
  files :: files
  write_ok :: bool
  disk_space :: "nat option"

text \<open>
  Without a password file fopen fails and there are no users; writekasmpasswd then works
  on the name that printf makes of a null pointer and its rename fails.
\<close>

definition stored :: "messager \<Rightarrow> kasmpasswd_entry list" where
  "stored m = (case passwdfile m of None \<Rightarrow> [] | Some path \<Rightarrow> readkasmpasswd (files m path))"

definition store :: "kasmpasswd_entry list \<Rightarrow> messager \<Rightarrow> messager" where
  "store pset m =
     (case passwdfile m of
        None \<Rightarrow> m\<lparr>files := writekasmpasswd (disk_space m) (write_ok m) False ''(null)'' pset (files m)\<rparr>
      | Some path \<Rightarrow> m\<lparr>files := writekasmpasswd (disk_space m) (write_ok m) (write_ok m) path pset (files m)\<rparr>)"

definition netAddUser :: "messager \<Rightarrow> string \<Rightarrow> string \<Rightarrow> bool \<Rightarrow> bool \<Rightarrow> bool \<Rightarrow> messager \<times> bool" where
  "netAddUser m name pw rd wr own =
     (if length name \<ge> USERNAME_LEN then (m, False)
      else if length pw \<ge> PASSWORD_LEN then (m, False)
      else if passwdfile m = None then (m, False)
      else
        let pset = stored m in
        if find_user name pset \<noteq> None then (m, False)
        else (store (pset @ [\<lparr>user = name, password = pw, p_read = rd, p_write = wr, p_owner = own\<rparr>]) m, True))"

definition netRemoveUser :: "messager \<Rightarrow> string \<Rightarrow> messager \<times> bool" where
  "netRemoveUser m name =
     (if length name \<ge> USERNAME_LEN then (m, False)
      else
        let pset = stored m in
        (case find_user name pset of None \<Rightarrow> (m, False)
         | Some i \<Rightarrow> (store (pset[i := (pset ! i)\<lparr>user := ''''\<rparr>]) m, True)))"

definition update_entry :: "nat \<Rightarrow> string \<Rightarrow> bool \<Rightarrow> bool \<Rightarrow> bool \<Rightarrow> kasmpasswd_entry \<Rightarrow> kasmpasswd_entry" where
  "update_entry msk pw rd wr own e =
     (let e1 = (if msk AND USER_UPDATE_READ_MASK \<noteq> 0 then e\<lparr>p_read := rd\<rparr> else e);
          e2 = (if msk AND USER_UPDATE_WRITE_MASK \<noteq> 0 then e1\<lparr>p_write := wr\<rparr> else e1);
          e3 = (if msk AND USER_UPDATE_OWNER_MASK \<noteq> 0 then e2\<lparr>p_owner := own\<rparr> else e2)
      in if msk AND USER_UPDATE_PASSWORD_MASK \<noteq> 0 then e3\<lparr>password := pw\<rparr> else e3)"

definition netUpdateUser ::
  "messager \<Rightarrow> string \<Rightarrow> nat \<Rightarrow> string \<Rightarrow> bool \<Rightarrow> bool \<Rightarrow> bool \<Rightarrow> messager \<times> bool"
where
  "netUpdateUser m name msk pw rd wr own =
     (if length name \<ge> USERNAME_LEN then (m, False)
      else if length pw \<ge> PASSWORD_LEN then (m, False)
      else if msk = 0 then (m, False)
      else
        let pset = stored m in
        (case find_user name pset of None \<Rightarrow> (m, False)
         | Some i \<Rightarrow> (store (pset[i := update_entry msk pw rd wr own (pset ! i)]) m, True)))"

definition netAddOrUpdateUser :: "messager \<Rightarrow> kasmpasswd_entry \<Rightarrow> messager \<times> bool" where
  "netAddOrUpdateUser m e =
     (let pset = stored m
      in (store (case find_user (user e) pset of None \<Rightarrow> pset @ [e] | Some i \<Rightarrow> pset[i := e]) m, True))"

text \<open>
  netGetUsers prints to a memory stream of 80 bytes for each user; None when the text and
  its final zero do not fit.
\<close>

definition listed_user :: "kasmpasswd_entry \<Rightarrow> string" where
  "listed_user e =
     ''    { '' @ CHR 0x22 # ''user'' @ CHR 0x22 # '': '' @ CHR 0x22 # JSON_escape (user e) @ CHR 0x22 #
     '', '' @ CHR 0x22 # ''read'' @ CHR 0x22 # '': '' @ bool_text (p_read e) @
     '', '' @ CHR 0x22 # ''write'' @ CHR 0x22 # '': '' @ bool_text (p_write e) @
     '', '' @ CHR 0x22 # ''owner'' @ CHR 0x22 # '': '' @ bool_text (p_owner e) @ '' }''"

fun listed_users :: "kasmpasswd_entry list \<Rightarrow> string" where
  "listed_users [] = ''''"
| "listed_users [e] = listed_user e @ [LF]"
| "listed_users (e # es) = listed_user e @ '','' @ [LF] @ listed_users es"

definition users_listing :: "kasmpasswd_entry list \<Rightarrow> string" where
  "users_listing es = ''['' @ [LF] @ listed_users es @ '']'' @ [LF]"

definition netGetUsers :: "messager \<Rightarrow> string option" where
  "netGetUsers m =
     (let es = stored m; text = users_listing es
      in if length text < 80 * length es then Some text else None)"

end
