(* ===== verification/MessagerProps.thy ===== *)
theory MessagerProps
  imports Messager
begin

text \<open>
  The user operations behind the API keep a table of users. The contract is the locale
  \<open>user_store\<close>; the loops of the API are verified against it, and the operations on the
  password file are shown to satisfy it.
\<close>

section \<open>The contract\<close>

text \<open>
  \<open>find\<close> is the abstract table, \<open>inv\<close> the invariant of the state, \<open>good\<close> tells which entries
  can be stored.
\<close>

locale user_store =
  fixes add_or_update :: "'m \<Rightarrow> kasmpasswd_entry \<Rightarrow> 'm \<times> bool"
    and remove :: "'m \<Rightarrow> string \<Rightarrow> 'm \<times> bool"
    and update :: "'m \<Rightarrow> string \<Rightarrow> nat \<Rightarrow> string \<Rightarrow> bool \<Rightarrow> bool \<Rightarrow> bool \<Rightarrow> 'm \<times> bool"
    and find :: "'m \<Rightarrow> string \<Rightarrow> kasmpasswd_entry option"
    and inv :: "'m \<Rightarrow> bool"
    and good :: "kasmpasswd_entry \<Rightarrow> bool"
  assumes add_or_update_law: "\<lbrakk>inv m; good e; add_or_update m e = (m', r)\<rbrakk>
      \<Longrightarrow> r \<and> inv m' \<and> find m' = (find m)(user e \<mapsto> e)"
    and remove_law: "\<lbrakk>inv m; u \<noteq> ''''; remove m u = (m', r)\<rbrakk>
      \<Longrightarrow> r = (find m u \<noteq> None) \<and> inv m' \<and> find m' = (find m)(u := None)"
    and update_law: "\<lbrakk>inv m; u \<noteq> ''''; msk \<noteq> 0; good \<lparr>user = u, password = pw, p_read = rd, p_write = wr, p_owner = own\<rparr>;
        update m u msk pw rd wr own = (m', r)\<rbrakk>
      \<Longrightarrow> r = (find m u \<noteq> None) \<and> inv m'
        \<and> find m' = (find m)(u := map_option (update_entry msk pw rd wr own) (find m u))"
begin

lemma create_all:
  assumes "inv m" "addOrUpdateUserCb cb = add_or_update"
    and "\<forall>e\<in>set es. user e \<noteq> '''' \<and> password e \<noteq> '''' \<and> good (e\<lparr>password := crypt (password e)\<rparr>)"
  shows "\<exists>m'. create_users cb crypt es m = (m', True) \<and> inv m'
    \<and> find m' = find m ++ map_of (map (\<lambda>e. (user e, e\<lparr>password := crypt (password e)\<rparr>)) (rev es))"
  using assms(1,3)
proof (induction es arbitrary: m)
  case (Cons e es)
  let ?e = "e\<lparr>password := crypt (password e)\<rparr>"
  obtain m1 r where m1: "add_or_update m ?e = (m1, r)" by fastforce
  then have l: "r" "inv m1" "find m1 = (find m)(user e \<mapsto> ?e)" using add_or_update_law [OF Cons.prems(1) _ m1] Cons.prems(2) by simp_all
  have "\<forall>e\<in>set es. user e \<noteq> '''' \<and> password e \<noteq> '''' \<and> good (e\<lparr>password := crypt (password e)\<rparr>)" using Cons.prems(2) by simp
  with l obtain m' where "create_users cb crypt es m1 = (m', True)" "inv m'"
    "find m' = find m1 ++ map_of (map (\<lambda>e. (user e, e\<lparr>password := crypt (password e)\<rparr>)) (rev es))"
    using Cons.IH [of m1] by blast
  then show ?case using m1 l Cons.prems(2) assms(2) by simp
qed simp

lemma remove_all:
  assumes "inv m" "removeCb cb = remove" "distinct (map user es)"
    and "\<forall>e\<in>set es. user e \<noteq> '''' \<and> find m (user e) \<noteq> None"
  shows "\<exists>m'. remove_users cb es m = (m', True) \<and> inv m' \<and> find m' = find m |` (- user ` set es)"
  using assms(1,3,4)
proof (induction es arbitrary: m)
  case (Cons e es)
  obtain m1 r where m1: "remove m (user e) = (m1, r)" by fastforce
  then have l: "r" "inv m1" "find m1 = (find m)(user e := None)" using remove_law [OF Cons.prems(1) _ m1] Cons.prems(3) by auto
  moreover have "\<forall>x\<in>set es. user x \<noteq> user e" using Cons.prems(2) by (auto simp: image_iff)
  ultimately have "distinct (map user es)" "\<forall>e\<in>set es. user e \<noteq> '''' \<and> find m1 (user e) \<noteq> None"
    using Cons.prems(2,3) by auto
  then obtain m' where "remove_users cb es m1 = (m', True)" "inv m'" "find m' = find m1 |` (- user ` set es)"
    using Cons.IH [OF l(2)] by blast
  then show ?case using m1 l Cons.prems(3) assms(2) by (auto simp: restrict_map_def fun_eq_iff)
qed (simp add: restrict_map_def)

text \<open>Users that a list does not name keep their entries, whatever happens to it.\<close>

lemma remove_others:
  assumes "inv m" "removeCb cb = remove" "remove_users cb es m = (m', r)"
  shows "inv m' \<and> (\<forall>u. u \<notin> user ` set es \<longrightarrow> find m' u = find m u)"
  using assms(1,3)
proof (induction es arbitrary: m)
  case (Cons e es)
  show ?case
  proof (cases "user e = ''''")
    case False
    obtain m1 ok where m1: "remove m (user e) = (m1, ok)" by fastforce
    have "inv m1" "find m1 = (find m)(user e := None)" using remove_law [OF Cons.prems(1) False m1] by auto
    then show ?thesis using Cons.IH [of m1] Cons.prems(2) m1 False assms(2) by (cases ok) auto
  qed (use Cons.prems in auto)
qed simp

end

section \<open>The password file satisfies it\<close>

definition find_stored :: "messager \<Rightarrow> string \<Rightarrow> kasmpasswd_entry option" where
  "find_stored m u = (if u = '''' then None else lookup u (stored m))"

definition named :: "kasmpasswd_entry list \<Rightarrow> kasmpasswd_entry list" where
  "named es = filter (\<lambda>e. user e \<noteq> '''') es"

text \<open>The invariant: a file whose temporary name is another one, writable, on a disk with room, with distinct names.\<close>

definition wf_store :: "string \<Rightarrow> messager \<Rightarrow> bool" where
  "wf_store path m \<longleftrightarrow>
     passwdfile m = Some path \<and> length path \<le> PATH_MAX - 5 \<and> write_ok m \<and> disk_space m = None
     \<and> distinct (map user (named (stored m)))"

definition good_entry :: "kasmpasswd_entry \<Rightarrow> bool" where
  "good_entry e \<longleftrightarrow> valid_entry e \<and> user e \<noteq> ''''"

lemma stored_valid: "\<forall>e\<in>set (stored m). valid_entry e"
  using readkasmpasswd_valid by (auto simp: stored_def split: option.splits)

lemma store_stored:
  assumes "wf_store path m" "pset \<noteq> []" "\<forall>e\<in>set pset. valid_entry e"
  shows "stored (store pset m) = named pset" "passwdfile (store pset m) = passwdfile m" "write_ok (store pset m) = write_ok m"
    "disk_space (store pset m) = disk_space m"
  using assms by (auto simp: wf_store_def stored_def store_def named_def writekasmpasswd_result read_print_entries)

lemma named_named [simp]: "named (named es) = named es"
  by (simp add: named_def)

lemma lookup_named: "u \<noteq> '''' \<Longrightarrow> lookup u (named es) = lookup u es"
  by (simp add: named_def lookup_nonempty)

text \<open>A new list of entries whose names stay distinct is a step that keeps the invariant.\<close>

lemma store_step:
  assumes "wf_store path m" "pset \<noteq> []" "\<forall>e\<in>set pset. valid_entry e" "distinct (map user (named pset))"
  shows "wf_store path (store pset m)" "find_stored (store pset m) = (\<lambda>u. if u = '''' then None else lookup u pset)"
  using assms store_stored [OF assms(1-3)] by (auto simp: wf_store_def find_stored_def lookup_named)

lemma find_stored_in: "find_stored m u = Some e \<Longrightarrow> e \<in> set (stored m) \<and> user e = u"
  by (auto simp: find_stored_def lookup_def find_Some_iff split: if_splits)

lemma find_user_lookup: "find_user u es = Some i \<Longrightarrow> i < length es \<and> lookup u es = Some (es ! i) \<and> user (es ! i) = u"
  using find_user_Some [of u es i] by (auto simp: lookup_append lookup_Cons lookup_None nth_append)

lemma find_user_lookup_None: "find_user u es = None \<longleftrightarrow> lookup u es = None"
  using find_user_None [of u es] lookup_None [of es u] find_user_lookup [of u es] by (cases "find_user u es") auto

text \<open>Replacing the entry of a user by another one, by one without a name, and appending a new one.\<close>

lemma replace_entry:
  assumes "find_user u es = Some i" "u \<noteq> ''''" "distinct (map user (named es))" "user e = u \<or> user e = ''''"
  shows "distinct (map user (named (es[i := e])))"
    "v \<noteq> '''' \<Longrightarrow> lookup v (es[i := e]) = (if v = u then (if user e = u then Some e else None) else lookup v es)"
proof -
  obtain as b bs where es: "es = as @ b # bs" "length as = i" "user b = u" "\<forall>a\<in>set as. user a \<noteq> u"
    using find_user_Some [OF assms(1)] by blast
  have upd: "es[i := e] = as @ e # bs" using es(1,2) by (simp add: list_update_append)
  have d: "distinct (map user (named as))" "distinct (map user (named bs))" "u \<notin> user ` set (named as)" "u \<notin> user ` set (named bs)"
    "user ` set (named as) \<inter> user ` set (named bs) = {}"
    using assms(2,3) es(1,3) by (auto simp: named_def)
  show "distinct (map user (named (es[i := e])))" unfolding upd using d assms(2,4) by (auto simp: named_def)
  have "lookup u bs = None" using d(4) assms(2) by (intro lookup_None) (auto simp: named_def)
  then show "lookup v (es[i := e]) = (if v = u then (if user e = u then Some e else None) else lookup v es)" if "v \<noteq> ''''"
    unfolding upd using es that assms(4) by (auto simp: lookup_append lookup_Cons lookup_None split: option.splits)
qed

lemma append_entry:
  assumes "find_user (user e) es = None" "distinct (map user (named es))"
  shows "distinct (map user (named (es @ [e])))"
    "lookup v (es @ [e]) = (if v = user e then Some e else lookup v es)"
  using assms find_user_None [OF assms(1)]
  by (auto simp: named_def lookup_append lookup_Cons lookup_None split: option.splits)

lemma wf_storeD:
  assumes "wf_store path m"
  shows "distinct (map user (named (stored m)))" "passwdfile m = Some path"
  using assms by (auto simp: wf_store_def)

lemma update_entry_user [simp]: "user (update_entry msk pw rd wr own e) = user e"
  by (simp add: update_entry_def Let_def)

lemma update_entry_valid:
  "\<lbrakk>valid_entry e; valid_field pw; length pw < PASSWORD_LEN\<rbrakk> \<Longrightarrow> valid_entry (update_entry msk pw rd wr own e)"
  by (auto simp: update_entry_def valid_entry_def Let_def)

lemma netAddOrUpdateUser_step:
  assumes "wf_store path m" "good_entry e" "netAddOrUpdateUser m e = (m', r)"
  shows "r \<and> wf_store path m' \<and> find_stored m' = (find_stored m)(user e \<mapsto> e)"
proof (cases "find_user (user e) (stored m)")
  case None
  have m': "m' = store (stored m @ [e]) m" "r" using assms(3) None by (auto simp: netAddOrUpdateUser_def)
  note a = append_entry [OF None wf_storeD(1) [OF assms(1)]]
  have "\<forall>x\<in>set (stored m @ [e]). valid_entry x" using stored_valid assms(2) by (auto simp: good_entry_def)
  from store_step [OF assms(1) _ this a(1)] show ?thesis
    using assms(2) m' a(2) by (auto simp: fun_eq_iff find_stored_def good_entry_def)
next
  case (Some i)
  have m': "m' = store ((stored m)[i := e]) m" "r" using assms(3) Some by (auto simp: netAddOrUpdateUser_def)
  have u: "user e \<noteq> ''''" "valid_entry e" using assms(2) by (auto simp: good_entry_def)
  note a = replace_entry [OF Some u(1) wf_storeD(1) [OF assms(1)], of e]
  have "(stored m)[i := e] \<noteq> []" using find_user_lookup [OF Some] by auto
  from store_step [OF assms(1) this valid_update [OF stored_valid u(2)]] show ?thesis
    using m' a u(1) by (auto simp: fun_eq_iff find_stored_def)
qed

lemma netRemoveUser_step:
  assumes "wf_store path m" "u \<noteq> ''''" "netRemoveUser m u = (m', r)"
  shows "r = (find_stored m u \<noteq> None) \<and> wf_store path m' \<and> find_stored m' = (find_stored m)(u := None)"
proof (cases "find_user u (stored m)")
  case None
  then have "m' = m" "\<not> r" using assms(3) by (auto simp: netRemoveUser_def split: if_splits)
  then show ?thesis using None assms(1,2) by (auto simp: find_user_lookup_None find_stored_def)
next
  case (Some i)
  note l = find_user_lookup [OF Some]
  have "valid_entry (stored m ! i)" using stored_valid l nth_mem by blast
  then have v: "valid_entry ((stored m ! i)\<lparr>user := ''''\<rparr>)" "length u < USERNAME_LEN"
    using l by (auto simp: valid_entry_def valid_field_def USERNAME_LEN_def)
  then have m': "m' = store ((stored m)[i := (stored m ! i)\<lparr>user := ''''\<rparr>]) m" "r"
    using assms(3) Some by (auto simp: netRemoveUser_def Let_def split: if_splits)
  note a = replace_entry [OF Some assms(2) wf_storeD(1) [OF assms(1)], of "(stored m ! i)\<lparr>user := ''''\<rparr>"]
  have "(stored m)[i := (stored m ! i)\<lparr>user := ''''\<rparr>] \<noteq> []" using l by auto
  from store_step [OF assms(1) this valid_update [OF stored_valid v(1)]] show ?thesis
    using m' a l assms(2) by (auto simp: fun_eq_iff find_stored_def)
qed

lemma netUpdateUser_step:
  assumes "wf_store path m" "u \<noteq> ''''" "msk \<noteq> 0" "valid_field pw" "length pw < PASSWORD_LEN" "length u < USERNAME_LEN"
    and "netUpdateUser m u msk pw rd wr own = (m', r)"
  shows "r = (find_stored m u \<noteq> None) \<and> wf_store path m'
    \<and> find_stored m' = (find_stored m)(u := map_option (update_entry msk pw rd wr own) (find_stored m u))"
proof (cases "find_user u (stored m)")
  case None
  then have "m' = m" "\<not> r" using assms(7) by (auto simp: netUpdateUser_def split: if_splits)
  then show ?thesis using None assms(1,2) by (auto simp: find_user_lookup_None find_stored_def)
next
  case (Some i)
  let ?e = "update_entry msk pw rd wr own (stored m ! i)"
  note l = find_user_lookup [OF Some]
  have "valid_entry (stored m ! i)" using stored_valid l nth_mem by blast
  then have v: "valid_entry ?e" using assms(4,5) by (rule update_entry_valid)
  have m': "m' = store ((stored m)[i := ?e]) m" "r" using assms Some by (auto simp: netUpdateUser_def Let_def)
  note a = replace_entry [OF Some assms(2) wf_storeD(1) [OF assms(1)], of ?e]
  have "(stored m)[i := ?e] \<noteq> []" using l by auto
  from store_step [OF assms(1) this valid_update [OF stored_valid v]] show ?thesis
    using m' a l assms(2) by (auto simp: fun_eq_iff find_stored_def)
qed

interpretation users: user_store netAddOrUpdateUser netRemoveUser netUpdateUser find_stored "wf_store path" good_entry
  for path
proof
  fix m e m' r
  assume "wf_store path m" "good_entry e" "netAddOrUpdateUser m e = (m', r)"
  then show "r \<and> wf_store path m' \<and> find_stored m' = (find_stored m)(user e \<mapsto> e)" by (rule netAddOrUpdateUser_step)
next
  fix m u m' r
  assume "wf_store path m" "u \<noteq> ''''" "netRemoveUser m u = (m', r)"
  then show "r = (find_stored m u \<noteq> None) \<and> wf_store path m' \<and> find_stored m' = (find_stored m)(u := None)"
    by (rule netRemoveUser_step)
next
  fix m u msk pw rd wr own m' r
  assume "wf_store path m" "u \<noteq> ''''" "msk \<noteq> 0" "netUpdateUser m u msk pw rd wr own = (m', r)"
    "good_entry \<lparr>user = u, password = pw, p_read = rd, p_write = wr, p_owner = own\<rparr>"
  then show "r = (find_stored m u \<noteq> None) \<and> wf_store path m'
      \<and> find_stored m' = (find_stored m)(u := map_option (update_entry msk pw rd wr own) (find_stored m u))"
    by (intro netUpdateUser_step) (simp_all add: good_entry_def valid_entry_def)
qed

lemma netAddUser_step:
  assumes "wf_store path m" "good_entry e" "netAddUser m (user e) (password e) (p_read e) (p_write e) (p_owner e) = (m', r)"
  shows "r = (find_stored m (user e) = None) \<and> wf_store path m'
    \<and> find_stored m' = (if r then (find_stored m)(user e \<mapsto> e) else find_stored m)"
proof -
  have e: "length (user e) < USERNAME_LEN" "length (password e) < PASSWORD_LEN" "user e \<noteq> ''''"
    using assms(2) by (auto simp: good_entry_def valid_entry_def)
  show ?thesis
  proof (cases "find_user (user e) (stored m)")
    case None
    have "(m', r) = netAddOrUpdateUser m e"
      using None assms(3) e wf_storeD(2) [OF assms(1)] by (cases e) (auto simp: netAddUser_def netAddOrUpdateUser_def)
    then have "r \<and> wf_store path m' \<and> find_stored m' = (find_stored m)(user e \<mapsto> e)"
      using netAddOrUpdateUser_step [OF assms(1,2)] by metis
    then show ?thesis using None e(3) by (simp add: find_user_lookup_None find_stored_def)
  next
    case (Some i)
    then have "m' = m \<and> \<not> r" using assms(3) by (auto simp: netAddUser_def Let_def split: if_splits)
    then show ?thesis using Some assms(1) e(3) find_user_lookup [OF Some] by (simp add: find_stored_def)
  qed
qed

section \<open>Requests\<close>

text \<open>A POST request with a body, behind any headers.\<close>

definition posts :: "string \<Rightarrow> string \<Rightarrow> string \<Rightarrow> bool" where
  "posts path body req \<longleftrightarrow>
     (\<exists>hdrs. req = ''POST '' @ path @ '' '' @ hdrs \<and> strstr hdrs (CRLF @ CRLF) = Some (CRLF @ CRLF @ body)
        \<and> strstr (path @ '' '' @ hdrs) ''../'' = None)"

lemma strstr_skip: "CHR 0x0D \<notin> set a \<Longrightarrow> strstr (a @ s) (CRLF @ CRLF) = strstr s (CRLF @ CRLF)"
  by (induction a) (auto simp: CRLF_def)

lemma request_path_word:
  assumes "CHR '' '' \<notin> set p" "p \<noteq> ''''" "length p \<le> 1024" "strstr (p @ '' '' @ hdrs) ''../'' = None"
  shows "request_path (p @ '' '' @ hdrs) = Some p"
proof -
  have "strchr (p @ '' '' @ hdrs) (CHR '' '') = Some ('' '' @ hdrs)" using strchr_append [OF assms(1)] by simp
  then show ?thesis using assms(2-4) by (cases p) (simp_all add: request_path_def)
qed

lemma ownerapi_posts:
  assumes "posts path body req" "path \<in> {''/api/create_user'', ''/api/remove_user''}"
  shows "ownerapi cb env req m =
    (case parseJsonUsers body of None \<Rightarrow> (m, Sent BadRequest)
     | Some es \<Rightarrow>
         if path = ''/api/create_user'' then ok_reply (create_users cb (api_crypt env) es m)
         else if \<not> allUsersPresent (readkasmpasswd (api_passwd env)) es then (m, Sent BadRequest)
         else ok_reply (remove_users cb es m))"
proof -
  obtain hdrs where r: "req = ''POST '' @ path @ '' '' @ hdrs" "strstr hdrs (CRLF @ CRLF) = Some (CRLF @ CRLF @ body)"
    "strstr (path @ '' '' @ hdrs) ''../'' = None" using assms(1) by (auto simp: posts_def)
  have p: "CHR '' '' \<notin> set path" "path \<noteq> ''''" "length path \<le> 1024" "CHR ''?'' \<notin> set path" "CHR 0x0D \<notin> set (path @ '' '')"
    using assms(2) by auto
  have "ownerapi cb env req m = ownerapi_post cb env req m" using r(1) by (simp add: ownerapi_def)
  moreover have "drop 5 req = path @ '' '' @ hdrs" using r(1) by simp
  moreover have "strstr (path @ '' '' @ hdrs) (CRLF @ CRLF) = Some (CRLF @ CRLF @ body)"
    using strstr_skip [OF p(5), of hdrs] r(2) by simp
  moreover have "drop 4 (CRLF @ CRLF @ body) = body" by (simp add: CRLF_def)
  ultimately show ?thesis
    using assms(2) p(4) request_path_word [OF p(1-3) r(3)]
    by (auto simp: ownerapi_post_def Let_def split: option.splits)
qed

text \<open>What the API stores is what BasicAuth reads.\<close>

lemma granted_stored:
  assumes "s_passwdfile st = Some pf" "passwdfile m = Some path" "api_passwd (aenv env) = files m path"
    and "find_stored m (user e) = Some e" "password e = api_crypt (aenv env) pw" "pw \<noteq> ''''"
    and "presents env req (user e @ '':'' @ pw)"
  shows "basic_auth st env req = Granted (user e) (p_owner e)"
proof -
  have l: "lookup (user e) (readkasmpasswd (files m path)) = Some e"
    using assms(2,4) by (auto simp: find_stored_def stored_def split: if_splits)
  then have "e \<in> set (readkasmpasswd (files m path))" by (auto simp: lookup_def find_Some_iff)
  then have "CHR '':'' \<notin> set (user e)" using readkasmpasswd_valid by (auto simp: valid_entry_def valid_field_def)
  then show ?thesis
    using assms l by (auto simp: basic_auth_granted knows_password_def lookup_def)
qed

lemma denied_stored:
  assumes "s_passwdfile st = Some pf" "passwdfile m = Some path" "api_passwd (aenv env) = files m path"
    and "find_stored m u = None" "u \<noteq> ''''"
  shows "basic_auth st env req \<noteq> Granted u own"
  using assms by (auto simp: basic_auth_granted knows_password_def find_stored_def stored_def lookup_def)

section \<open>The list of users\<close>

text \<open>The tree of the list: the entries without their passwords.\<close>

definition json_listed :: "kasmpasswd_entry \<Rightarrow> cJSON" where
  "json_listed e = list_item cJSON_Object
     [set_string ''user'' (string_item (user e)), json_bool ''read'' (p_read e), json_bool ''write'' (p_write e),
      json_bool ''owner'' (p_owner e)]"

lemma quoted_names: "quoted ''user'' = CHR 0x22 # ''user'' @ [CHR 0x22]" "quoted ''read'' = CHR 0x22 # ''read'' @ [CHR 0x22]"
  "quoted ''write'' = CHR 0x22 # ''write'' @ [CHR 0x22]" "quoted ''owner'' = CHR 0x22 # ''owner'' @ [CHR 0x22]"
  by (simp_all add: quoted_def escape_char_def)

lemma listed_user_text:
  assumes "plain_text (user e)"
  shows "\<exists>t. listed_user e = ''    '' @ t \<and> value_text (Suc d) (json_listed e) t"
proof -
  note own = member_one [OF plain_names(5) bool_text ws_nil(2,2,2) refl, of d "p_owner e"]
  note wr = member_more [OF plain_names(4) bool_text own ws_nil(2,2) refl, of "p_write e"]
  note rd = member_more [OF plain_names(3) bool_text wr ws_nil(2,2) refl, of "p_read e"]
  note us = member_more [OF plain_names(1) quoted_text [OF assms] rd ws_nil(2,2) refl]
  show ?thesis
    using v_object [OF us] unfolding listed_user_def json_listed_def json_bool_def quoted_names quoted_def [of "user e"]
    by simp
qed

lemma listed_users_text:
  "\<lbrakk>es \<noteq> []; \<forall>e\<in>set es. plain_text (user e)\<rbrakk> \<Longrightarrow> items_text (Suc d) (map json_listed es) ([LF] @ listed_users es)"
proof (induction es rule: listed_users.induct)
  case (2 e)
  have "ws ([LF] @ ''    '')" by (simp add: ws_def LF_def)
  moreover obtain t where "listed_user e = ''    '' @ t" "value_text (Suc d) (json_listed e) t"
    using listed_user_text 2(2) by (metis list.set_intros(1))
  ultimately show ?case using i_one [of "[LF] @ ''    ''" "Suc d" _ t "[LF]"] ws_nil(3) by simp
next
  case (3 e e' es)
  have "ws ([LF] @ ''    '')" by (simp add: ws_def LF_def)
  moreover obtain t where "listed_user e = ''    '' @ t" "value_text (Suc d) (json_listed e) t"
    using listed_user_text 3(3) by (metis list.set_intros(1))
  moreover have "items_text (Suc d) (map json_listed (e' # es)) ([LF] @ listed_users (e' # es))" using 3 by simp
  ultimately show ?case using i_more [of "[LF] @ ''    ''" "Suc d" _ t "[]"] ws_nil(1) by simp
qed simp

lemma users_listing_text:
  assumes "es \<noteq> []" "\<forall>e\<in>set es. plain_text (user e)"
  shows "\<exists>t. users_listing es = [] @ t @ [LF] \<and> value_text 1000 (list_item cJSON_Array (map json_listed es)) t"
  using v_array [OF listed_users_text [OF assms, of 998]] by (simp add: users_listing_def)

lemma listed_fields:
  "length (user e) < USERNAME_LEN \<Longrightarrow> user_fields (child (json_listed e)) no_user = Some (e\<lparr>password := ''''\<rparr>)"
  by (simp add: json_listed_def json_bool_def user_field_def json_types no_user_def)

lemma parse_listed_users:
  "\<forall>e\<in>set es. length (user e) < USERNAME_LEN \<Longrightarrow>
   parse_users (map json_listed es) = Some (map (\<lambda>e. e\<lparr>password := ''''\<rparr>) es)"
proof (induction es)
  case (Cons e es)
  have "has_type (json_listed e) cJSON_Object" by (simp add: json_listed_def json_types)
  with Cons listed_fields [of e] show ?case by simp
qed simp

lemma parse_users_listing:
  assumes "es \<noteq> []" "\<forall>e\<in>set es. plain_text (user e) \<and> length (user e) < USERNAME_LEN"
  shows "parseJsonUsers (users_listing es) = Some (map (\<lambda>e. e\<lparr>password := ''''\<rparr>) es)"
proof -
  obtain t where t: "users_listing es = [] @ t @ [LF]" "value_text 1000 (list_item cJSON_Array (map json_listed es)) t"
    using users_listing_text assms by metis
  then have "cJSON_Parse (users_listing es) = Some (list_item cJSON_Array (map json_listed es))"
    using parse_document [OF t(2) ws_nil(1,3), of False] by (auto simp: cJSON_Parse_def)
  then show ?thesis using parse_listed_users [of es] assms(2) by (simp add: parseJsonUsers_def json_types)
qed

lemma JSON_escape_longer: "length s \<le> length (JSON_escape s)"
proof (induction s)
  case (Cons c s)
  have "1 \<le> length (escape_char c)" by (simp add: escape_char_def)
  with Cons show ?case by simp
qed simp

text \<open>A line whose name has a colon.\<close>

definition forged :: "string \<Rightarrow> string \<Rightarrow> string \<Rightarrow> kasmpasswd_entry" where
  "forged a b pw = \<lparr>user = a @ '':'' @ b, password = pw, p_read = False, p_write = False, p_owner = False\<rparr>"

lemma read_forged:
  assumes "valid_field a" "a \<noteq> ''''" "valid_field b" "length (a @ '':'' @ b) < USERNAME_LEN"
    and "valid_field pw" "length pw < PASSWORD_LEN"
  shows "readkasmpasswd (Some (print_entries [forged a b pw])) =
    [\<lparr>user = a, password = b, p_read = CHR ''r'' \<in> set pw, p_write = CHR ''w'' \<in> set pw, p_owner = CHR ''o'' \<in> set pw\<rparr>]"
proof -
  let ?l = "a @ CHR '':'' # b @ CHR '':'' # pw @ '':''"
  have l: "LF \<notin> set ?l" using assms by (auto simp: valid_field_def LF_def)
  have print: "print_entries [forged a b pw] = ?l @ [LF]" using assms(2) by (simp add: print_entries_def print_entry_def forged_def)
  have "file_lines 4096 (?l @ [LF]) = [?l @ [LF]]"
    using file_lines_concat [of "[?l]" 4096] l assms(4,6) by (simp add: USERNAME_LEN_def PASSWORD_LEN_def)
  moreover have "parse_entry (?l @ [LF]) =
    Some \<lparr>user = a, password = b, p_read = CHR ''r'' \<in> set pw, p_write = CHR ''w'' \<in> set pw, p_owner = CHR ''o'' \<in> set pw\<rparr>"
    using assms takeWhile_not [of LF "pw @ '':''" "[]"]
    by (simp add: parse_entry_def strchr_append takeWhile_not Let_def valid_field_def strchr_None
        USERNAME_LEN_def PASSWORD_LEN_def LF_def)
  moreover have "cstr (?l @ [LF]) = ?l @ [LF]"
    using assms by (intro cstr_NUL(1)) (auto simp: valid_field_def NUL_def LF_def)
  ultimately show ?thesis unfolding print by (simp add: readkasmpasswd_def List.map_filter_simps)
qed

section \<open>Properties\<close>

text \<open>
  C11. The operations on the password file implement a table of users: netAddUser adds an
  entry only if the name is free, netAddOrUpdateUser sets it, netUpdateUser changes the
  fields of its mask and netRemoveUser deletes the entry, the latter two only for a user
  that exists; no other user is affected, the return value tells whether the table
  changed, and the names in the file stay distinct.
\<close>

theorem net_users_refine_table:
  assumes "wf_store path m" "good_entry e" "msk \<noteq> 0"
  shows "(\<exists>m'. netAddOrUpdateUser m e = (m', True) \<and> wf_store path m' \<and> find_stored m' = (find_stored m)(user e \<mapsto> e))
    \<and> (\<exists>m'. netAddUser m (user e) (password e) (p_read e) (p_write e) (p_owner e) = (m', find_stored m (user e) = None)
          \<and> wf_store path m' \<and> find_stored m' = (find_stored m)(user e := Some (case find_stored m (user e) of None \<Rightarrow> e | Some e' \<Rightarrow> e')))
    \<and> (\<exists>m'. netRemoveUser m (user e) = (m', find_stored m (user e) \<noteq> None)
          \<and> wf_store path m' \<and> find_stored m' = (find_stored m)(user e := None))
    \<and> (\<exists>m'. netUpdateUser m (user e) msk (password e) (p_read e) (p_write e) (p_owner e) = (m', find_stored m (user e) \<noteq> None)
          \<and> wf_store path m' \<and> find_stored m' = (find_stored m)(user e :=
              map_option (update_entry msk (password e) (p_read e) (p_write e) (p_owner e)) (find_stored m (user e))))"
proof (intro conjI)
  have e: "user e \<noteq> ''''" "valid_field (password e)" "length (password e) < PASSWORD_LEN" "length (user e) < USERNAME_LEN"
    using assms(2) by (auto simp: good_entry_def valid_entry_def)
  show "\<exists>m'. netAddOrUpdateUser m e = (m', True) \<and> wf_store path m' \<and> find_stored m' = (find_stored m)(user e \<mapsto> e)"
    using users.add_or_update_law [OF assms(1,2)] by (cases "netAddOrUpdateUser m e") auto
  show "\<exists>m'. netAddUser m (user e) (password e) (p_read e) (p_write e) (p_owner e) = (m', find_stored m (user e) = None)
      \<and> wf_store path m' \<and> find_stored m' = (find_stored m)(user e := Some (case find_stored m (user e) of None \<Rightarrow> e | Some e' \<Rightarrow> e'))"
    using netAddUser_step [OF assms(1,2)]
    by (cases "netAddUser m (user e) (password e) (p_read e) (p_write e) (p_owner e)") (auto split: option.splits)
  show "\<exists>m'. netRemoveUser m (user e) = (m', find_stored m (user e) \<noteq> None)
      \<and> wf_store path m' \<and> find_stored m' = (find_stored m)(user e := None)"
    using users.remove_law [OF assms(1) e(1)] by (cases "netRemoveUser m (user e)") auto
  show "\<exists>m'. netUpdateUser m (user e) msk (password e) (p_read e) (p_write e) (p_owner e) = (m', find_stored m (user e) \<noteq> None)
      \<and> wf_store path m' \<and> find_stored m' = (find_stored m)(user e :=
          map_option (update_entry msk (password e) (p_read e) (p_write e) (p_owner e)) (find_stored m (user e)))"
    using netUpdateUser_step [OF assms(1) e(1) assms(3) e(2-4)]
    by (cases "netUpdateUser m (user e) msk (password e) (p_read e) (p_write e) (p_owner e)") auto
qed

text \<open>
  C8. Users that the owner creates with a POST request can log in: the request is answered
  with 200, and a later request whose Authorization header has the name and the password of
  one of them is granted under that name, as an owner if the entry says so. The hash of a
  password has no colon or newline and is shorter than its field.
\<close>

theorem api_created_user_logs_in:
  assumes "wf_store path m" "addOrUpdateUserCb cb = netAddOrUpdateUser"
    and "posts ''/api/create_user'' body req" "parseJsonUsers body = Some es" "distinct (map user es)"
    and "\<forall>e\<in>set es. user e \<noteq> '''' \<and> valid_field (user e) \<and> password e \<noteq> ''''
      \<and> valid_field (api_crypt env (password e)) \<and> length (api_crypt env (password e)) < PASSWORD_LEN"
    and "ownerapi cb env req m = (m', r)" "e \<in> set es"
    and "s_passwdfile st = Some pf" "api_passwd (aenv henv) = files m' path" "api_crypt (aenv henv) = api_crypt env"
    and "presents henv login (user e @ '':'' @ password e)"
  shows "r = Sent (Answer ''text/plain'' ''200 OK'') \<and> basic_auth st henv login = Granted (user e) (p_owner e)"
proof -
  let ?crypt = "\<lambda>e. e\<lparr>password := api_crypt env (password e)\<rparr>"
  have "\<forall>e\<in>set es. length (user e) < USERNAME_LEN"
    using assms(4) parse_users_bounds by (auto simp: parseJsonUsers_def split: option.splits if_splits)
  then have "\<forall>e\<in>set es. user e \<noteq> '''' \<and> password e \<noteq> '''' \<and> good_entry (?crypt e)"
    using assms(6) by (simp add: good_entry_def valid_entry_def)
  then obtain m1 where m1: "create_users cb (api_crypt env) es m = (m1, True)" "wf_store path m1"
    "find_stored m1 = find_stored m ++ map_of (map (\<lambda>e. (user e, ?crypt e)) (rev es))"
    using users.create_all [OF assms(1,2)] by blast
  then have r: "m' = m1" "r = Sent (Answer ''text/plain'' ''200 OK'')"
    using assms(4,7) ownerapi_posts [OF assms(3), of cb env m] by (auto simp: ok_reply_def)
  have "map_of (map (\<lambda>e. (user e, ?crypt e)) (rev es)) (user e) = Some (?crypt e)"
    using assms(5,8) by (intro map_of_is_SomeI) (auto simp: comp_def rev_map [symmetric])
  then have "find_stored m' (user e) = Some (?crypt e)" using m1(3) r(1) by simp
  moreover have "passwdfile m' = Some path" using m1(2) r(1) wf_storeD(2) by blast
  ultimately have "basic_auth st henv login = Granted (user (?crypt e)) (p_owner (?crypt e))"
    using assms(6,8,11,12) by (intro granted_stored [OF assms(9) _ assms(10), of _ "password e"]) auto
  with r(2) show ?thesis by simp
qed

text \<open>
  C13. A POST request of the owner that removes existing users is answered with 200; from
  then on no request is granted under one of their names, and the other users keep their
  entries.
\<close>

theorem api_removed_user_locked_out:
  assumes "wf_store path m" "removeCb cb = netRemoveUser" "posts ''/api/remove_user'' body req"
    and "parseJsonUsers body = Some es" "es \<noteq> []" "distinct (map user es)" "api_passwd env = files m path"
    and "\<forall>e\<in>set es. find_stored m (user e) \<noteq> None" "ownerapi cb env req m = (m', r)"
    and "e \<in> set es" "s_passwdfile st = Some pf" "api_passwd (aenv henv) = files m' path"
  shows "r = Sent (Answer ''text/plain'' ''200 OK'') \<and> basic_auth st henv login \<noteq> Granted (user e) own
    \<and> (\<forall>u. u \<notin> user ` set es \<longrightarrow> find_stored m' u = find_stored m u)"
proof -
  have names: "\<forall>e\<in>set es. user e \<noteq> '''' \<and> find_stored m (user e) \<noteq> None" using assms(8) by (auto simp: find_stored_def)
  then obtain m1 where m1: "remove_users cb es m = (m1, True)" "wf_store path m1"
    "find_stored m1 = find_stored m |` (- user ` set es)"
    using users.remove_all [OF assms(1,2,6)] by blast
  have st: "stored m = readkasmpasswd (api_passwd env)" using assms(7) wf_storeD(2) [OF assms(1)] by (simp add: stored_def)
  have "\<forall>e\<in>set es. \<exists>f\<in>set (stored m). user e = user f"
    using names find_stored_in by (metis option.exhaust)
  moreover from this have "stored m \<noteq> []" using assms(5) by (cases es) auto
  ultimately have "allUsersPresent (readkasmpasswd (api_passwd env)) es"
    unfolding allUsersPresent_def st [symmetric] by (auto simp: list_all_iff list_ex_iff)
  then have r: "m' = m1" "r = Sent (Answer ''text/plain'' ''200 OK'')"
    using assms(4,9) m1(1) ownerapi_posts [OF assms(3), of cb env m] by (auto simp: ok_reply_def)
  have "find_stored m' (user e) = None" using m1(3) r(1) assms(10) by (simp add: restrict_map_def)
  then have "basic_auth st henv login \<noteq> Granted (user e) own"
    using denied_stored [OF assms(11) wf_storeD(2) [OF m1(2)]] r(1) assms(10,12) names by blast
  then show ?thesis using r m1(3) by (simp add: restrict_map_def)
qed

text \<open>
  A list of users that fits its buffer of 80 bytes for each user is JSON: parseJsonUsers
  reads the names and permissions of the password file back from it.
\<close>

theorem user_listing_round_trip:
  assumes "length (users_listing (stored m)) < 80 * length (stored m)" "\<forall>e\<in>set (stored m). plain_text (user e)"
  shows "\<exists>text. netGetUsers m = Some text \<and> parseJsonUsers text = Some (map (\<lambda>e. e\<lparr>password := ''''\<rparr>) (stored m))"
proof -
  have "stored m \<noteq> []" using assms(1) by auto
  moreover have "\<forall>e\<in>set (stored m). length (user e) < USERNAME_LEN" using stored_valid by (auto simp: valid_entry_def)
  ultimately show ?thesis
    using assms parse_users_listing [of "stored m"] by (simp add: netGetUsers_def Let_def)
qed

text \<open>
  The buffer is too small for long names: a password file whose only user has a name of
  13 characters or more, all of which the file allows up to 127, has no complete listing.
\<close>

theorem user_listing_cut:
  assumes "stored m = [e]" "13 \<le> length (user e)"
  shows "netGetUsers m = None"
proof -
  have "13 \<le> length (JSON_escape (user e))" using assms(2) JSON_escape_longer le_trans by blast
  then show ?thesis
    using assms(1) by (simp add: netGetUsers_def users_listing_def listed_user_def bool_text_def)
qed

text \<open>
  C38. netAddUser does not look for colons in the name: adding a user \<open>a:b\<close> to an empty file
  reports success, but creates a user \<open>a\<close> whose stored hash is \<open>b\<close>, and who is an owner if
  the hash of the given password has the letter o, whatever permissions were asked for.
\<close>

theorem colon_in_name_forges_entry:
  assumes "wf_store path m" "stored m = []" "valid_field a" "a \<noteq> ''''" "valid_field b" "length (a @ '':'' @ b) < USERNAME_LEN"
    and "valid_field pw" "length pw < PASSWORD_LEN"
  shows "\<exists>m' e. netAddUser m (a @ '':'' @ b) pw False False False = (m', True) \<and> stored m' = [e]
    \<and> user e = a \<and> password e = b \<and> (p_owner e \<longleftrightarrow> CHR ''o'' \<in> set pw)"
proof -
  let ?m = "store [forged a b pw] m"
  have w: "passwdfile m = Some path" "length path \<le> PATH_MAX - 5" "write_ok m" "disk_space m = None" using assms(1) by (auto simp: wf_store_def)
  then have "netAddUser m (a @ '':'' @ b) pw False False False = (?m, True)"
    using assms(2,6,8) by (simp add: netAddUser_def find_user_def forged_def)
  moreover have "stored ?m = readkasmpasswd (Some (print_entries [forged a b pw]))"
    using w by (simp add: stored_def store_def writekasmpasswd_result)
  ultimately show ?thesis using read_forged [OF assms(3-8)] by simp
qed

text \<open>
  C37. A parameter without a value, followed by one that has one, gives parse\_get a negative
  length that wraps around to almost four gigabytes: the request
  \<open>GET /api/remove_user?name&k=v\<close> of an owner makes the server copy that much into a
  buffer of 4096 bytes.
\<close>

theorem parameter_without_value_overruns:
  assumes "req = ''GET /api/remove_user?name&'' @ k @ ''='' @ v @ '' '' @ hdrs"
    and "\<forall>c\<in>set (k @ v). c \<noteq> CHR '' ''" "CHR ''='' \<notin> set k" "length (k @ v) \<le> 900"
    and "strstr (drop 4 req) ''../'' = None"
  shows "ownerapi cb env req m = (m, Overrun)"
proof -
  let ?args = "''name&'' @ k @ ''='' @ v"
  let ?p = "''/api/remove_user?'' @ ?args"
  have req: "drop 4 req = ?p @ '' '' @ hdrs" using assms(1) by simp
  have "request_path (drop 4 req) = Some ?p"
    using request_path_word [of ?p hdrs] assms(2,4,5) unfolding req by auto
  moreover have "strchr ?args (CHR ''='') = Some (CHR ''='' # v)"
    using strchr_append [of "CHR ''=''" "''name&'' @ k" v] assms(3) by simp
  then have "parse_get ?args ''name'' = (v, u32 (int (length v) - int (length k + length v + 2)))"
    by (subst parse_get.simps) (simp add: Let_def)
  moreover have "u32 (int (length v) - int (length k + length v + 2)) > 1024"
  proof -
    have "(- 2 - int (length k)) mod 4294967296 = 4294967296 - 2 - int (length k)"
      using mod_add_self2 [of "- 2 - int (length k)" 4294967296] assms(4) by (simp add: mod_pos_pos_trivial)
    then show ?thesis using assms(4) by (simp add: u32_def)
  qed
  ultimately have "decoded_param ?args ''name'' = None" by (simp add: decoded_param_def text_param_def)
  then show ?thesis
    using \<open>request_path (drop 4 req) = Some ?p\<close> assms(1)
    by (simp add: ownerapi_def api_get_def api_remove_user_def)
qed

section \<open>Examples\<close>

text \<open>An empty password file, and a request that creates the user of the earlier examples.\<close>

definition demo_store :: messager where
  "demo_store = \<lparr>passwdfile = Some ''pw'', files = Map.empty, write_ok = True, disk_space = None\<rparr>"

definition demo_user :: kasmpasswd_entry where
  "demo_user = \<lparr>user = ''x'', password = ''y'', p_read = True, p_write = False, p_owner = True\<rparr>"

definition demo_post :: "string \<Rightarrow> string" where
  "demo_post path = ''POST '' @ path @ '' '' @ ''HTTP/1.1'' @ CRLF @ CRLF @ users_text [demo_user]"

definition demo_api :: "messager callbacks" where
  "demo_api = \<lparr>screenshotCb = \<lambda>m _ _ _ _. (m, ''''), adduserCb = netAddUser,
     removeCb = netRemoveUser, updateUserCb = netUpdateUser,
     addOrUpdateUserCb = netAddOrUpdateUser, bottleneckStatsCb = \<lambda>m. (m, ''''), frameStatsCb = \<lambda>m. (m, ''''),
     resetFrameStatsCb = \<lambda>m. m, requestFrameStatsNoneCb = \<lambda>m. (m, False),
     requestFrameStatsOwnerCb = \<lambda>m. (m, False), requestFrameStatsAllCb = \<lambda>m. (m, False),
     requestFrameStatsOneCb = \<lambda>m _. (m, False), ownerConnectedCb = \<lambda>m. (m, 0), numActiveUsersCb = \<lambda>m. (m, 0),
     getUsersCb = \<lambda>m. (m, the (netGetUsers m)), getClientFrameStatsNumCb = \<lambda>m. (m, 0), serverFrameStatsReadyCb = \<lambda>m. (m, False),
     clearClipboardCb = \<lambda>m. m, getSessionsCb = \<lambda>m. (m, ''''), wakeup = \<lambda>m. m\<rparr>"

definition demo_login :: "messager \<Rightarrow> hs_env" where
  "demo_login m = (demo_env ''x:y'' 100)\<lparr>aenv := (aenv (demo_env ''x:y'' 100))\<lparr>api_passwd := files m ''pw''\<rparr>\<rparr>"

lemma demo_posts:
  "path \<in> {''/api/create_user'', ''/api/remove_user''} \<Longrightarrow> posts path (users_text [demo_user]) (demo_post path)"
  unfolding posts_def
  by (rule exI [of _ "''HTTP/1.1'' @ CRLF @ CRLF @ users_text [demo_user]"])
    (auto simp: demo_post_def CRLF_def users_text_def user_text_def quoted_def escape_char_def bool_text_def demo_user_def)

lemma demo_users: "parseJsonUsers (users_text [demo_user]) = Some [demo_user]"
proof -
  have t: "value_text 1000 (json_users [demo_user]) (users_text [demo_user])"
    using users_text_value [of "[demo_user]" 998] by (simp add: demo_user_def plain_text_def NUL_def)
  show ?thesis
    using parse_users_text [OF _ t ws_nil(1,1)] by (simp add: demo_user_def USERNAME_LEN_def PASSWORD_LEN_def)
qed

lemma demo_wf: "wf_store ''pw'' demo_store" "stored demo_store = []"
  by (simp_all add: wf_store_def demo_store_def stored_def readkasmpasswd_def named_def PATH_MAX_def)

lemma demo_valid: "good_entry demo_user" "user demo_user = ''x''" "password demo_user = ''y''" "p_owner demo_user"
  by (simp_all add: good_entry_def valid_entry_def valid_field_def demo_user_def LF_def NUL_def USERNAME_LEN_def PASSWORD_LEN_def)

lemma demo_presents: "presents (demo_login m) demo_request ''x:y''"
  by (simp add: presents_def auth_header_def demo_login_def demo_env_def demo_request_def CRLF_def tolower_def strchr_def
      ws_b64_pton_def length_to_bytes of_bytes_to_bytes cstr_def NUL_def)

theorem net_users_refine_table_witness: "\<exists>m'. netAddOrUpdateUser demo_store demo_user = (m', True) \<and> wf_store ''pw'' m'"
  using net_users_refine_table [OF demo_wf(1) demo_valid(1), of 1] by auto

theorem api_created_user_logs_in_witness:
  "basic_auth demo_settings (demo_login (fst (ownerapi demo_api (aenv (demo_env ''x:y'' 100)) (demo_post ''/api/create_user'') demo_store)))
     demo_request = Granted ''x'' True"
proof -
  obtain m' r where run: "ownerapi demo_api (aenv (demo_env ''x:y'' 100)) (demo_post ''/api/create_user'') demo_store = (m', r)"
    by fastforce
  have "\<forall>e\<in>set [demo_user]. user e \<noteq> '''' \<and> valid_field (user e) \<and> password e \<noteq> ''''
      \<and> valid_field (api_crypt (aenv (demo_env ''x:y'' 100)) (password e))
      \<and> length (api_crypt (aenv (demo_env ''x:y'' 100)) (password e)) < PASSWORD_LEN"
    by (simp add: demo_valid valid_field_def LF_def NUL_def PASSWORD_LEN_def demo_env_def)
  moreover have "s_passwdfile demo_settings = Some ''pw''" "addOrUpdateUserCb demo_api = netAddOrUpdateUser"
    "api_passwd (aenv (demo_login m')) = files m' ''pw''"
    "api_crypt (aenv (demo_login m')) = api_crypt (aenv (demo_env ''x:y'' 100))"
    by (simp_all add: demo_settings_def demo_api_def demo_login_def)
  ultimately show ?thesis
    using api_created_user_logs_in [OF demo_wf(1) _ demo_posts demo_users _ _ run, of demo_user demo_settings "''pw''" "demo_login m'" demo_request]
      run demo_presents [of m'] by (simp add: demo_valid)
qed

theorem api_removed_user_locked_out_witness:
  "basic_auth demo_settings (demo_login (fst (ownerapi demo_api (aenv (demo_login (fst (netAddOrUpdateUser demo_store demo_user))))
       (demo_post ''/api/remove_user'') (fst (netAddOrUpdateUser demo_store demo_user)))))
     demo_request \<noteq> Granted ''x'' True"
proof -
  define m where "m = fst (netAddOrUpdateUser demo_store demo_user)"
  have m: "wf_store ''pw'' m" "find_stored m ''x'' = Some demo_user"
    using netAddOrUpdateUser_step [OF demo_wf(1) demo_valid(1)] by (metis m_def prod.collapse fun_upd_same demo_valid(2))+
  obtain m' r where run: "ownerapi demo_api (aenv (demo_login m)) (demo_post ''/api/remove_user'') m = (m', r)"
    by fastforce
  have "s_passwdfile demo_settings = Some ''pw''" "removeCb demo_api = netRemoveUser"
    "api_passwd (aenv (demo_login m')) = files m' ''pw''" "api_passwd (aenv (demo_login m)) = files m ''pw''"
    by (simp_all add: demo_settings_def demo_api_def demo_login_def)
  then have "basic_auth demo_settings (demo_login m') demo_request \<noteq> Granted ''x'' True"
    using api_removed_user_locked_out [OF m(1) _ demo_posts demo_users _ _ _ _ run, of demo_user demo_settings "''pw''" "demo_login m'"]
      m(2) by (simp add: demo_valid)
  then show ?thesis using run by (simp add: m_def)
qed

theorem user_listing_round_trip_witness:
  "\<exists>text. netGetUsers (fst (netAddOrUpdateUser demo_store demo_user)) = Some text
     \<and> parseJsonUsers text = Some [demo_user\<lparr>password := ''''\<rparr>]"
proof -
  have "stored (store [demo_user] demo_store) = named [demo_user]"
    by (rule store_stored [OF demo_wf(1)]) (use demo_valid(1) in \<open>simp_all add: good_entry_def\<close>)
  then have "stored (fst (netAddOrUpdateUser demo_store demo_user)) = [demo_user]"
    by (simp add: netAddOrUpdateUser_def demo_wf(2) find_user_def named_def demo_valid)
  moreover have "length (users_listing [demo_user]) < 80" "plain_text (user demo_user)"
    by (simp_all add: users_listing_def listed_user_def bool_text_def escape_char_def demo_user_def plain_text_def NUL_def)
  ultimately show ?thesis using user_listing_round_trip [of "fst (netAddOrUpdateUser demo_store demo_user)"] by simp
qed

definition demo_long :: kasmpasswd_entry where
  "demo_long = demo_user\<lparr>user := ''administrator''\<rparr>"

theorem user_listing_cut_witness: "netGetUsers (fst (netAddOrUpdateUser demo_store demo_long)) = None"
proof -
  have "good_entry demo_long"
    by (simp add: good_entry_def valid_entry_def valid_field_def demo_user_def demo_long_def LF_def NUL_def USERNAME_LEN_def PASSWORD_LEN_def)
  then have "stored (store [demo_long] demo_store) = named [demo_long]"
    by (intro store_stored [OF demo_wf(1)]) (simp_all add: good_entry_def)
  then have "stored (fst (netAddOrUpdateUser demo_store demo_long)) = [demo_long]"
    by (simp add: netAddOrUpdateUser_def demo_wf(2) find_user_def named_def demo_long_def)
  then show ?thesis using user_listing_cut by (simp add: demo_long_def)
qed

theorem colon_in_name_forges_entry_witness:
  "\<exists>m' e. netAddUser demo_store ''a:b'' ''$5$kasm$o'' False False False = (m', True) \<and> stored m' = [e] \<and> user e = ''a'' \<and> p_owner e"
  using colon_in_name_forges_entry [OF demo_wf, of "''a''" "''b''" "''$5$kasm$o''"]
  by (auto simp: valid_field_def LF_def NUL_def USERNAME_LEN_def PASSWORD_LEN_def)

theorem parameter_without_value_overruns_witness:
  "ownerapi demo_api (aenv (demo_env ''x:y'' 100)) (''GET /api/remove_user?name&k=v HTTP/1.1'' @ CRLF @ CRLF) demo_store = (demo_store, Overrun)"
  by (rule parameter_without_value_overruns [where k = "''k''" and v = "''v''" and hdrs = "''HTTP/1.1'' @ CRLF @ CRLF"])
    (simp_all add: CRLF_def)

end
