(* ===== verification/Spec2Isabelle.thy ===== *)
theory Spec2Isabelle
  imports DisplayProps RdrStream WebSocketProps MessagerProps
begin

text \<open>
  KasmVNC is a remote desktop server: an X server with a VNC back end whose clients are web
  browsers. This development models the parts that face the network, the geometry, and the
  path on which changes of the screen reach a client, under \<^verbatim>\<open>src/common\<close> and
  \<^verbatim>\<open>src/unix/kasmvncpasswd\<close>, and proves what they promise.

  How the parts work together: a browser connects to the HTTP server of
  \<^verbatim>\<open>common/network/websocket.c\<close>. do\_handshake reads the request, consults the blacklist
  (\<^verbatim>\<open>Blacklist.cxx\<close>), checks the Authorization header against the password file
  (\<^verbatim>\<open>unix/kasmvncpasswd/kasmpasswd.c\<close>), and then either upgrades the connection to a
  WebSocket, answers a request of the owner's API or serves a file. An upgraded connection is
  handed to do\_proxy of \<^verbatim>\<open>websockify.c\<close>, which copies frames between the browser and the
  VNC server through a local socket. The API changes users through callbacks into
  \<^verbatim>\<open>GetAPIMessager.cxx\<close>, which rewrites the password file; request bodies are JSON, read by
  \<^verbatim>\<open>jsonescape.c\<close> on top of \<^verbatim>\<open>cJSON.c\<close>. Changed areas of the screen are kept as regions of
  \<^verbatim>\<open>common/Xregion/Region.c\<close> in the update trackers of \<^verbatim>\<open>common/rfb\<close>, and EncodeManager turns
  what a tracker knows into the rectangles of an update.

  \<^bold>\<open>Shared.\<close> \<open>KasmPrelude\<close> has the C integer conversions, the locale \<open>codec\<close> of round trips and
  generic lemmas; \<open>CString\<close> the functions of the C library on strings and lines; \<open>CDouble\<close>
  IEEE doubles as rationals with infinities, correct rounding and strtod.

  \<^bold>\<open>Regions\<close> (\<^verbatim>\<open>Region.c\<close>, \<^verbatim>\<open>Xregion.h\<close>). \<open>XRegionModel\<close> has the struct as a record with its box
  array and allocated size, a heap of region pointers with aliasing of sources and
  destinations, and every routine that is compiled (XSetRegion is disabled in the source): the sweep miRegionOp with its overlap functions, coalescing of bands, failure
  of realloc as a parameter. A realloc of size 0 frees the array, to which the region keeps its
  pointer: the field \<open>lost\<close> counts how often the array was freed that way. \<open>XRegionBands\<close>, \<open>XRegionSweep\<close> and \<open>XRegionOp\<close> prove the band
  invariant along the sweep, \<open>XRegionCorrect\<close> that each operation computes the set
  operation on points, \<open>XRegionQuery\<close> and \<open>XRegionAlgebra\<close> the queries, equality and
  translation. \<open>XRegionProps\<close> states the properties. \<open>XRegionShrink\<close> is XShrinkRegion with
  its loop over the bits of the distance, for which the 32 rounds of an unsigned counter are
  enough, and proves it an erosion or a dilation.

  \<^bold>\<open>WebSocket frames and proxy\<close> (\<^verbatim>\<open>websocket.c\<close>, \<^verbatim>\<open>websockify.c\<close>). \<open>WebSocketFrames\<close> models the
  encoders and decoders of both protocol versions on bytes; the Base64 filters of OpenSSL are
  parameters. The decoders run on the received bytes and the stale ones behind them in the
  buffer; reading behind both, or writing through a null pointer, is a \<open>fault\<close>.
  \<open>WebSocketStream\<close> has the decoder without the buffer, \<open>decode_stream\<close>, shows that the code
  computes it or reads behind the buffer, the latter for a header cut at the end of it only,
  and that decoding can be restarted at any point of the stream. \<open>WebSocketProxy\<close> is one iteration of do\_proxy
  as a function of the results of its system calls, with the buffers and indices of the code;
  \<open>WebSocketProxyInv\<close> the invariant of its reachable states. \<open>WebSocketProps\<close> states that
  the server is sent the stream of the client, that the client is sent one frame per chunk of the
  server until a send to it fails (the code does not notice, \<open>send_failed\<close> records it), that
  indices stay in the buffers except for that one read, and how errors end the loop.

  \<^bold>\<open>Passwords\<close> (\<^verbatim>\<open>kasmpasswd.c\<close>, \<^verbatim>\<open>kasmvncpasswd.c\<close>). \<open>KasmPasswd\<close> models reading and writing the
  file, the writer as the sequence of file system states it goes through, and the tool's main;
  crypt, the terminal and getopt's tokens are inputs, and so is the space on the disk: the code
  does not look at the results of its writes, so the file may be cut anywhere. \<open>KasmPasswdProps\<close>:
  round trip, replacement by what the disk took, and that the tool stores the password that was
  typed and changes the named user only.

  \<^bold>\<open>JSON\<close> (\<^verbatim>\<open>cJSON.c\<close>, \<^verbatim>\<open>jsonescape.c\<close>). \<open>CJson\<close> is cJSON\_Parse with everything it calls, with
  fuel for the mutual recursion; \<open>CJsonProgress\<close> shows that \<open>3 * length + 6\<close> steps always
  suffice, because every call consumes input; \<open>CJsonGrammar\<close> gives the grammar of RFC 8259 as
  inductive relations and shows that the parser computes the value of every text of it, within
  the limits of the code: nesting up to 1000, numbers of up to 63 characters, surrogates in
  pairs, and strings cut at an escaped zero. \<open>CJsonProps\<close> adds the bound on what the second pass
  over a string writes, whether it ends or stops at a malformed escape. \<open>JsonUsers\<close> is the reader of user lists.

  \<^bold>\<open>HTTP\<close> (\<^verbatim>\<open>websocket.c\<close>). \<open>HttpRequest\<close> and \<open>HttpProps\<close>: query parameters, percent encoding, MIME
  types, keys; \<open>HttpHandshake\<close>: the headers of a WebSocket request; \<open>HttpServe\<close>: files and
  directories; \<open>Blacklist\<close>: the table of failed logins; \<open>OwnerApi\<close>: every entry point of the
  API as a function on the state behind the callbacks, the polling loops with the 500 and 20
  rounds of the code; \<open>HttpAuth\<close>: do\_handshake, which reads at most ten times, proxy\_handler
  and subthread. \<open>HttpAuthProps\<close>: nobody is served without a password, and guessing locks an
  address out.

  \<^bold>\<open>Users behind the API\<close> (\<^verbatim>\<open>GetAPIMessager.cxx\<close>). \<open>Messager\<close> has the operations that add, remove,
  update and list users; \<open>MessagerProps\<close> the contract of a user table as the locale
  \<open>user_store\<close>, in which the loops of the API are verified, its interpretation on the
  operations of the file, and the properties across components: what the owner creates by a
  request can log in, what the owner removes cannot.

  \<^bold>\<open>The display\<close> (\<^verbatim>\<open>common/rfb\<close>). \<open>RfbRegion\<close> has points, rectangles and the class Region on top of
  \<^verbatim>\<open>Region.c\<close> (its constructors assert that memory is there), \<open>RfbRegionLaws\<close> and \<open>RfbGetRects\<close> what
  its operations and the enumeration of its rectangles give. \<open>RfbTracker\<close> models the simple and the
  clipping tracker of \<^verbatim>\<open>UpdateTracker.cxx\<close>; its locale \<open>update_tracker\<close> states their common contract
  on screens as functions from points to pixels, and both are interpretations of it. \<open>RfbCopy\<close> sends
  copies, \<open>PixelBuffer\<close> is the frame buffer with explicit out-of-bounds accesses, \<open>RfbSolid\<close> and
  \<open>RfbSolidProps\<close> search for rectangles of one colour (the recursion is bounded by a fuel, for which
  more than width plus height of the screen is enough), \<open>RfbSplit\<close> cuts rectangles and counts them,
  \<open>RfbUpdate\<close> is doUpdate with the lossy region, \<open>RfbEncoders\<close> the choice of the encoders, \<open>RfbLossless\<close>
  the lossless refresh. \<open>DisplayProps\<close> states that updates bring the client up to date and that
  refreshes remove all loss. What the video detection, the video encoder and the codecs decide is an
  argument; codecs are assumed exact where they are lossless. \<open>RdrStream\<close> has the typed reads and
  writes of \<^verbatim>\<open>common/rdr\<close> as the locale \<open>wire_format\<close>.

  \<^bold>\<open>Conventions.\<close> A C string is a list of characters without a zero; buffers with a zero go
  through \<open>cstr\<close>. Results of system calls, clocks, hash functions and the file system are
  arguments. An overrun of a buffer is a value of its own where the code allows one, so that
  its absence or presence is a theorem. Mutexes are left out, each locked section is one step.

  \<^bold>\<open>Not modelled.\<close> Of the C++ core the connections, messages, codecs, scaling and pixel formats; the glue to the X server
  under \<^verbatim>\<open>unix/xserver/hw/vnc\<close>, which consists of calls into sources that are not part of the
  repository, TLS, and logging. Of the modelled files: the printer and the editing functions of \<^verbatim>\<open>cJSON.c\<close>, which the
  program does not call; screenshots, statistics and the action queue of
  \<^verbatim>\<open>GetAPIMessager.cxx\<close>. Next in the plan: the
  connection state machine of \<^verbatim>\<open>VNCSConnectionST.cxx\<close>, the message readers and writers, the printer of \<^verbatim>\<open>cJSON.c\<close> with its round trip through the parser, and the
  state machines of \<^verbatim>\<open>vncSelection.c\<close> and \<^verbatim>\<open>Input.c\<close>.
\<close>

end
